(* ===== verification/Net_Addr.thy ===== *)
theory Net_Addr
  imports Ingot_Prelude
begin

text \<open>
  The address literals of \<open>std::net\<close> as the network code uses them: parsing of
  \<open>Ipv4Addr\<close> and \<open>Ipv6Addr\<close> (the standard library's recursive-descent parser), printing of
  \<open>Ipv4Addr\<close>, and the conversions to and from \<open>u32\<close> and \<open>u128\<close>, which keep the bits.
  The laws: a printed IPv4 address parses back to itself, and the arithmetic of network masks
  (\<open>ip & (MAX << k)\<close>) that the subnets of the address allocator rest on.
\<close>

unbundle bit_operations_syntax

section \<open>IPv4 literals\<close>

text \<open>One octet: one to three digits, no leading zero, at most 255.\<close>

definition parse_octet :: "string \<Rightarrow> nat option" where
  "parse_octet s =
     (if s = [] \<or> 3 < length s \<or> \<not> list_all is_digit s
         \<or> (hd s = CHR ''0'' \<and> 1 < length s) \<or> 255 < dec_value s
      then None else Some (dec_value s))"

definition ipv4_of_octets :: "nat \<Rightarrow> nat \<Rightarrow> nat \<Rightarrow> nat \<Rightarrow> u32" where
  "ipv4_of_octets a b c d = word_of_nat (((a * 256 + b) * 256 + c) * 256 + d)"

definition parse_ipv4 :: "string \<Rightarrow> u32 option" where
  "parse_ipv4 s =
     (case split_on (CHR ''.'') s of
        [a, b, c, d] \<Rightarrow>
          (case (parse_octet a, parse_octet b, parse_octet c, parse_octet d) of
             (Some a', Some b', Some c', Some d') \<Rightarrow> Some (ipv4_of_octets a' b' c' d')
           | _ \<Rightarrow> None)
      | _ \<Rightarrow> None)"

definition show_ipv4 :: "u32 \<Rightarrow> string" where
  "show_ipv4 w = (let n = unat w in
     join_with ''.'' [show_nat (n div 16777216), show_nat (n div 65536 mod 256),
       show_nat (n div 256 mod 256), show_nat (n mod 256)])"

section \<open>IPv6 literals\<close>

definition is_hex :: "char \<Rightarrow> bool" where
  "is_hex c = (is_digit c \<or> c \<in> set ''abcdefABCDEF'')"

definition hex_val :: "char \<Rightarrow> nat" where
  "hex_val c = (if is_digit c then digit_val c
     else if is_lower c then of_char c - 87 else of_char c - 55)"

definition hex_value :: "string \<Rightarrow> nat" where
  "hex_value s = foldl (\<lambda>n c. 16 * n + hex_val c) 0 s"

text \<open>\<open>Parser::read_number\<close> in radix 16 with at most four digits, leading zeros allowed.\<close>

definition read_hex_group :: "string \<Rightarrow> (nat \<times> string) option" where
  "read_hex_group s =
     (let ds = takeWhile is_hex s; rest = dropWhile is_hex s in
      if ds = [] \<or> 4 < length ds then None else Some (hex_value ds, rest))"

definition read_char :: "char \<Rightarrow> string \<Rightarrow> string option" where
  "read_char c s = strip_prefix [c] s"

definition read_octet :: "string \<Rightarrow> (nat \<times> string) option" where
  "read_octet s = (case parse_octet (takeWhile is_digit s) of
     None \<Rightarrow> None | Some n \<Rightarrow> Some (n, dropWhile is_digit s))"

definition read_dot_octet :: "string \<Rightarrow> (nat \<times> string) option" where
  "read_dot_octet s = (case read_char (CHR ''.'') s of None \<Rightarrow> None | Some r \<Rightarrow> read_octet r)"

definition read_ipv4_addr :: "string \<Rightarrow> ((nat \<times> nat \<times> nat \<times> nat) \<times> string) option" where
  "read_ipv4_addr s =
     (case read_octet s of None \<Rightarrow> None | Some (a, s1) \<Rightarrow>
      (case read_dot_octet s1 of None \<Rightarrow> None | Some (b, s2) \<Rightarrow>
       (case read_dot_octet s2 of None \<Rightarrow> None | Some (c, s3) \<Rightarrow>
        (case read_dot_octet s3 of None \<Rightarrow> None | Some (d, s4) \<Rightarrow> Some ((a, b, c, d), s4)))))"

text \<open>\<open>Parser::read_separator\<close>: the separator precedes every group but the first.\<close>

definition read_sep :: "nat \<Rightarrow> string \<Rightarrow> string option" where
  "read_sep i s = (if i = 0 then Some s else read_char (CHR '':'') s)"

fun read_groups :: "nat \<Rightarrow> nat \<Rightarrow> string \<Rightarrow> nat list \<times> bool \<times> string" where
  "read_groups 0 i s = ([], False, s)"
| "read_groups (Suc r) i s =
     (case (if r = 0 then None else Option.bind (read_sep i s) read_ipv4_addr) of
        Some ((a, b, c, d), rest) \<Rightarrow> ([a * 256 + b, c * 256 + d], True, rest)
      | None \<Rightarrow>
         (case Option.bind (read_sep i s) read_hex_group of
            None \<Rightarrow> ([], False, s)
          | Some (g, rest) \<Rightarrow>
              (case read_groups r (Suc i) rest of (gs, v4, rest') \<Rightarrow> (g # gs, v4, rest'))))"

definition ipv6_of_groups :: "nat list \<Rightarrow> u128" where
  "ipv6_of_groups gs = word_of_nat (foldl (\<lambda>n g. n * 65536 + g) 0 gs)"

definition parse_ipv6 :: "string \<Rightarrow> u128 option" where
  "parse_ipv6 s =
     (case read_groups 8 0 s of (head, v4, rest) \<Rightarrow>
        if length head = 8 then (if rest = [] then Some (ipv6_of_groups head) else None)
        else if v4 then None
        else (case strip_prefix ''::'' rest of
            None \<Rightarrow> None
          | Some rest1 \<Rightarrow>
              (case read_groups (8 - (length head + 1)) 0 rest1 of (tail, _, rest2) \<Rightarrow>
                 if rest2 = [] then
                   Some (ipv6_of_groups
                     (head @ replicate (8 - length head - length tail) 0 @ tail))
                 else None)))"

section \<open>Round trip of IPv4 literals\<close>

lemma show_nat_small: "n < 10 \<Longrightarrow> show_nat n = [digit_char n]"
  by (subst show_nat.simps) simp

lemma show_nat_big: "10 \<le> n \<Longrightarrow> show_nat n = show_nat (n div 10) @ [digit_char (n mod 10)]"
  by (subst show_nat.simps) simp

lemma length_show_nat_byte: "n < 256 \<Longrightarrow> length (show_nat n) \<le> 3"
proof -
  assume n: "n < 256"
  have "length (show_nat m) \<le> 2" if "m < 100" for m
    using that by (cases "m < 10") (auto simp: show_nat_small show_nat_big)
  then have "length (show_nat (n div 10)) \<le> 2"
    using n by simp
  then show ?thesis
    using n by (cases "n < 10") (auto simp: show_nat_small show_nat_big)
qed

lemma hd_show_nat: "hd (show_nat n) = CHR ''0'' \<Longrightarrow> n = 0"
proof (induction n rule: show_nat.induct)
  case (1 n)
  show ?case
  proof (cases "n < 10")
    case True
    with "1.prems" have "(of_char (digit_char n) :: nat) = of_char (CHR ''0'')"
      by (simp add: show_nat_small)
    with True show ?thesis by (simp add: of_char_digit_char)
  next
    case False
    with "1.prems" have "hd (show_nat (n div 10)) = CHR ''0''"
      by (simp add: show_nat_big)
    with 1 False have "n div 10 = 0" by simp
    with False show ?thesis by simp
  qed
qed

lemma parse_octet_show [simp]: "n < 256 \<Longrightarrow> parse_octet (show_nat n) = Some n"
  using hd_show_nat [of n] length_show_nat_byte [of n]
  by (auto simp: parse_octet_def show_nat_digits show_nat_small)

lemma parse_octet_lt: "parse_octet s = Some n \<Longrightarrow> n < 256"
  by (auto simp: parse_octet_def split: if_splits)

lemma no_dot_show_nat [simp]: "CHR ''.'' \<notin> set (show_nat n)"
  by (rule show_nat_no_char) (simp add: is_digit_def)

lemma no_slash_show_nat [simp]: "CHR ''/'' \<notin> set (show_nat n)"
  by (rule show_nat_no_char) (simp add: is_digit_def)

lemma base256:
  "((n div 16777216 * 256 + n div 65536 mod 256) * 256 + n div 256 mod 256) * 256 + n mod 256 = (n :: nat)"
proof -
  have "n div 16777216 = n div 65536 div 256" and "n div 65536 = n div 256 div 256"
    by (simp_all flip: div_mult2_eq)
  then show ?thesis by simp
qed

lemma parse_show_ipv4 [simp]: "parse_ipv4 (show_ipv4 w) = Some w"
proof -
  let ?n = "unat w"
  let ?ps = "[show_nat (?n div 16777216), show_nat (?n div 65536 mod 256),
      show_nat (?n div 256 mod 256), show_nat (?n mod 256)]"
  have n: "?n < 4294967296"
    using unsigned_less [of w] by simp
  have split: "split_on (CHR ''.'') (join_with ''.'' ?ps) = ?ps"
    by (rule split_on_join) auto
  have "?n div 16777216 < 256"
    using n by (intro less_mult_imp_div_less) simp
  then have "parse_ipv4 (show_ipv4 w) = Some (ipv4_of_octets (?n div 16777216)
      (?n div 65536 mod 256) (?n div 256 mod 256) (?n mod 256))"
    unfolding parse_ipv4_def show_ipv4_def Let_def split by simp
  then show ?thesis
    by (simp only: ipv4_of_octets_def base256 of_nat_unat ucast_id)
qed

lemma show_ipv4_no_slash [simp]: "CHR ''/'' \<notin> set (show_ipv4 w)"
  by (simp add: show_ipv4_def Let_def)

section \<open>Network masks\<close>

lemma and_not_mask: "(ip :: 'a::len word) AND NOT (mask k) = push_bit k (drop_bit k ip)"
  by (rule bit_eqI) (auto simp: bit_simps)

lemma unat_and_not_mask:
  "unat ((ip :: 'a::len word) AND NOT (mask k)) = unat ip div 2 ^ k * 2 ^ k"
proof -
  have "unat ip div 2 ^ k * 2 ^ k \<le> unat ip"
    by simp
  also have "\<dots> < 2 ^ LENGTH('a)"
    by (rule unsigned_less)
  finally show ?thesis
    unfolding and_not_mask
    by (subst unsigned_push_bit_eq, subst unat_drop_bit_eq)
      (simp add: push_bit_eq_mult drop_bit_eq_div take_bit_eq_mod)
qed

lemma unat_mask:
  assumes "k \<le> LENGTH('a)"
  shows "unat (mask k :: 'a::len word) = 2 ^ k - 1"
proof -
  have "(2 :: nat) ^ k \<le> 2 ^ LENGTH('a)" and "(0 :: nat) < 2 ^ k"
    using assms by simp_all
  then have "(2 :: nat) ^ k - 1 < 2 ^ LENGTH('a)"
    by linarith
  then have "unat (of_nat (2 ^ k - 1) :: 'a word) = 2 ^ k - 1"
    by (simp only: unat_of_nat mod_less)
  moreover have "(of_nat (2 ^ k - 1) :: 'a word) = mask k"
    by (simp add: of_nat_diff mask_eq_exp_minus_1)
  ultimately show ?thesis by simp
qed

text \<open>Setting all host bits of an address without host bits adds the mask.\<close>

lemma or_mask_eq_add:
  assumes "2 ^ k dvd unat (net :: 'a::len word)"
  shows "net OR mask k = net + mask k"
proof -
  have "unat (net AND NOT (mask k)) = unat net"
    using assms by (simp add: unat_and_not_mask)
  then have "net AND NOT (mask k) = net"
    by (simp only: word_unat_eq_iff)
  then have "net AND mask k = 0"
    by (metis and.assoc and.commute bit.conj_cancel_right bit.conj_zero_right)
  then show ?thesis
    by (simp add: disjunctive_add_eq_or)
qed

text \<open>A block of \<open>2 ^ k\<close> addresses that starts at a multiple of its size: neither the address
  after the first nor the one before the last wraps.\<close>

lemma block_room:
  assumes "k \<le> LENGTH('a)" "2 ^ k dvd unat (net :: 'a::len word)"
  shows "unat net + 2 ^ k \<le> 2 ^ LENGTH('a)"
proof -
  let ?r = "LENGTH('a) - k"
  have all: "(2 :: nat) ^ LENGTH('a) = 2 ^ k * 2 ^ ?r"
    using assms(1) by (simp flip: power_add)
  obtain q where q: "unat net = 2 ^ k * q"
    using assms(2) by auto
  have "unat net < 2 ^ LENGTH('a)"
    by (rule unsigned_less)
  then have "2 ^ k * q < (2 :: nat) ^ k * 2 ^ ?r"
    by (simp only: q all)
  then have "(q + 1) \<le> 2 ^ ?r"
    by simp
  then have "2 ^ k * (q + 1) \<le> (2 :: nat) ^ k * 2 ^ ?r"
    by (intro mult_left_mono) auto
  then show ?thesis
    by (simp add: q all)
qed

lemma block_hosts:
  assumes "k \<le> LENGTH('a)" "2 \<le> k" "2 ^ k dvd unat (net :: 'a::len word)"
  shows "unat (net + 1) = unat net + 1"
    and "unat (net + mask k - 1) = unat net + 2 ^ k - 2"
proof -
  have four: "(4 :: nat) \<le> 2 ^ k"
    using power_increasing [OF assms(2), of "2 :: nat"] by simp
  show "unat (net + 1) = unat net + 1"
    using block_room [OF assms(1,3)] four by (simp add: unat_word_ariths)
  have last: "unat (net + mask k) = unat net + 2 ^ k - 1"
    using block_room [OF assms(1,3)] four
    by (simp add: unat_word_ariths unat_mask [OF assms(1)])
  moreover have "net + mask k \<noteq> 0"
    using last four by auto
  ultimately show "unat (net + mask k - 1) = unat net + 2 ^ k - 2"
    by (simp add: unat_minus_one)
qed

lemma in_block_hosts:
  assumes "k \<le> LENGTH('a)" "2 \<le> k" "2 ^ k dvd unat (net :: 'a::len word)"
  shows "net + 1 \<le> ip \<and> ip \<le> net + mask k - 1 \<longleftrightarrow>
           unat net < unat ip \<and> unat ip < unat net + 2 ^ k - 1"
proof -
  have "(4 :: nat) \<le> 2 ^ k"
    using power_increasing [OF assms(2), of "2 :: nat"] by simp
  then show ?thesis
    using block_hosts [OF assms] by (auto simp: word_le_nat_alt)
qed

end
