(* ===== verification/Ipam.thy ===== *)
theory Ipam
  imports Net_Addr
begin

text \<open>
  The address allocator of \<open>crates/network/src/ipam.rs\<close>: subnets and their usable host
  ranges (\<open>Subnet\<close>, \<open>V6Subnet\<close>), and the per-network lease table (\<open>Ipam\<close>) with its
  operations \<open>allocate\<close>, \<open>reserve\<close>, \<open>release\<close>, \<open>reset_bucket\<close> and \<open>sweep_orphans\<close> for both
  address families. Addresses are machine words; arithmetic is that of the release profile,
  which wraps and masks shift amounts. The state holds the table in memory and the content of
  the lease file; whether a write to the file succeeds is an input (\<open>ok\<close>), because the code
  ignores the outcome of \<open>write_json_atomic\<close>. The table's laws are the contract
  \<open>address_pool\<close>, which both families satisfy.
\<close>

section \<open>Subnets\<close>

datatype ipam_error =
    InvalidSubnet | InvalidSubnetAddress | InvalidSubnetPrefix | NoHostAddresses
  | InvalidGateway | GatewayOutsideSubnet | InvalidIp | OutsideSubnet | IsGateway
  | AlreadyAllocated | Exhausted

record subnet =
  network :: u32
  sn_prefix :: nat

text \<open>\<open><<\<close> on \<open>u32\<close> in the release profile: the shift amount is taken modulo the width.\<close>

definition shl_u32 :: "u32 \<Rightarrow> nat \<Rightarrow> u32" where
  "shl_u32 x n = push_bit (n mod 32) x"

definition subnet_parse :: "string \<Rightarrow> (ipam_error, subnet) result" where
  "subnet_parse text =
     and_then (ok_or InvalidSubnet (split_once (CHR ''/'') text)) (\<lambda>(addr, prefix).
     and_then (ok_or InvalidSubnetAddress (parse_ipv4 addr)) (\<lambda>ip.
     and_then (ok_or InvalidSubnetPrefix (parse_u8 prefix)) (\<lambda>p.
       if 30 < p then Err NoHostAddresses
       else (let mask = (if p = 0 then 0 else shl_u32 (- 1) (32 - p)) in
             Ok \<lparr>network = ip AND mask, sn_prefix = p\<rparr>))))"

definition usable_range :: "subnet \<Rightarrow> u32 \<times> u32" where
  "usable_range s =
     (let hosts = (if sn_prefix s = 32 then 1 else shl_u32 1 (32 - sn_prefix s) - 1);
          broadcast = network s OR hosts
      in (network s + 1, broadcast - 1))"

definition contains :: "subnet \<Rightarrow> u32 \<Rightarrow> bool" where
  "contains s ip = (case usable_range s of (lo, hi) \<Rightarrow> lo \<le> ip \<and> ip \<le> hi)"

definition overlaps :: "subnet \<Rightarrow> subnet \<Rightarrow> bool" where
  "overlaps a b = (case (usable_range a, usable_range b) of
     ((a_lo, a_hi), (b_lo, b_hi)) \<Rightarrow> a_lo \<le> b_hi \<and> b_lo \<le> a_hi)"

definition cidr :: "subnet \<Rightarrow> string" where
  "cidr s = show_ipv4 (network s) @ ''/'' @ show_nat (sn_prefix s)"

definition default_gateway :: "subnet \<Rightarrow> u32" where
  "default_gateway s = fst (usable_range s)"

record v6_subnet =
  network6 :: u128
  prefix6 :: nat

definition v6_mask :: "nat \<Rightarrow> u128" where
  "v6_mask p = (if p = 0 then 0 else push_bit ((128 - p) mod 128) (- 1))"

definition v6_subnet_parse :: "string \<Rightarrow> (ipam_error, v6_subnet) result" where
  "v6_subnet_parse text =
     and_then (ok_or InvalidSubnet (split_once (CHR ''/'') text)) (\<lambda>(addr, prefix).
     and_then (ok_or InvalidSubnetAddress (parse_ipv6 addr)) (\<lambda>ip.
     if CHR ''.'' \<in> set addr then Err InvalidSubnetAddress else
     and_then (ok_or InvalidSubnetPrefix (parse_u8 prefix)) (\<lambda>p.
       if 126 < p then Err NoHostAddresses
       else Ok \<lparr>network6 = ip AND v6_mask p, prefix6 = p\<rparr>)))"

definition usable_range6 :: "v6_subnet \<Rightarrow> u128 \<times> u128" where
  "usable_range6 s =
     (let mask = v6_mask (prefix6 s); last = network6 s OR NOT mask
      in (network6 s + 1, last - 1))"

definition contains6 :: "v6_subnet \<Rightarrow> u128 \<Rightarrow> bool" where
  "contains6 s ip = (case usable_range6 s of (lo, hi) \<Rightarrow> lo \<le> ip \<and> ip \<le> hi)"

definition overlaps6 :: "v6_subnet \<Rightarrow> v6_subnet \<Rightarrow> bool" where
  "overlaps6 a b = (case (usable_range6 a, usable_range6 b) of
     ((a_lo, a_hi), (b_lo, b_hi)) \<Rightarrow> a_lo \<le> b_hi \<and> b_lo \<le> a_hi)"

definition default_gateway_v6 :: "v6_subnet \<Rightarrow> u128" where
  "default_gateway_v6 s = fst (usable_range6 s)"

section \<open>The lease table\<close>

record ipam_leases =
  allocated :: "(string, u32 list) assoc"
  allocated_v6 :: "(string, u128 list) assoc"

record ipam =
  state :: ipam_leases
  lease_file :: "ipam_leases option"

definition default_leases :: ipam_leases where
  "default_leases = \<lparr>allocated = [], allocated_v6 = []\<rparr>"

text \<open>\<open>Ipam::new\<close>: the table of the lease file, or an empty one when it cannot be read.\<close>

definition ipam_new :: "ipam_leases option \<Rightarrow> ipam" where
  "ipam_new file =
     \<lparr>state = (case file of None \<Rightarrow> default_leases | Some l \<Rightarrow> l), lease_file = file\<rparr>"

definition write_leases :: "bool \<Rightarrow> ipam \<Rightarrow> ipam" where
  "write_leases ok s = (if ok then s\<lparr>lease_file := Some (state s)\<rparr> else s)"

text \<open>\<open>HashMap::entry(..).or_default()\<close>: the bucket of a network, empty when absent.\<close>

definition bucket :: "(string, 'w list) assoc \<Rightarrow> string \<Rightarrow> 'w list" where
  "bucket m n = (case assoc_get m n of None \<Rightarrow> [] | Some ips \<Rightarrow> ips)"

definition set_bucket4 :: "string \<Rightarrow> u32 list \<Rightarrow> ipam \<Rightarrow> ipam" where
  "set_bucket4 n ips s = s\<lparr>state := (state s)\<lparr>allocated := assoc_put (allocated (state s)) n ips\<rparr>\<rparr>"

definition set_bucket6 :: "string \<Rightarrow> u128 list \<Rightarrow> ipam \<Rightarrow> ipam" where
  "set_bucket6 n ips s = s\<lparr>state := (state s)\<lparr>allocated_v6 := assoc_put (allocated_v6 (state s)) n ips\<rparr>\<rparr>"

text \<open>The scan of the host range: from \<open>c\<close> upwards, stopping after \<open>hi\<close>.\<close>

function scan_range :: "'a::len word \<Rightarrow> 'a word \<Rightarrow> ('a word \<Rightarrow> bool) \<Rightarrow> 'a word option" where
  "scan_range c hi free =
     (if free c then Some c else if c = hi then None else scan_range (c + 1) hi free)"
  by pat_completeness auto
termination
proof (relation "measure (\<lambda>(c, hi, free). unat (hi - c))")
  fix c hi :: "'a word" and free :: "'a word \<Rightarrow> bool"
  assume "c \<noteq> hi"
  then have "0 < unat (hi - c)" and "unat (hi - c - 1) = unat (hi - c) - 1"
    by (simp_all add: unat_gt_0 unat_minus_one)
  then show "((c + 1, hi, free), c, hi, free) \<in> measure (\<lambda>(c, hi, free). unat (hi - c))"
    by (simp add: diff_diff_eq)
qed simp

declare scan_range.simps [simp del]

text \<open>\<open>for c in lo..=hi\<close>: the inclusive range is empty when \<open>hi < lo\<close>.\<close>

definition find_in_range :: "'a::len word \<Rightarrow> 'a word \<Rightarrow> ('a word \<Rightarrow> bool) \<Rightarrow> 'a word option" where
  "find_in_range lo hi free = (if hi < lo then None else scan_range lo hi free)"

definition allocate ::
  "bool \<Rightarrow> string \<Rightarrow> string \<Rightarrow> string \<Rightarrow> ipam \<Rightarrow> (ipam_error, u32) result \<times> ipam" where
  "allocate ok network_id subnet gateway s =
     (case subnet_parse subnet of Inl e \<Rightarrow> (Err e, s) | Inr sub \<Rightarrow>
      (case parse_ipv4 gateway of None \<Rightarrow> (Err InvalidGateway, s) | Some gw \<Rightarrow>
       if \<not> contains sub gw then (Err GatewayOutsideSubnet, s)
       else (let used = bucket (allocated (state s)) network_id in
         (case usable_range sub of (lo, hi) \<Rightarrow>
           (case find_in_range lo hi (\<lambda>c. c \<noteq> gw \<and> c \<notin> set used) of
              Some c \<Rightarrow> (Ok c, write_leases ok (set_bucket4 network_id (c # used) s))
            | None \<Rightarrow> (Err Exhausted, set_bucket4 network_id used s))))))"

definition reserve ::
  "bool \<Rightarrow> string \<Rightarrow> string \<Rightarrow> string \<Rightarrow> string \<Rightarrow> ipam \<Rightarrow> (ipam_error, u32) result \<times> ipam" where
  "reserve ok network_id subnet gateway ip s =
     (case subnet_parse subnet of Inl e \<Rightarrow> (Err e, s) | Inr sub \<Rightarrow>
      (case parse_ipv4 gateway of None \<Rightarrow> (Err InvalidGateway, s) | Some gw \<Rightarrow>
       (case parse_ipv4 ip of None \<Rightarrow> (Err InvalidIp, s) | Some want \<Rightarrow>
        if \<not> contains sub want then (Err OutsideSubnet, s)
        else if want = gw then (Err IsGateway, s)
        else (let used = bucket (allocated (state s)) network_id in
          if want \<in> set used then (Err AlreadyAllocated, set_bucket4 network_id used s)
          else (Ok want, write_leases ok (set_bucket4 network_id (want # used) s))))))"

definition allocate_v6 ::
  "bool \<Rightarrow> string \<Rightarrow> string \<Rightarrow> string \<Rightarrow> ipam \<Rightarrow> (ipam_error, u128) result \<times> ipam" where
  "allocate_v6 ok network_id subnet gateway s =
     (case v6_subnet_parse subnet of Inl e \<Rightarrow> (Err e, s) | Inr sub \<Rightarrow>
      (case parse_ipv6 gateway of None \<Rightarrow> (Err InvalidGateway, s) | Some gw \<Rightarrow>
       if \<not> contains6 sub gw then (Err GatewayOutsideSubnet, s)
       else (let used = bucket (allocated_v6 (state s)) network_id in
         (case usable_range6 sub of (lo, hi) \<Rightarrow>
           (case scan_range lo hi (\<lambda>c. c \<noteq> gw \<and> c \<notin> set used) of
              Some c \<Rightarrow> (Ok c, write_leases ok (set_bucket6 network_id (c # used) s))
            | None \<Rightarrow> (Err Exhausted, set_bucket6 network_id used s))))))"

definition reserve_v6 ::
  "bool \<Rightarrow> string \<Rightarrow> string \<Rightarrow> string \<Rightarrow> string \<Rightarrow> ipam \<Rightarrow> (ipam_error, u128) result \<times> ipam" where
  "reserve_v6 ok network_id subnet gateway ip s =
     (case v6_subnet_parse subnet of Inl e \<Rightarrow> (Err e, s) | Inr sub \<Rightarrow>
      (case parse_ipv6 gateway of None \<Rightarrow> (Err InvalidGateway, s) | Some gw \<Rightarrow>
       (case parse_ipv6 ip of None \<Rightarrow> (Err InvalidIp, s) | Some want \<Rightarrow>
        if \<not> contains6 sub want then (Err OutsideSubnet, s)
        else if want = gw then (Err IsGateway, s)
        else (let used = bucket (allocated_v6 (state s)) network_id in
          if want \<in> set used then (Err AlreadyAllocated, set_bucket6 network_id used s)
          else (Ok want, write_leases ok (set_bucket6 network_id (want # used) s))))))"

definition reset_bucket :: "bool \<Rightarrow> string \<Rightarrow> ipam \<Rightarrow> ipam" where
  "reset_bucket ok network_id s =
     (let drop4 = has_key (allocated (state s)) network_id;
          drop6 = has_key (allocated_v6 (state s)) network_id;
          s' = s\<lparr>state := \<lparr>allocated = assoc_del (allocated (state s)) network_id,
                 allocated_v6 = assoc_del (allocated_v6 (state s)) network_id\<rparr>\<rparr>
      in if drop4 \<or> drop6 then write_leases ok s' else s')"

definition release :: "bool \<Rightarrow> string \<Rightarrow> string \<Rightarrow> ipam \<Rightarrow> ipam" where
  "release ok network_id ip s =
     (case parse_ipv4 ip of None \<Rightarrow> s | Some v \<Rightarrow>
      (case assoc_get (allocated (state s)) network_id of None \<Rightarrow> s | Some used \<Rightarrow>
       if v \<in> set used then write_leases ok (set_bucket4 network_id (filter (\<lambda>x. x \<noteq> v) used) s)
       else s))"

definition release_v6 :: "bool \<Rightarrow> string \<Rightarrow> string \<Rightarrow> ipam \<Rightarrow> ipam" where
  "release_v6 ok network_id ip s =
     (case parse_ipv6 ip of None \<Rightarrow> s | Some v \<Rightarrow>
      (case assoc_get (allocated_v6 (state s)) network_id of None \<Rightarrow> s | Some used \<Rightarrow>
       if v \<in> set used then write_leases ok (set_bucket6 network_id (filter (\<lambda>x. x \<noteq> v) used) s)
       else s))"

text \<open>\<open>retain\<close> over the buckets: dropped buckets, released addresses, what is kept.\<close>

fun retain_live ::
  "string set \<Rightarrow> (string \<times> 'w) set \<Rightarrow> (string, 'w list) assoc
     \<Rightarrow> (nat \<times> nat) \<times> (string, 'w list) assoc" where
  "retain_live known live [] = ((0, 0), [])"
| "retain_live known live ((n, ips) # m) =
     (case retain_live known live m of ((dropped, released), m') \<Rightarrow>
        if n \<notin> known then ((dropped + 1, released + length ips), m')
        else (let kept = filter (\<lambda>ip. (n, ip) \<in> live) ips in
              ((dropped, released + (length ips - length kept)), (n, kept) # m')))"

definition sweep_orphans ::
  "bool \<Rightarrow> string set \<Rightarrow> (string \<times> u32) set \<Rightarrow> ipam \<Rightarrow> (nat \<times> nat) \<times> ipam" where
  "sweep_orphans ok known live s =
     (case retain_live known live (allocated (state s)) of ((dropped, released), m) \<Rightarrow>
        let s' = s\<lparr>state := (state s)\<lparr>allocated := m\<rparr>\<rparr> in
        ((dropped, released), if 0 < dropped \<or> 0 < released then write_leases ok s' else s'))"

definition sweep_orphans_v6 ::
  "bool \<Rightarrow> string set \<Rightarrow> (string \<times> u128) set \<Rightarrow> ipam \<Rightarrow> (nat \<times> nat) \<times> ipam" where
  "sweep_orphans_v6 ok known live s =
     (case retain_live known live (allocated_v6 (state s)) of ((dropped, released), m) \<Rightarrow>
        let s' = s\<lparr>state := (state s)\<lparr>allocated_v6 := m\<rparr>\<rparr> in
        ((dropped, released), if 0 < dropped \<or> 0 < released then write_leases ok s' else s'))"



section \<open>The scan finds the lowest free address\<close>

lemma unat_succ: "(c :: 'a::len word) < hi \<Longrightarrow> unat (c + 1) = unat c + 1"
  by (metis (no_types, lifting) add.commute add_0 inc_i inc_le
      unat_plus_simple unsigned_0 unsigned_1 word_gt_0)

lemma word_succ_order:
  assumes "(c :: 'a::len word) < hi"
  shows "c < c + 1" "c + 1 \<le> hi" "c + 1 \<le> x \<longleftrightarrow> c < x"
  using assms unat_succ [OF assms] by (auto simp: word_less_nat_alt word_le_nat_alt)

text \<open>Below \<open>hi\<close> the range splits into its first address and the rest.\<close>

lemma range_step:
  assumes "(c :: 'a::len word) < hi"
  shows "{c..hi} = insert c {c + 1..hi}"
  using assms by (auto simp: word_succ_order [OF assms])

lemma scan_range_None: "c \<le> hi \<Longrightarrow> scan_range c hi free = None \<longleftrightarrow> (\<forall>x \<in> {c..hi}. \<not> free x)"
proof (induction c hi free rule: scan_range.induct)
  case (1 c hi free)
  show ?case
  proof (cases "free c \<or> c = hi")
    case True
    with "1.prems" show ?thesis by (subst scan_range.simps) auto
  next
    case False
    with "1.prems" have lt: "c < hi" by (simp add: order.strict_iff_order)
    with False 1 have "scan_range (c + 1) hi free = None \<longleftrightarrow> (\<forall>x \<in> {c + 1..hi}. \<not> free x)"
      by (simp add: word_succ_order [OF lt])
    with False show ?thesis
      by (subst scan_range.simps) (simp add: range_step [OF lt])
  qed
qed

lemma scan_range_Some:
  "c \<le> hi \<Longrightarrow> scan_range c hi free = Some d \<Longrightarrow>
     c \<le> d \<and> d \<le> hi \<and> free d \<and> (\<forall>x. c \<le> x \<and> x < d \<longrightarrow> \<not> free x)"
proof (induction c hi free rule: scan_range.induct)
  case (1 c hi free)
  show ?case
  proof (cases "free c \<or> c = hi")
    case True
    with "1.prems" show ?thesis
      by (subst (asm) scan_range.simps) (auto split: if_splits)
  next
    case False
    with "1.prems" have lt: "c < hi" by (simp add: order.strict_iff_order)
    from False "1.prems" have rec: "scan_range (c + 1) hi free = Some d"
      by (subst (asm) scan_range.simps) simp
    with False lt 1 have "c + 1 \<le> d \<and> d \<le> hi \<and> free d \<and> (\<forall>x. c + 1 \<le> x \<and> x < d \<longrightarrow> \<not> free x)"
      by (simp add: word_succ_order [OF lt])
    with False show ?thesis
      by (simp only: word_succ_order(3) [OF lt]) (metis order.order_iff_strict)
  qed
qed

lemma find_in_range_None: "find_in_range lo hi free = None \<longleftrightarrow> (\<forall>x \<in> {lo..hi}. \<not> free x)"
  by (auto simp: find_in_range_def scan_range_None not_less)

lemma find_in_range_Some:
  "find_in_range lo hi free = Some d \<Longrightarrow>
     lo \<le> d \<and> d \<le> hi \<and> free d \<and> (\<forall>x. lo \<le> x \<and> x < d \<longrightarrow> \<not> free x)"
  by (auto simp: find_in_range_def not_less split: if_splits dest: scan_range_Some)

section \<open>The usable range of a parsed subnet\<close>

text \<open>A subnet as \<open>Subnet::parse\<close> returns it: at most 30 prefix bits, no host bit set.\<close>

definition subnet_wf :: "subnet \<Rightarrow> bool" where
  "subnet_wf s = (sn_prefix s \<le> 30 \<and> 2 ^ (32 - sn_prefix s) dvd unat (network s))"

lemma subnet_network:
  assumes "p \<le> 30"
  shows "unat (ip AND (if p = 0 then 0 else shl_u32 (- 1) (32 - p)))
           = unat ip div 2 ^ (32 - p) * 2 ^ (32 - p)"
proof (cases "p = 0")
  case True
  have "unat ip < 2 ^ 32"
    using unsigned_less [of ip] by simp
  with True show ?thesis by simp
next
  case False
  with assms show ?thesis
    by (simp add: shl_u32_def unat_and_not_mask)
qed

lemma subnet_parse_Ok:
  "subnet_parse t = Ok s \<longleftrightarrow>
     (\<exists>addr pfx ip p. split_once (CHR ''/'') t = Some (addr, pfx) \<and> parse_ipv4 addr = Some ip
        \<and> parse_u8 pfx = Some p \<and> p \<le> 30
        \<and> s = \<lparr>network = ip AND (if p = 0 then 0 else shl_u32 (- 1) (32 - p)), sn_prefix = p\<rparr>)"
  by (auto simp: subnet_parse_def and_then_Ok Let_def not_less split: if_split_asm)

lemma subnet_parse_wf: "subnet_parse t = Ok s \<Longrightarrow> subnet_wf s"
  unfolding subnet_parse_Ok subnet_wf_def using subnet_network by fastforce

text \<open>The arithmetic of \<open>usable_range\<close>: with at least one prefix bit nothing wraps.\<close>

lemma usable_range_eq:
  assumes "subnet_wf s" "1 \<le> sn_prefix s"
  shows "usable_range s = (network s + 1, network s + mask (32 - sn_prefix s) - 1)"
  using assms
  by (simp add: usable_range_def subnet_wf_def shl_u32_def push_bit_eq_mult or_mask_eq_add
      Let_def flip: mask_eq_exp_minus_1)

lemma subnet_block:
  assumes "subnet_wf s"
  shows "32 - sn_prefix s \<le> LENGTH(32)" "2 \<le> 32 - sn_prefix s"
    "2 ^ (32 - sn_prefix s) dvd unat (network s)"
  using assms by (auto simp: subnet_wf_def)

lemma usable_range_unat:
  assumes "subnet_wf s" "1 \<le> sn_prefix s"
  shows "unat (fst (usable_range s)) = unat (network s) + 1"
    and "unat (snd (usable_range s)) = unat (network s) + 2 ^ (32 - sn_prefix s) - 2"
  using block_hosts [OF subnet_block [OF assms(1)]] by (simp_all add: usable_range_eq [OF assms])

lemma contains_iff:
  assumes "subnet_wf s" "1 \<le> sn_prefix s"
  shows "contains s ip \<longleftrightarrow> unat (network s) < unat ip
           \<and> unat ip < unat (network s) + 2 ^ (32 - sn_prefix s) - 1"
  using in_block_hosts [OF subnet_block [OF assms(1)]]
  by (simp add: contains_def usable_range_eq [OF assms])

text \<open>The range is never empty, also for the zero prefix, whose shift is masked.\<close>

lemma usable_range_zero:
  assumes "subnet_wf s" "sn_prefix s = 0"
  shows "usable_range s = (1, - 1)"
proof -
  have "unat (network s) < 2 ^ 32"
    using unsigned_less [of "network s"] by simp
  with assms have "unat (network s) = 0"
    by (auto simp: subnet_wf_def dvd_imp_le)
  with assms(2) show ?thesis
    by (simp add: usable_range_def shl_u32_def unat_eq_zero)
qed

lemma usable_range_le:
  assumes "subnet_wf s"
  shows "fst (usable_range s) \<le> snd (usable_range s)"
proof (cases "sn_prefix s = 0")
  case True
  then show ?thesis by (simp add: usable_range_zero [OF assms])
next
  case False
  have "(4 :: nat) \<le> 2 ^ (32 - sn_prefix s)"
    using power_increasing [OF subnet_block(2) [OF assms], of "2 :: nat"] by simp
  with False show ?thesis
    using usable_range_unat [OF assms] by (simp add: word_le_nat_alt)
qed

section \<open>IPv6 subnets\<close>

definition v6_subnet_wf :: "v6_subnet \<Rightarrow> bool" where
  "v6_subnet_wf s = (prefix6 s \<le> 126 \<and> 2 ^ (128 - prefix6 s) dvd unat (network6 s))"

lemma v6_mask_eq: "p \<le> 126 \<Longrightarrow> v6_mask p = NOT (mask (128 - p))"
  by (auto simp: v6_mask_def mask_eq_exp_minus_1)

lemma v6_subnet_parse_wf: "v6_subnet_parse t = Ok s \<Longrightarrow> v6_subnet_wf s"
  by (auto simp: v6_subnet_parse_def and_then_Ok v6_subnet_wf_def v6_mask_eq unat_and_not_mask
      split: if_split_asm)

lemma v6_block:
  assumes "v6_subnet_wf s"
  shows "128 - prefix6 s \<le> LENGTH(128)" "2 \<le> 128 - prefix6 s"
    "2 ^ (128 - prefix6 s) dvd unat (network6 s)"
  using assms by (auto simp: v6_subnet_wf_def)

lemma usable_range6_eq:
  assumes "v6_subnet_wf s"
  shows "usable_range6 s = (network6 s + 1, network6 s + mask (128 - prefix6 s) - 1)"
  using assms
  by (simp add: usable_range6_def v6_subnet_wf_def v6_mask_eq or_mask_eq_add Let_def)

lemma contains6_iff:
  assumes "v6_subnet_wf s"
  shows "contains6 s ip \<longleftrightarrow> unat (network6 s) < unat ip
           \<and> unat ip < unat (network6 s) + 2 ^ (128 - prefix6 s) - 1"
  using in_block_hosts [OF v6_block [OF assms]]
  by (simp add: contains6_def usable_range6_eq [OF assms])

lemma usable_range6_le:
  assumes "v6_subnet_wf s"
  shows "fst (usable_range6 s) \<le> snd (usable_range6 s)"
proof -
  have "(4 :: nat) \<le> 2 ^ (128 - prefix6 s)"
    using power_increasing [OF v6_block(2) [OF assms], of "2 :: nat"] by simp
  then show ?thesis
    using block_hosts [OF v6_block [OF assms]]
    by (simp add: word_le_nat_alt usable_range6_eq [OF assms])
qed


section \<open>The contract of an address pool\<close>

text \<open>What the network manager relies on: \<open>used s n\<close> are the leased addresses of network \<open>n\<close>,
  \<open>hosts sub gw\<close> the addresses that may be leased for these parameters, \<open>valid\<close> the parameters
  that are accepted.\<close>

locale address_pool =
  fixes used :: "'s \<Rightarrow> string \<Rightarrow> 'w set"
    and hosts :: "string \<Rightarrow> string \<Rightarrow> 'w set"
    and valid :: "string \<Rightarrow> string \<Rightarrow> bool"
    and literal :: "string \<Rightarrow> 'w option"
    and alloc :: "string \<Rightarrow> string \<Rightarrow> string \<Rightarrow> 's \<Rightarrow> (ipam_error, 'w) result \<times> 's"
    and rel :: "string \<Rightarrow> string \<Rightarrow> 's \<Rightarrow> 's"
  assumes alloc_Ok: "alloc n sub gw s = (Ok a, s') \<Longrightarrow>
      a \<in> hosts sub gw \<and> a \<notin> used s n \<and> used s' n = insert a (used s n)"
    and alloc_frame: "m \<noteq> n \<Longrightarrow> used (snd (alloc n sub gw s)) m = used s m"
    and alloc_Err: "alloc n sub gw s = (Err e, s') \<Longrightarrow> used s' n = used s n"
    and alloc_total: "valid sub gw \<Longrightarrow> \<not> hosts sub gw \<subseteq> used s n \<Longrightarrow> is_ok (fst (alloc n sub gw s))"
    and rel_used: "used (rel n lit s) m =
      (case literal lit of Some a \<Rightarrow> if m = n then used s n - {a} else used s m | None \<Rightarrow> used s m)"

text \<open>Up to \<open>k\<close> allocations in a row, stopping at the first failure.\<close>

fun alloc_many ::
  "('s \<Rightarrow> (ipam_error, 'w) result \<times> 's) \<Rightarrow> nat \<Rightarrow> 's \<Rightarrow> 'w list \<times> 's" where
  "alloc_many f 0 s = ([], s)"
| "alloc_many f (Suc k) s =
     (case f s of
        (Inl e, s') \<Rightarrow> ([], s')
      | (Inr a, s') \<Rightarrow> (case alloc_many f k s' of (as, s'') \<Rightarrow> (a # as, s'')))"

context address_pool
begin

lemma alloc_many_fresh:
  assumes "alloc_many (alloc n sub gw) k s = (as, s')"
  shows "distinct as \<and> set as \<subseteq> hosts sub gw \<and> set as \<inter> used s n = {}
    \<and> used s' n = used s n \<union> set as \<and> (\<forall>m. m \<noteq> n \<longrightarrow> used s' m = used s m)"
  using assms
proof (induction k arbitrary: s as s')
  case 0
  then show ?case by simp
next
  case (Suc k)
  obtain r s1 where r: "alloc n sub gw s = (r, s1)"
    by (cases "alloc n sub gw s")
  have frame: "\<forall>m. m \<noteq> n \<longrightarrow> used s1 m = used s m"
    using alloc_frame [of _ n sub gw s] by (simp add: r)
  show ?case
  proof (cases r)
    case (Inl e)
    with Suc.prems r frame alloc_Err [of n sub gw s e s1] show ?thesis by auto
  next
    case (Inr a)
    obtain bs s2 where bs: "alloc_many (alloc n sub gw) k s1 = (bs, s2)"
      by (cases "alloc_many (alloc n sub gw) k s1")
    have "as = a # bs" "s' = s2"
      using Suc.prems r Inr bs by auto
    with Suc.IH [OF bs] frame alloc_Ok [of n sub gw s a s1] r Inr show ?thesis
      by auto
  qed
qed

lemma alloc_many_length:
  assumes "finite (hosts sub gw)" "valid sub gw" "k \<le> card (hosts sub gw - used s n)"
  shows "length (fst (alloc_many (alloc n sub gw) k s)) = k"
  using assms(3)
proof (induction k arbitrary: s)
  case 0
  then show ?case by simp
next
  case (Suc k)
  have "\<not> hosts sub gw \<subseteq> used s n"
    using Suc.prems by (metis Diff_eq_empty_iff card.empty not_less_eq_eq zero_le)
  then obtain a s1 where r: "alloc n sub gw s = (Ok a, s1)"
    using alloc_total [OF assms(2), of s n] by (cases "alloc n sub gw s") (auto simp: is_ok_iff)
  have "hosts sub gw - used s1 n = (hosts sub gw - used s n) - {a}"
    using alloc_Ok [OF r] by auto
  moreover have "a \<in> hosts sub gw - used s n"
    using alloc_Ok [OF r] by auto
  ultimately have "k \<le> card (hosts sub gw - used s1 n)"
    using Suc.prems assms(1) by simp
  then show ?case
    using Suc.IH [of s1] by (auto simp: r split: prod.splits)
qed

lemma release_restores:
  assumes "alloc n sub gw s = (Ok a, s')" "literal lit = Some a"
  shows "used (rel n lit s') m = used s m"
  using alloc_Ok [OF assms(1)] alloc_frame [of m n sub gw s] assms by (auto simp: rel_used)

end

section \<open>Both families satisfy the contract\<close>

definition used4 :: "ipam \<Rightarrow> string \<Rightarrow> u32 set" where
  "used4 s n = set (bucket (allocated (state s)) n)"

definition used6 :: "ipam \<Rightarrow> string \<Rightarrow> u128 set" where
  "used6 s n = set (bucket (allocated_v6 (state s)) n)"

definition hosts4 :: "string \<Rightarrow> string \<Rightarrow> u32 set" where
  "hosts4 sub gw = (case (subnet_parse sub, parse_ipv4 gw) of
     (Inr s, Some g) \<Rightarrow> {ip. contains s ip} - {g} | _ \<Rightarrow> {})"

definition hosts6 :: "string \<Rightarrow> string \<Rightarrow> u128 set" where
  "hosts6 sub gw = (case (v6_subnet_parse sub, parse_ipv6 gw) of
     (Inr s, Some g) \<Rightarrow> {ip. contains6 s ip} - {g} | _ \<Rightarrow> {})"

definition valid4 :: "string \<Rightarrow> string \<Rightarrow> bool" where
  "valid4 sub gw = (case (subnet_parse sub, parse_ipv4 gw) of
     (Inr s, Some g) \<Rightarrow> contains s g | _ \<Rightarrow> False)"

definition valid6 :: "string \<Rightarrow> string \<Rightarrow> bool" where
  "valid6 sub gw = (case (v6_subnet_parse sub, parse_ipv6 gw) of
     (Inr s, Some g) \<Rightarrow> contains6 s g | _ \<Rightarrow> False)"

lemma bucket_put [simp]: "bucket (assoc_put m n ips) k = (if k = n then ips else bucket m k)"
  by (simp add: bucket_def)

lemma state_write [simp]: "state (write_leases ok s) = state s"
  by (simp add: write_leases_def)

lemma used_set_bucket [simp]:
  "used4 (set_bucket4 n ips s) m = (if m = n then set ips else used4 s m)"
  "used6 (set_bucket6 n ips6 s) m = (if m = n then set ips6 else used6 s m)"
  "used4 (set_bucket6 n ips6 s) m = used4 s m"
  "used6 (set_bucket4 n ips s) m = used6 s m"
  "used4 (write_leases ok s) m = used4 s m"
  "used6 (write_leases ok s) m = used6 s m"
  by (simp_all add: used4_def used6_def set_bucket4_def set_bucket6_def)

lemma set_bucket4_id: "set (bucket (allocated (state s)) n) = used4 s n"
  and set_bucket6_id: "set (bucket (allocated_v6 (state s)) n) = used6 s n"
  by (simp_all add: used4_def used6_def)

lemmas alloc_unfold =
  allocate_def allocate_v6_def hosts4_def hosts6_def valid4_def valid6_def
  contains_def contains6_def Let_def set_bucket4_id set_bucket6_id

interpretation v4: address_pool used4 hosts4 valid4 parse_ipv4 "allocate ok" "release ok" for ok
proof
  fix n sub gw s a s'
  assume "allocate ok n sub gw s = (Ok a, s')"
  then show "a \<in> hosts4 sub gw \<and> a \<notin> used4 s n \<and> used4 s' n = insert a (used4 s n)"
    by (auto simp: alloc_unfold split: sum.splits option.splits if_splits prod.splits
        dest!: find_in_range_Some)
next
  fix m n :: string and sub gw s
  assume "m \<noteq> n"
  then show "used4 (snd (allocate ok n sub gw s)) m = used4 s m"
    by (auto simp: alloc_unfold split: sum.splits option.splits prod.splits)
next
  fix n sub gw s e s'
  assume "allocate ok n sub gw s = (Err e, s')"
  then show "used4 s' n = used4 s n"
    by (auto simp: alloc_unfold split: sum.splits option.splits if_splits prod.splits)
next
  fix sub gw s n
  assume "valid4 sub gw" "\<not> hosts4 sub gw \<subseteq> used4 s n"
  then show "is_ok (fst (allocate ok n sub gw s))"
    by (auto simp: alloc_unfold find_in_range_None
        split: sum.splits option.splits if_splits prod.splits)
next
  fix n lit s m
  show "used4 (release ok n lit s) m =
     (case parse_ipv4 lit of Some a \<Rightarrow> if m = n then used4 s n - {a} else used4 s m | None \<Rightarrow> used4 s m)"
    by (auto simp: release_def used4_def bucket_def set_bucket4_def split: option.splits)
qed

interpretation v6: address_pool used6 hosts6 valid6 parse_ipv6 "allocate_v6 ok" "release_v6 ok" for ok
proof
  fix n sub gw s a s'
  assume "allocate_v6 ok n sub gw s = (Ok a, s')"
  then show "a \<in> hosts6 sub gw \<and> a \<notin> used6 s n \<and> used6 s' n = insert a (used6 s n)"
    by (auto simp: alloc_unfold split: sum.splits option.splits if_splits prod.splits
        dest!: scan_range_Some [rotated])
next
  fix m n :: string and sub gw s
  assume "m \<noteq> n"
  then show "used6 (snd (allocate_v6 ok n sub gw s)) m = used6 s m"
    by (auto simp: alloc_unfold split: sum.splits option.splits prod.splits)
next
  fix n sub gw s e s'
  assume "allocate_v6 ok n sub gw s = (Err e, s')"
  then show "used6 s' n = used6 s n"
    by (auto simp: alloc_unfold split: sum.splits option.splits if_splits prod.splits)
next
  fix sub gw s n
  assume "valid6 sub gw" "\<not> hosts6 sub gw \<subseteq> used6 s n"
  then show "is_ok (fst (allocate_v6 ok n sub gw s))"
    by (auto simp: alloc_unfold scan_range_None
        split: sum.splits option.splits if_splits prod.splits) (metis atLeastAtMost_iff)
next
  fix n lit s m
  show "used6 (release_v6 ok n lit s) m =
     (case parse_ipv6 lit of Some a \<Rightarrow> if m = n then used6 s n - {a} else used6 s m | None \<Rightarrow> used6 s m)"
    by (auto simp: release_v6_def used6_def bucket_def set_bucket6_def split: option.splits)
qed


section \<open>Properties of subnets\<close>

text \<open>a subnet that \<open>Subnet::parse\<close> accepts with at least one prefix bit contains
  exactly the addresses that share its prefix bits, except the network address and the
  broadcast address: no arithmetic of \<open>usable_range\<close> wraps around.\<close>

theorem contains_same_prefix:
  assumes "subnet_parse t = Ok s" "1 \<le> sn_prefix s"
  shows "contains s ip \<longleftrightarrow>
     unat ip div 2 ^ (32 - sn_prefix s) = unat (network s) div 2 ^ (32 - sn_prefix s)
     \<and> unat ip mod 2 ^ (32 - sn_prefix s) \<notin> {0, 2 ^ (32 - sn_prefix s) - 1}"
proof -
  let ?B = "2 ^ (32 - sn_prefix s) :: nat"
  have wf: "subnet_wf s"
    using assms(1) by (rule subnet_parse_wf)
  obtain q where q: "unat (network s) = ?B * q"
    using subnet_block(3) [OF wf] by auto
  have b: "4 \<le> ?B"
    using power_increasing [OF subnet_block(2) [OF wf], of "2 :: nat"] by simp
  define d m where "d = unat ip div ?B" and "m = unat ip mod ?B"
  have dm: "unat ip = ?B * d + m" "m < ?B"
    unfolding d_def m_def using b by simp_all
  have "?B * q < ?B * d + m \<and> ?B * d + m < ?B * q + ?B - 1 \<longleftrightarrow> d = q \<and> m \<notin> {0, ?B - 1}"
  proof (cases d q rule: linorder_cases)
    case less
    then have "?B * (d + 1) \<le> ?B * q" by (intro mult_left_mono) auto
    with less dm(2) show ?thesis by (auto simp: algebra_simps)
  next
    case equal
    with dm(2) b show ?thesis by auto
  next
    case greater
    then have "?B * (q + 1) \<le> ?B * d" by (intro mult_left_mono) auto
    with greater b show ?thesis by (auto simp: algebra_simps)
  qed
  then show ?thesis
    unfolding contains_iff [OF wf assms(2)] q using b dm(2)
    by (simp add: dm(1) d_def [symmetric] m_def [symmetric])
qed

theorem contains_same_prefix_witness:
  "contains \<lparr>network = 167838208, sn_prefix = 24\<rparr> 167838307"
proof -
  have "subnet_parse ''10.1.2.99/24'' = Ok \<lparr>network = 167838208, sn_prefix = 24\<rparr>"
    by code_simp
  from contains_same_prefix [OF this, of 167838307] show ?thesis by simp
qed

text \<open>Two parsed subnets with at least one prefix bit overlap, in the sense of the
  check made when a network is created, exactly when some address is usable in both.\<close>

theorem overlaps_iff_common_host:
  assumes "subnet_parse t = Ok a" "1 \<le> sn_prefix a" "subnet_parse u = Ok b" "1 \<le> sn_prefix b"
  shows "overlaps a b \<longleftrightarrow> (\<exists>ip. contains a ip \<and> contains b ip)"
proof -
  have le: "fst (usable_range a) \<le> snd (usable_range a)" "fst (usable_range b) \<le> snd (usable_range b)"
    using assms by (auto intro: usable_range_le subnet_parse_wf)
  show ?thesis
  proof
    assume "overlaps a b"
    with le have "contains a (max (fst (usable_range a)) (fst (usable_range b)))
        \<and> contains b (max (fst (usable_range a)) (fst (usable_range b)))"
      by (auto simp: overlaps_def contains_def split: prod.splits)
    then show "\<exists>ip. contains a ip \<and> contains b ip" by blast
  next
    assume "\<exists>ip. contains a ip \<and> contains b ip"
    then show "overlaps a b"
      by (auto simp: overlaps_def contains_def split: prod.splits)
  qed
qed

theorem overlaps_iff_common_host_witness:
  "\<exists>ip. contains \<lparr>network = 2886860800, sn_prefix = 16\<rparr> ip
      \<and> contains \<lparr>network = 2886862080, sn_prefix = 24\<rparr> ip"
proof -
  have a: "subnet_parse ''172.18.0.0/16'' = Ok \<lparr>network = 2886860800, sn_prefix = 16\<rparr>"
    by code_simp
  have b: "subnet_parse ''172.18.5.0/24'' = Ok \<lparr>network = 2886862080, sn_prefix = 24\<rparr>"
    by code_simp
  show ?thesis
    using overlaps_iff_common_host [OF a _ b]
    by (simp add: overlaps_def usable_range_def shl_u32_def)
qed

text \<open>Printing a parsed subnet with \<open>Subnet::cidr\<close> and parsing the text again gives
  the same subnet, also when the original text had host bits set.\<close>

theorem parse_cidr_roundtrip:
  assumes "subnet_parse t = Ok s"
  shows "subnet_parse (cidr s) = Ok s"
proof -
  have wf: "subnet_wf s"
    using assms by (rule subnet_parse_wf)
  let ?m = "if sn_prefix s = 0 then 0 else shl_u32 (- 1) (32 - sn_prefix s) :: u32"
  have "unat (network s AND ?m) = unat (network s)"
    using wf by (subst subnet_network) (auto simp: subnet_wf_def)
  then have "network s AND ?m = network s"
    by (simp only: word_unat_eq_iff)
  moreover have "split_once (CHR ''/'') (cidr s) = Some (show_ipv4 (network s), show_nat (sn_prefix s))"
    by (simp add: split_once_Some cidr_def)
  ultimately show ?thesis
    unfolding subnet_parse_Ok using wf by (auto simp: subnet_wf_def)
qed

theorem parse_cidr_roundtrip_witness:
  "subnet_parse (cidr \<lparr>network = 167838208, sn_prefix = 24\<rparr>) = Ok \<lparr>network = 167838208, sn_prefix = 24\<rparr>"
proof -
  have "subnet_parse ''10.1.2.99/24'' = Ok \<lparr>network = 167838208, sn_prefix = 24\<rparr>"
    by code_simp
  then show ?thesis by (rule parse_cidr_roundtrip)
qed

text \<open>\<open>Subnet::parse\<close> accepts the prefix length 0, and for that subnet the masked
  shift of the release profile makes \<open>usable_range\<close> end at the broadcast address
  255.255.255.255, which is then handed out as a usable host.\<close>

theorem zero_prefix_range:
  "subnet_parse ''0.0.0.0/0'' = Ok \<lparr>network = 0, sn_prefix = 0\<rparr>
   \<and> usable_range \<lparr>network = 0, sn_prefix = 0\<rparr> = (1, 4294967295)
   \<and> contains \<lparr>network = 0, sn_prefix = 0\<rparr> 4294967295"
proof (intro conjI)
  show "subnet_parse ''0.0.0.0/0'' = Ok \<lparr>network = 0, sn_prefix = 0\<rparr>" by code_simp
  show r: "usable_range \<lparr>network = 0, sn_prefix = 0\<rparr> = (1, 4294967295)"
    by (simp add: usable_range_def shl_u32_def)
  show "contains \<lparr>network = 0, sn_prefix = 0\<rparr> 4294967295"
    by (simp add: contains_def r)
qed


section \<open>Properties of the lease table\<close>

text \<open>Claim C24: A successful \<open>allocate\<close> returns the lowest usable address of the subnet that is
  neither the gateway nor leased, records exactly this address for the network, and leaves the
  leases of every other network alone.\<close>

theorem allocate_lowest_free:
  assumes "allocate ok n sub gw s = (Ok a, s')"
  shows "a \<in> hosts4 sub gw - used4 s n \<and> (\<forall>b \<in> hosts4 sub gw - used4 s n. a \<le> b)
     \<and> used4 s' n = insert a (used4 s n) \<and> (\<forall>m. m \<noteq> n \<longrightarrow> used4 s' m = used4 s m)
     \<and> used6 s' = used6 s"
proof -
  have "\<forall>b \<in> hosts4 sub gw - used4 s n. a \<le> b"
    using assms
    by (auto simp: alloc_unfold not_less [symmetric]
        split: sum.splits option.splits if_splits prod.splits dest!: find_in_range_Some)
  moreover have "used6 s' = used6 s"
    using assms
    by (auto simp: alloc_unfold fun_eq_iff split: sum.splits option.splits if_splits prod.splits)
  moreover have "\<forall>m. m \<noteq> n \<longrightarrow> used4 s' m = used4 s m"
    using v4.alloc_frame [of _ n ok sub gw s] by (simp add: assms)
  ultimately show ?thesis
    using v4.alloc_Ok [OF assms] by auto
qed

theorem allocate_lowest_free_witness:
  "3232237826 \<in> hosts4 ''192.168.9.0/30'' ''192.168.9.1'' - used4 (ipam_new None) ''n''"
proof -
  have "fst (allocate True ''n'' ''192.168.9.0/30'' ''192.168.9.1'' (ipam_new None)) = Ok 3232237826"
    by code_simp
  then obtain s' where
    "allocate True ''n'' ''192.168.9.0/30'' ''192.168.9.1'' (ipam_new None) = (Ok 3232237826, s')"
    by (metis prod.collapse)
  then show ?thesis
    using allocate_lowest_free by blast
qed

text \<open>With a subnet and a gateway that the checks accept, \<open>allocate\<close> fails only when
  every usable address but the gateway is leased, and a failure changes no lease.\<close>

theorem allocate_fails_iff_exhausted:
  assumes "valid4 sub gw"
  shows "((\<exists>e. fst (allocate ok n sub gw s) = Err e) \<longleftrightarrow> hosts4 sub gw \<subseteq> used4 s n)
    \<and> (\<forall>e. fst (allocate ok n sub gw s) = Err e \<longrightarrow>
          e = Exhausted \<and> used4 (snd (allocate ok n sub gw s)) = used4 s)"
proof (intro conjI allI impI)
  show "(\<exists>e. fst (allocate ok n sub gw s) = Err e) \<longleftrightarrow> hosts4 sub gw \<subseteq> used4 s n"
  proof
    assume "\<exists>e. fst (allocate ok n sub gw s) = Err e"
    then show "hosts4 sub gw \<subseteq> used4 s n"
      using v4.alloc_total [OF assms, of s n ok] by (metis is_ok_simps(1))
  next
    assume "hosts4 sub gw \<subseteq> used4 s n"
    then show "\<exists>e. fst (allocate ok n sub gw s) = Err e"
      using v4.alloc_Ok [of ok n sub gw s]
      by (cases "allocate ok n sub gw s") (metis (no_types, lifting) fst_conv subset_iff sum.exhaust)
  qed
next
  fix e
  assume err: "fst (allocate ok n sub gw s) = Err e"
  with assms show "e = Exhausted"
    by (auto simp: alloc_unfold split: sum.splits option.splits if_splits prod.splits)
  from err assms show "used4 (snd (allocate ok n sub gw s)) = used4 s"
    by (auto simp: alloc_unfold fun_eq_iff split: sum.splits option.splits if_splits prod.splits)
qed

theorem allocate_fails_iff_exhausted_witness:
  "\<exists>e. fst (allocate True ''n'' ''192.168.9.0/30'' ''192.168.9.1''
      (set_bucket4 ''n'' [3232237826] (ipam_new None))) = Err e"
proof -
  have p: "subnet_parse ''192.168.9.0/30'' = Ok \<lparr>network = 3232237824, sn_prefix = 30\<rparr>"
    "parse_ipv4 ''192.168.9.1'' = Some 3232237825"
    by code_simp+
  have v: "valid4 ''192.168.9.0/30'' ''192.168.9.1''"
    by (simp add: valid4_def p contains_def usable_range_def shl_u32_def)
  have "ip = 3232237826" if "3232237825 \<le> ip" "ip \<le> 3232237826" "ip \<noteq> 3232237825" for ip :: u32
    using that by unat_arith
  then have "hosts4 ''192.168.9.0/30'' ''192.168.9.1''
      \<subseteq> used4 (set_bucket4 ''n'' [3232237826] (ipam_new None)) ''n''"
    by (auto simp: hosts4_def p contains_def usable_range_def shl_u32_def) blast
  with allocate_fails_iff_exhausted [OF v] show ?thesis by blast
qed

text \<open>Allocating addresses of one network one after the other returns distinct
  addresses that were all free before, and as many as requested while that many are free;
  the leases of other networks do not change.\<close>

theorem allocate_many_distinct:
  assumes "valid4 sub gw" "k \<le> card (hosts4 sub gw - used4 s n)"
    and "alloc_many (allocate ok n sub gw) k s = (as, s')"
  shows "length as = k \<and> distinct as \<and> set as \<subseteq> hosts4 sub gw - used4 s n
    \<and> used4 s' n = used4 s n \<union> set as \<and> (\<forall>m. m \<noteq> n \<longrightarrow> used4 s' m = used4 s m)"
  using v4.alloc_many_fresh [OF assms(3)] v4.alloc_many_length [OF _ assms(1,2), of ok] assms(3)
  by auto

theorem allocate_many_distinct_witness:
  "length (fst (alloc_many (allocate True ''n'' ''192.168.9.0/29'' ''192.168.9.1'') 2 (ipam_new None))) = 2"
proof -
  have p: "subnet_parse ''192.168.9.0/29'' = Ok \<lparr>network = 3232237824, sn_prefix = 29\<rparr>"
    "parse_ipv4 ''192.168.9.1'' = Some 3232237825"
    by code_simp+
  have v: "valid4 ''192.168.9.0/29'' ''192.168.9.1''"
    by (simp add: valid4_def p contains_def usable_range_def shl_u32_def)
  have "{3232237826, 3232237827} \<subseteq> hosts4 ''192.168.9.0/29'' ''192.168.9.1'' - used4 (ipam_new None) ''n''"
    by (simp add: hosts4_def p contains_def usable_range_def shl_u32_def used4_def bucket_def
        ipam_new_def default_leases_def)
  from card_mono [OF _ this] have "2 \<le> card (hosts4 ''192.168.9.0/29'' ''192.168.9.1'' - used4 (ipam_new None) ''n'')"
    by simp
  from allocate_many_distinct [OF v this] show ?thesis
    by (metis prod.collapse)
qed

text \<open>The IPv6 pool has the same guarantee: consecutive allocations return distinct
  free addresses, and as many as requested while that many are free.\<close>

theorem allocate_v6_many_distinct:
  assumes "valid6 sub gw" "k \<le> card (hosts6 sub gw - used6 s n)"
    and "alloc_many (allocate_v6 ok n sub gw) k s = (as, s')"
  shows "length as = k \<and> distinct as \<and> set as \<subseteq> hosts6 sub gw - used6 s n
    \<and> used6 s' n = used6 s n \<union> set as \<and> (\<forall>m. m \<noteq> n \<longrightarrow> used6 s' m = used6 s m)"
  using v6.alloc_many_fresh [OF assms(3)] v6.alloc_many_length [OF _ assms(1,2), of ok] assms(3)
  by auto

theorem allocate_v6_many_distinct_witness:
  "length (fst (alloc_many (allocate_v6 True ''n'' ''fd00::/125'' ''fd00::1'') 2 (ipam_new None))) = 2"
proof -
  have g: "parse_ipv6 ''fd00::1'' = Some 336294682933583715844663186250927177729"
    "parse_ipv6 ''fd00::'' = Some 336294682933583715844663186250927177728"
    by code_simp+
  have p: "v6_subnet_parse ''fd00::/125'' = Ok \<lparr>network6 = 336294682933583715844663186250927177728, prefix6 = 125\<rparr>"
    by (simp add: v6_subnet_parse_def g v6_mask_def parse_uint_def dec_value_def digit_val_def
        is_digit_def mask_eq_exp_minus_1)
  have v: "valid6 ''fd00::/125'' ''fd00::1''"
    by (simp add: valid6_def p g contains6_def usable_range6_def v6_mask_def mask_eq_exp_minus_1)
  have "{336294682933583715844663186250927177730, 336294682933583715844663186250927177731}
      \<subseteq> hosts6 ''fd00::/125'' ''fd00::1'' - used6 (ipam_new None) ''n''"
    by (simp add: hosts6_def p g contains6_def usable_range6_def v6_mask_def used6_def bucket_def
        ipam_new_def default_leases_def mask_eq_exp_minus_1)
  from card_mono [OF _ this] have "2 \<le> card (hosts6 ''fd00::/125'' ''fd00::1'' - used6 (ipam_new None) ''n'')"
    by simp
  from allocate_v6_many_distinct [OF v this] show ?thesis
    by (metis prod.collapse)
qed


section \<open>The lease file follows the table\<close>

definition lease_sync :: "ipam \<Rightarrow> bool" where
  "lease_sync s \<longleftrightarrow> used4 (ipam_new (lease_file s)) = used4 s \<and> used6 (ipam_new (lease_file s)) = used6 s"

datatype ipam_op =
    OpAllocate string string string | OpReserve string string string string
  | OpAllocate6 string string string | OpReserve6 string string string string
  | OpReset string | OpRelease string string | OpRelease6 string string
  | OpSweep "string set" "(string \<times> u32) set" | OpSweep6 "string set" "(string \<times> u128) set"

text \<open>One operation of the allocator, with every write of the lease file succeeding.\<close>

fun ipam_exec :: "ipam_op \<Rightarrow> ipam \<Rightarrow> ipam" where
  "ipam_exec (OpAllocate n sub gw) s = snd (allocate True n sub gw s)"
| "ipam_exec (OpReserve n sub gw ip) s = snd (reserve True n sub gw ip s)"
| "ipam_exec (OpAllocate6 n sub gw) s = snd (allocate_v6 True n sub gw s)"
| "ipam_exec (OpReserve6 n sub gw ip) s = snd (reserve_v6 True n sub gw ip s)"
| "ipam_exec (OpReset n) s = reset_bucket True n s"
| "ipam_exec (OpRelease n ip) s = release True n ip s"
| "ipam_exec (OpRelease6 n ip) s = release_v6 True n ip s"
| "ipam_exec (OpSweep known live) s = snd (sweep_orphans True known live s)"
| "ipam_exec (OpSweep6 known live) s = snd (sweep_orphans_v6 True known live s)"

lemma lease_sync_write [simp]: "lease_sync (write_leases True s)"
  by (simp add: lease_sync_def write_leases_def ipam_new_def used4_def used6_def fun_eq_iff)

text \<open>An operation that does not write must leave every bucket's content alone.\<close>

lemma lease_sync_same:
  assumes "lease_sync s" "lease_file s' = lease_file s" "used4 s' = used4 s" "used6 s' = used6 s"
  shows "lease_sync s'"
  using assms by (simp add: lease_sync_def)

lemma lease_file_set_bucket [simp]:
  "lease_file (set_bucket4 n ips s) = lease_file s" "lease_file (set_bucket6 n ips6 s) = lease_file s"
  by (simp_all add: set_bucket4_def set_bucket6_def)

lemma lease_sync_touch:
  "lease_sync s \<Longrightarrow> lease_sync (set_bucket4 n (bucket (allocated (state s)) n) s)"
  "lease_sync s \<Longrightarrow> lease_sync (set_bucket6 n (bucket (allocated_v6 (state s)) n) s)"
  by (erule lease_sync_same; auto simp: fun_eq_iff used4_def used6_def set_bucket4_def set_bucket6_def)+

lemma retain_live_bucket:
  "bucket (snd (retain_live known live m)) n =
     (if n \<in> known then filter (\<lambda>ip. (n, ip) \<in> live) (bucket m n) else [])"
  by (induction m) (auto simp: bucket_def assoc_get_def Let_def split: prod.splits)

text \<open>Nothing dropped and nothing released means nothing changed.\<close>

lemma retain_live_id: "fst (retain_live known live m) = (0, 0) \<Longrightarrow> snd (retain_live known live m) = m"
proof (induction m)
  case Nil
  then show ?case by simp
next
  case (Cons p m)
  obtain n ips d r m' where p: "p = (n, ips)" and rec: "retain_live known live m = ((d, r), m')"
    by (metis prod.exhaust)
  define kept where "kept = filter (\<lambda>ip. (n, ip) \<in> live) ips"
  have "length kept \<le> length ips" and "length kept = length ips \<Longrightarrow> kept = ips"
    unfolding kept_def by (simp, metis filter_id_conv length_filter_less less_irrefl)
  then show ?case
    using Cons p rec by (auto simp: Let_def kept_def [symmetric] split: if_splits)
qed

lemma retain_live_count:
  "fst (retain_live known live m) = (d, r) \<Longrightarrow>
     r + sum_list (map (length \<circ> snd) (snd (retain_live known live m))) = sum_list (map (length \<circ> snd) m)"
proof (induction m arbitrary: d r)
  case Nil
  then show ?case by simp
next
  case (Cons p m)
  obtain n ips d' r' m' where p: "p = (n, ips)" and rec: "retain_live known live m = ((d', r'), m')"
    by (metis prod.exhaust)
  define kept where "kept = filter (\<lambda>ip. (n, ip) \<in> live) ips"
  have "length kept \<le> length ips"
    unfolding kept_def by simp
  with Cons p rec show ?case
    by (auto simp: Let_def kept_def [symmetric] split: if_splits)
qed

lemma lease_sync_exec: "lease_sync s \<Longrightarrow> lease_sync (ipam_exec op s)"
proof (cases op)
  case (OpReset n)
  assume "lease_sync s"
  with OpReset show ?thesis
    by (auto simp: reset_bucket_def Let_def has_key_def fun_eq_iff used4_def used6_def bucket_def
        assoc_get_del elim!: lease_sync_same split: option.splits)
next
  case (OpSweep known live)
  assume "lease_sync s"
  with OpSweep retain_live_id [of known live "allocated (state s)"] show ?thesis
    by (auto simp: sweep_orphans_def Let_def split: prod.splits)
next
  case (OpSweep6 known live)
  assume "lease_sync s"
  with OpSweep6 retain_live_id [of known live "allocated_v6 (state s)"] show ?thesis
    by (auto simp: sweep_orphans_v6_def Let_def split: prod.splits)
qed (auto simp: allocate_def reserve_def allocate_v6_def reserve_v6_def release_def release_v6_def
    Let_def lease_sync_touch split: sum.splits option.splits prod.splits)

text \<open>Claim C31: As long as the writes of the lease file succeed, after any sequence of
  operations a restart of the daemon (\<open>Ipam::new\<close> on the lease file) finds exactly the leases
  that were live in memory, for both address families, although several operations skip the
  write or leave an empty bucket unwritten.\<close>

theorem restart_recovers_leases:
  "let s = fold ipam_exec ops (ipam_new saved) in
     used4 (ipam_new (lease_file s)) = used4 s \<and> used6 (ipam_new (lease_file s)) = used6 s"
proof -
  have "lease_sync (fold ipam_exec ops i)" if "lease_sync i" for i
    using that by (induction ops arbitrary: i) (auto simp: lease_sync_exec)
  moreover have "lease_sync (ipam_new saved)"
    by (simp add: lease_sync_def ipam_new_def)
  ultimately show ?thesis
    unfolding Let_def lease_sync_def [symmetric] by blast
qed

text \<open>The boot sweep keeps exactly the leases of known networks that a container
  record references, and the number of released addresses it reports is the number of
  leases that disappeared.\<close>

theorem sweep_orphans_exact:
  assumes "sweep_orphans ok known live s = ((dropped, released), s')"
  shows "used4 s' n = {ip \<in> used4 s n. n \<in> known \<and> (n, ip) \<in> live}
    \<and> released + sum_list (map (length \<circ> snd) (allocated (state s')))
        = sum_list (map (length \<circ> snd) (allocated (state s)))
    \<and> used6 s' = used6 s"
proof -
  let ?r = "retain_live known live (allocated (state s))"
  have al: "allocated (state s') = snd ?r" "allocated_v6 (state s') = allocated_v6 (state s)"
    and cnt: "fst ?r = (dropped, released)"
    using assms by (auto simp: sweep_orphans_def Let_def split: prod.splits if_splits)
  show ?thesis
    using retain_live_count [OF cnt] retain_live_bucket [of known live "allocated (state s)" n]
    by (auto simp: used4_def used6_def al fun_eq_iff)
qed

theorem sweep_orphans_exact_witness:
  "used4 (snd (sweep_orphans True {''n''} {(''n'', 7)}
     (set_bucket4 ''n'' [7, 8] (set_bucket4 ''gone'' [9] (ipam_new None))))) ''n'' = {7}"
proof -
  let ?s = "set_bucket4 ''n'' [7, 8] (set_bucket4 ''gone'' [9] (ipam_new None))"
  obtain d r s' where e: "sweep_orphans True {''n''} {(''n'', 7)} ?s = ((d, r), s')"
    by (metis prod.exhaust)
  have "used4 s' ''n'' = {ip \<in> used4 ?s ''n''. ip = 7}"
    using sweep_orphans_exact [OF e, of "''n''"] by simp
  then show ?thesis
    by (auto simp: e)
qed

end
