(* ===== verification/Ipv6_Text.thy ===== *)
theory Ipv6_Text
  imports Net_Addr
begin

text \<open>
  Printing of \<open>Ipv6Addr\<close> as \<open>std::net\<close> does it (lower-case groups without leading zeros, the first
  longest run of at least two zero groups compressed, IPv4-mapped addresses with a dotted tail), and
  the round trip with the parser: every address parses back from its text. The network manager
  keeps IPv6 leases and DNS entries as texts, so releasing a lease rests on this.
\<close>

section \<open>Printing\<close>

definition hex_char :: "nat \<Rightarrow> char" where
  "hex_char d = (if d < 10 then digit_char d else char_of (87 + d))"

fun show_hex :: "nat \<Rightarrow> string" where
  "show_hex n = (if n < 16 then [hex_char n] else show_hex (n div 16) @ [hex_char (n mod 16)])"

declare show_hex.simps [simp del]

text \<open>The eight groups, most significant first.\<close>

fun groups :: "nat \<Rightarrow> nat \<Rightarrow> nat list" where
  "groups 0 n = []"
| "groups (Suc k) n = groups k (n div 65536) @ [n mod 65536]"

definition segments :: "u128 \<Rightarrow> nat list" where
  "segments a = groups 8 (unat a)"

text \<open>The first longest run of zeros as \<open>(start, len)\<close>.\<close>

fun zero_run :: "nat \<Rightarrow> nat \<times> nat \<Rightarrow> nat \<times> nat \<Rightarrow> nat list \<Rightarrow> nat \<times> nat" where
  "zero_run i longest current [] = longest"
| "zero_run i longest current (g # gs) =
     (if g = 0 then
        (let current' = (if snd current = 0 then (i, 1) else (fst current, snd current + 1));
             longest' = (if snd longest < snd current' then current' else longest)
         in zero_run (Suc i) longest' current' gs)
      else zero_run (Suc i) longest (0, 0) gs)"

definition fmt_groups :: "nat list \<Rightarrow> string" where
  "fmt_groups gs = join_with '':'' (map show_hex gs)"

definition is_ipv4_mapped :: "nat list \<Rightarrow> bool" where
  "is_ipv4_mapped gs = (take 6 gs = [0, 0, 0, 0, 0, 65535])"

definition show_ipv6 :: "u128 \<Rightarrow> string" where
  "show_ipv6 a =
     (let gs = segments a in
      if is_ipv4_mapped gs then ''::ffff:'' @ show_ipv4 (word_of_nat (unat a mod 4294967296))
      else (case zero_run 0 (0, 0) (0, 0) gs of (start, len) \<Rightarrow>
        if 1 < len then fmt_groups (take start gs) @ ''::'' @ fmt_groups (drop (start + len) gs)
        else fmt_groups gs))"

section \<open>Hexadecimal groups\<close>

lemma hex_char_facts:
  assumes "d < 16"
  shows "is_hex (hex_char d)" "hex_val (hex_char d) = d" "hex_char d \<noteq> CHR ''.''" "hex_char d \<noteq> CHR '':''"
proof -
  have "list_all (\<lambda>d. is_hex (hex_char d) \<and> hex_val (hex_char d) = d \<and> hex_char d \<noteq> CHR ''.''
      \<and> hex_char d \<noteq> CHR '':'') [0..<16]"
    by code_simp
  then show "is_hex (hex_char d)" "hex_val (hex_char d) = d" "hex_char d \<noteq> CHR ''.''"
    "hex_char d \<noteq> CHR '':''"
    using assms by (auto simp: list_all_iff)
qed

lemma show_hex_small: "n < 16 \<Longrightarrow> show_hex n = [hex_char n]"
  by (subst show_hex.simps) simp

lemma show_hex_big: "16 \<le> n \<Longrightarrow> show_hex n = show_hex (n div 16) @ [hex_char (n mod 16)]"
  by (subst show_hex.simps) simp

lemma show_hex_digits: "c \<in> set (show_hex n) \<Longrightarrow> \<exists>d < 16. c = hex_char d"
proof (induction n rule: show_hex.induct)
  case (1 n)
  show ?case
  proof (cases "n < 16")
    case True
    with 1 show ?thesis by (auto simp: show_hex_small)
  next
    case False
    with 1 show ?thesis by (auto simp: show_hex_big intro: exI [of _ "n mod 16"])
  qed
qed

lemma show_hex_is_hex: "c \<in> set (show_hex n) \<Longrightarrow> is_hex c"
  using show_hex_digits hex_char_facts(1) by blast

lemma show_hex_not_Nil [simp]: "show_hex n \<noteq> []"
  by (cases "n < 16") (simp_all add: show_hex_small show_hex_big)

lemma show_hex_no_dot: "CHR ''.'' \<notin> set (show_hex n)"
  using show_hex_digits hex_char_facts(3) by metis

lemma hex_value_snoc: "hex_value (s @ [c]) = 16 * hex_value s + hex_val c"
  by (simp add: hex_value_def)

lemma hex_value_show [simp]: "hex_value (show_hex n) = n"
proof (induction n rule: show_hex.induct)
  case (1 n)
  show ?case
  proof (cases "n < 16")
    case True
    then show ?thesis by (simp add: show_hex_small hex_value_def hex_char_facts)
  next
    case False
    with 1 show ?thesis by (simp add: show_hex_big hex_value_snoc hex_char_facts)
  qed
qed

lemma length_show_hex: "n < 16 ^ k \<Longrightarrow> 0 < k \<Longrightarrow> length (show_hex n) \<le> k"
proof (induction k arbitrary: n)
  case (Suc k)
  show ?case
  proof (cases "n < 16")
    case True
    then show ?thesis by (simp add: show_hex_small)
  next
    case False
    then have "0 < k" using Suc.prems by (cases k) auto
    moreover have "n div 16 < 16 ^ k" using Suc.prems by (simp add: less_mult_imp_div_less mult.commute)
    ultimately show ?thesis using False Suc.IH [of "n div 16"] by (simp add: show_hex_big)
  qed
qed simp

text \<open>A text that ends a group: nothing, or a colon.\<close>

definition group_end :: "string \<Rightarrow> bool" where
  "group_end s = (case s of [] \<Rightarrow> True | c # _ \<Rightarrow> c = CHR '':'')"

lemma takeWhile_hex:
  assumes "\<And>c. c \<in> set s \<Longrightarrow> is_hex c" "group_end rest"
  shows "takeWhile is_hex (s @ rest) = s" "dropWhile is_hex (s @ rest) = rest"
proof -
  have "takeWhile is_hex rest = [] \<and> dropWhile is_hex rest = rest"
    using assms(2) by (cases rest) (auto simp: group_end_def is_hex_def is_digit_def)
  then show "takeWhile is_hex (s @ rest) = s" "dropWhile is_hex (s @ rest) = rest"
    using assms(1) by (induction s) auto
qed

lemma read_hex_group_show:
  assumes "g < 65536" "group_end rest"
  shows "read_hex_group (show_hex g @ rest) = Some (g, rest)"
  using takeWhile_hex [of "show_hex g" rest, OF show_hex_is_hex assms(2)] length_show_hex [of g 4] assms(1)
  by (simp add: read_hex_group_def Let_def)

section \<open>Reading back a list of groups\<close>

lemma read_char_dropWhile:
  assumes "CHR ''.'' \<notin> set s" "group_end rest"
  shows "read_char (CHR ''.'') (dropWhile is_digit (s @ rest)) = None"
  using assms(1)
proof (induction s)
  case Nil
  then show ?case
    using assms(2) by (cases rest) (auto simp: group_end_def read_char_def is_digit_def)
qed (auto simp: read_char_def)

lemma read_ipv4_hex:
  assumes "group_end rest"
  shows "read_ipv4_addr (show_hex g @ rest) = None"
proof -
  have "read_char (CHR ''.'') (dropWhile is_digit (show_hex g @ rest)) = None"
    by (rule read_char_dropWhile [OF show_hex_no_dot assms])
  then show ?thesis
    by (auto simp: read_ipv4_addr_def read_octet_def read_dot_octet_def split: option.splits)
qed

lemma read_ipv4_colon: "read_ipv4_addr [] = None" "read_ipv4_addr (CHR '':'' # s) = None"
  by (simp_all add: read_ipv4_addr_def read_octet_def parse_octet_def is_digit_def)

lemma read_hex_colon: "read_hex_group [] = None" "read_hex_group (CHR '':'' # s) = None"
  by (simp_all add: read_hex_group_def Let_def is_hex_def is_digit_def)

text \<open>The groups from the \<open>i\<close>-th on, each but the very first with its separator.\<close>

fun sep_groups :: "nat \<Rightarrow> nat list \<Rightarrow> string" where
  "sep_groups i [] = []"
| "sep_groups i (g # gs) = (if i = 0 then [] else '':'') @ show_hex g @ sep_groups (Suc i) gs"

lemma sep_groups_fmt: "0 < i \<Longrightarrow> gs \<noteq> [] \<Longrightarrow> sep_groups i gs = '':'' @ fmt_groups gs"
proof (induction i gs rule: sep_groups.induct)
  case (2 i g gs)
  then show ?case by (cases gs) (simp_all add: fmt_groups_def)
qed simp

lemma fmt_groups_sep: "fmt_groups gs = sep_groups 0 gs"
proof (cases gs)
  case (Cons g hs)
  then show ?thesis
    using sep_groups_fmt [of 1 hs] by (cases hs) (simp_all add: fmt_groups_def)
qed (simp add: fmt_groups_def)

definition stops :: "string \<Rightarrow> bool" where
  "stops rest \<longleftrightarrow> rest = [] \<or> (\<exists>t. rest = ''::'' @ t)"

lemma group_end_sep: "stops rest \<Longrightarrow> group_end (sep_groups (Suc i) gs @ rest)"
  by (cases gs) (auto simp: stops_def group_end_def)

lemma read_groups_stop: "stops rest \<Longrightarrow> read_groups r i rest = ([], False, rest)"
  by (cases r) (auto simp: stops_def read_sep_def read_char_def read_ipv4_colon read_hex_colon)

lemma read_groups_sep:
  assumes "length gs \<le> r" "\<And>g. g \<in> set gs \<Longrightarrow> g < 65536" "stops rest"
  shows "read_groups r i (sep_groups i gs @ rest) = (gs, False, rest)"
  using assms(1,2)
proof (induction gs arbitrary: r i)
  case Nil
  then show ?case using assms(3) by (simp add: read_groups_stop)
next
  case (Cons g gs)
  then obtain r' where r: "r = Suc r'" by (cases r) auto
  let ?tail = "sep_groups (Suc i) gs @ rest"
  have "read_sep i (sep_groups i (g # gs) @ rest) = Some (show_hex g @ ?tail)"
    by (simp add: read_sep_def read_char_def)
  moreover have "read_ipv4_addr (show_hex g @ ?tail) = None"
    "read_hex_group (show_hex g @ ?tail) = Some (g, ?tail)"
    using Cons.prems group_end_sep [OF assms(3)]
    by (simp_all add: read_ipv4_hex read_hex_group_show)
  moreover have "read_groups r' (Suc i) ?tail = (gs, False, rest)"
    using Cons by (simp add: r)
  ultimately show ?case
    using Cons.prems(1) by (cases gs) (simp_all add: r)
qed

section \<open>Groups and words\<close>

lemma length_groups [simp]: "length (groups k n) = k"
  by (induction k arbitrary: n) simp_all

lemma groups_bound: "g \<in> set (groups k n) \<Longrightarrow> g < 65536"
  by (induction k arbitrary: n) auto

lemma groups_value: "foldl (\<lambda>n g. n * 65536 + g) 0 (groups k n) = n mod 65536 ^ k"
proof (induction k arbitrary: n)
  case (Suc k)
  have "n div 65536 mod 65536 ^ k * 65536 + n mod 65536 = n mod (65536 * 65536 ^ k)"
    by (simp add: mod_mult2_eq mult.commute)
  then show ?case by (simp add: Suc.IH)
qed simp

lemma length_segments [simp]: "length (segments a) = 8"
  by (simp add: segments_def)

lemma ipv6_of_segments [simp]: "ipv6_of_groups (segments a) = a"
proof -
  have "unat a < 65536 ^ 8" using unsigned_less [of a] by simp
  then have "unat a mod 65536 ^ 8 = unat a" by (rule mod_less)
  then show ?thesis
    by (simp only: ipv6_of_groups_def segments_def groups_value of_nat_unat ucast_id)
qed

section \<open>The compressed run\<close>

definition zero_span :: "nat list \<Rightarrow> nat \<times> nat \<Rightarrow> bool" where
  "zero_span gs sp \<longleftrightarrow> fst sp + snd sp \<le> length gs \<and> (\<forall>j < snd sp. gs ! (fst sp + j) = 0)"

lemma zero_run_span:
  assumes "zero_span pre longest" "zero_span pre current"
    "snd current = 0 \<or> fst current + snd current = length pre"
  shows "zero_span (pre @ gs) (zero_run (length pre) longest current gs)"
  using assms
proof (induction gs arbitrary: pre longest current)
  case Nil
  then show ?case by simp
next
  case (Cons g gs)
  have mono: "zero_span (pre @ [g]) sp" if "zero_span pre sp" for sp
    using that by (auto simp: zero_span_def nth_append)
  show ?case
  proof (cases "g = 0")
    case False
    have "zero_span (pre @ [g]) (0, 0)" by (simp add: zero_span_def)
    then show ?thesis
      using Cons.IH [of "pre @ [g]" longest "(0, 0)"] mono Cons.prems(1) False by simp
  next
    case True
    let ?cur = "if snd current = 0 then (length pre, 1) else (fst current, snd current + 1)"
    have cur: "zero_span (pre @ [g]) ?cur \<and> fst ?cur + snd ?cur = length (pre @ [g])"
      using Cons.prems True by (auto simp: zero_span_def nth_append less_Suc_eq)
    moreover have "zero_span (pre @ [g]) (if snd longest < snd ?cur then ?cur else longest)"
      using cur mono Cons.prems(1) by simp
    ultimately show ?thesis
      using Cons.IH [of "pre @ [g]" "if snd longest < snd ?cur then ?cur else longest" ?cur] True
      by (simp add: Let_def)
  qed
qed

lemma zero_span_split:
  assumes "zero_span gs (st, len)"
  shows "take st gs @ replicate len 0 @ drop (st + len) gs = gs"
proof (rule nth_equalityI)
  fix i
  assume "i < length (take st gs @ replicate len 0 @ drop (st + len) gs)"
  then show "(take st gs @ replicate len 0 @ drop (st + len) gs) ! i = gs ! i"
    using assms by (auto simp: zero_span_def nth_append dest: spec [of _ "i - st"])
qed (use assms in \<open>auto simp: zero_span_def\<close>)

section \<open>Round trip\<close>

lemma read_octet_show:
  assumes "n < 256" "rest = [] \<or> hd rest = CHR ''.''"
  shows "read_octet (show_nat n @ rest) = Some (n, rest)"
proof -
  have "takeWhile is_digit rest = [] \<and> dropWhile is_digit rest = rest"
    using assms(2) by (cases rest) (auto simp: is_digit_def)
  then have "takeWhile is_digit (show_nat n @ rest) = show_nat n \<and> dropWhile is_digit (show_nat n @ rest) = rest"
    using show_nat_in_digits by (simp add: takeWhile_append2 dropWhile_append2)
  then show ?thesis
    using assms(1) by (simp add: read_octet_def)
qed

lemma read_ipv4_show:
  "\<exists>a b c d. read_ipv4_addr (show_ipv4 w) = Some ((a, b, c, d), [])
     \<and> ((a * 256 + b) * 65536 + (c * 256 + d)) = unat w"
proof -
  let ?n = "unat w"
  have n: "?n < 4294967296"
    using unsigned_less [of w] by simp
  then have "?n div 16777216 < 256"
    by (intro less_mult_imp_div_less) simp
  then have "read_ipv4_addr (show_ipv4 w) =
      Some ((?n div 16777216, ?n div 65536 mod 256, ?n div 256 mod 256, ?n mod 256), [])"
    by (simp add: show_ipv4_def Let_def read_ipv4_addr_def read_octet_show read_dot_octet_def
        read_char_def read_octet_show [of _ "[]", simplified])
  moreover have "(?n div 16777216 * 256 + ?n div 65536 mod 256) * 65536
      + (?n div 256 mod 256 * 256 + ?n mod 256) = ?n"
    using base256 [of ?n] by (simp add: algebra_simps)
  ultimately show ?thesis by blast
qed

lemma mapped_groups:
  assumes "is_ipv4_mapped (segments a)"
  shows "unat a div 4294967296 = 65535"
proof -
  have "groups (Suc (Suc 6)) n = groups 6 (n div 4294967296) @ [n div 65536 mod 65536, n mod 65536]" for n
    by (simp only: groups.simps append_assoc append_Cons append_Nil) (simp flip: div_mult2_eq)
  moreover have "Suc (Suc 6) = 8" by simp
  ultimately have g: "groups 8 n = groups 6 (n div 4294967296) @ [n div 65536 mod 65536, n mod 65536]" for n
    by metis
  have "groups 6 (unat a div 4294967296) = [0, 0, 0, 0, 0, 65535]"
    using assms by (simp add: is_ipv4_mapped_def segments_def g)
  then have "foldl (\<lambda>n g. n * 65536 + g) 0 (groups 6 (unat a div 4294967296)) = 65535"
    by simp
  then have "unat a div 4294967296 mod 65536 ^ 6 = 65535"
    by (simp only: groups_value)
  moreover have "unat a div 4294967296 < 65536 ^ 6"
    using unsigned_less [of a] by (intro less_mult_imp_div_less) simp
  ultimately show ?thesis by simp
qed

lemma foldl_zeros: "foldl (\<lambda>n g. n * 65536 + g) 0 (replicate k 0) = (0 :: nat)"
  by (induction k) simp_all

lemma parse_show_mapped:
  assumes "is_ipv4_mapped (segments a)"
  shows "parse_ipv6 (''::ffff:'' @ show_ipv4 (word_of_nat (unat a mod 4294967296))) = Some a"
proof -
  let ?w = "word_of_nat (unat a mod 4294967296) :: u32"
  obtain x b c d where rd: "read_ipv4_addr (show_ipv4 ?w) = Some ((x, b, c, d), [])"
    and v: "(x * 256 + b) * 65536 + (c * 256 + d) = unat ?w"
    using read_ipv4_show by blast
  have w: "unat ?w = unat a mod 4294967296"
    by (simp add: unsigned_of_nat take_bit_eq_mod)
  have hex: "read_hex_group (''ffff:'' @ s) = Some (65535, CHR '':'' # s)" for s
    by (simp add: read_hex_group_def Let_def is_hex_def is_digit_def hex_value_def hex_val_def is_lower_def)
  have v4: "read_ipv4_addr (''ffff:'' @ s) = None" for s
    by (simp add: read_ipv4_addr_def read_octet_def parse_octet_def is_digit_def)
  have tail: "read_groups 7 0 (''ffff:'' @ show_ipv4 ?w) = ([65535, x * 256 + b, c * 256 + d], True, [])"
  proof -
    have "read_groups 6 1 (CHR '':'' # show_ipv4 ?w) = ([x * 256 + b, c * 256 + d], True, [])"
      using read_groups.simps(2) [of 5 1 "CHR '':'' # show_ipv4 ?w"]
      by (simp add: read_sep_def read_char_def rd)
    then show ?thesis
      using hex [of "show_ipv4 ?w"] v4 [of "show_ipv4 ?w"]
        read_groups.simps(2) [of 6 0 "''ffff:'' @ show_ipv4 ?w"]
      by (simp add: read_sep_def)
  qed
  have "read_groups 8 0 (''::ffff:'' @ show_ipv4 ?w) = ([], False, ''::ffff:'' @ show_ipv4 ?w)"
    by (rule read_groups_stop) (simp add: stops_def)
  then have "parse_ipv6 (''::ffff:'' @ show_ipv4 ?w)
      = Some (ipv6_of_groups (replicate 5 0 @ [65535, x * 256 + b, c * 256 + d]))"
    using tail by (simp add: parse_ipv6_def)
  moreover have "foldl (\<lambda>n g. n * 65536 + g) 0 (replicate 5 0 @ [65535, x * 256 + b, c * 256 + d])
      = 65535 * 4294967296 + unat ?w"
    unfolding foldl_append foldl_zeros v [symmetric] by simp
  ultimately have "parse_ipv6 (''::ffff:'' @ show_ipv4 ?w)
      = Some (word_of_nat (65535 * 4294967296 + unat ?w))"
    by (simp only: ipv6_of_groups_def)
  moreover have "65535 * 4294967296 + unat ?w = unat a"
    using mapped_groups [OF assms] w div_mult_mod_eq [of "unat a" 4294967296] by simp
  ultimately show ?thesis
    by (simp only: of_nat_unat ucast_id)
qed

text \<open>Every IPv6 address parses back from the text it prints.\<close>

theorem parse_show_ipv6: "parse_ipv6 (show_ipv6 a) = Some a"
proof -
  let ?gs = "segments a"
  have bound: "\<And>g. g \<in> set ?gs \<Longrightarrow> g < 65536"
    using groups_bound by (simp add: segments_def)
  obtain st len where run: "zero_run 0 (0, 0) (0, 0) ?gs = (st, len)"
    by (cases "zero_run 0 (0, 0) (0, 0) ?gs")
  have span: "zero_span ?gs (st, len)"
    using zero_run_span [of "[]" "(0, 0)" "(0, 0)" ?gs] by (simp add: run zero_span_def)
  consider "is_ipv4_mapped ?gs" | "\<not> is_ipv4_mapped ?gs" "1 < len" | "\<not> is_ipv4_mapped ?gs" "\<not> 1 < len"
    by blast
  then show ?thesis
  proof cases
    case 1
    then show ?thesis using parse_show_mapped by (simp add: show_ipv6_def Let_def)
  next
    case 2
    let ?hd = "take st ?gs" and ?tl = "drop (st + len) ?gs"
    have len: "st + len \<le> 8" using span by (simp add: zero_span_def)
    have "read_groups 8 0 (fmt_groups ?hd @ ''::'' @ fmt_groups ?tl) = (?hd, False, ''::'' @ fmt_groups ?tl)"
      unfolding fmt_groups_sep by (rule read_groups_sep) (auto simp: stops_def dest: in_set_takeD bound)
    moreover have "read_groups (8 - (st + 1)) 0 (fmt_groups ?tl @ []) = (?tl, False, [])"
      unfolding fmt_groups_sep using 2 len
      by (intro read_groups_sep) (auto simp: stops_def dest: in_set_dropD bound)
    ultimately have "parse_ipv6 (fmt_groups ?hd @ ''::'' @ fmt_groups ?tl) =
        Some (ipv6_of_groups (?hd @ replicate len 0 @ ?tl))"
      using 2 len by (simp add: parse_ipv6_def)
    then show ?thesis
      using 2 zero_span_split [OF span] by (simp add: show_ipv6_def Let_def run)
  next
    case 3
    have "read_groups 8 0 (fmt_groups ?gs @ []) = (?gs, False, [])"
      unfolding fmt_groups_sep by (rule read_groups_sep) (auto simp: stops_def dest: bound)
    then show ?thesis
      using 3 by (simp add: show_ipv6_def Let_def run parse_ipv6_def)
  qed
qed

end
