(* ===== verification/Bridge_Rules.thy ===== *)
theory Bridge_Rules
  imports Ipam Ipv6_Text "HOL-Library.Multiset"
begin

text \<open>
  The dataplane of a network in \<open>crates/network/src/lib.rs\<close>: the network record, the firewall rules
  of both address families, their idempotent installation when a bridge is ensured, the rollback of
  a partly installed IPv6 half, and their removal with the network. The commands \<open>ip\<close>, \<open>iptables\<close>
  and \<open>ip6tables\<close> are a parameter: a shell that runs a program with arguments on a host and gives
  \<open>None\<close> or the text of the failure. What the rules rely on is \<open>netfilter_laws\<close>.
\<close>

section \<open>Records and errors\<close>

record network_record =
  nr_id :: string
  nr_name :: string
  nr_driver :: string
  nr_bridge :: string
  nr_subnet :: string
  nr_gateway :: string
  nr_subnet_v6 :: string
  nr_gateway_v6 :: string
  nr_created :: string
  nr_internal :: bool
  nr_attachable :: bool
  nr_options :: "(string, string) assoc"
  nr_labels :: "(string, string) assoc"

definition has_ipv6 :: "network_record \<Rightarrow> bool" where
  "has_ipv6 rec = (nr_subnet_v6 rec \<noteq> [] \<and> nr_gateway_v6 rec \<noteq> [])"

datatype net_error =
    Sh_Failed string "string list" string
  | Ipam_Error ipam_error
  | Invalid_Gateway string
  | Gateway_Outside string
  | Subnet_Overlaps string
  | Driver_Unsupported string
  | Name_Exists string
  | Pools_Exhausted
  | Invalid_V6_Pool string
  | V6_Pools_Exhausted
  | Network_Not_Found string
  | Predefined_Network
  | Bridge_Missing
  | Save_Failed

section \<open>Commands\<close>

record 'h shell =
  run :: "string \<Rightarrow> string list \<Rightarrow> 'h \<Rightarrow> string option \<times> 'h"

type_synonym 'h step = "'h \<Rightarrow> (net_error, unit) result \<times> 'h"

definition sh :: "'h shell \<Rightarrow> string \<Rightarrow> string list \<Rightarrow> 'h step" where
  "sh S cmd args h = (case run S cmd args h of
     (None, h') \<Rightarrow> (Ok (), h')
   | (Some msg, h') \<Rightarrow> (Err (Sh_Failed cmd args msg), h'))"

text \<open>\<open>let _ = sh(..)\<close>: the result is ignored.\<close>

definition sh_ignore :: "'h shell \<Rightarrow> string \<Rightarrow> string list \<Rightarrow> 'h \<Rightarrow> 'h" where
  "sh_ignore S cmd args h = snd (sh S cmd args h)"

text \<open>A sequence of fallible steps, each followed by \<open>?\<close>.\<close>

fun run_steps :: "'h step list \<Rightarrow> 'h step" where
  "run_steps [] h = (Ok (), h)"
| "run_steps (f # fs) h = (case f h of (Inl e, h') \<Rightarrow> (Err e, h') | (Inr _, h') \<Rightarrow> run_steps fs h')"

section \<open>Firewall rules\<close>

record ip6_rule =
  ir_table :: "string option"
  ir_insert :: bool
  ir_args :: "string list"

definition table_args :: "string option \<Rightarrow> string list" where
  "table_args t = (case t of None \<Rightarrow> [] | Some n \<Rightarrow> [''-t'', n])"

definition full_args :: "ip6_rule \<Rightarrow> string \<Rightarrow> string list" where
  "full_args r op = table_args (ir_table r) @ [op] @ ir_args r"

text \<open>The rules \<open>ensure_bridge\<close> installs one by one, in its order.\<close>

definition v4_network_rules :: "network_record \<Rightarrow> ip6_rule list" where
  "v4_network_rules rec =
     (let b = nr_bridge rec in
      if nr_internal rec then
        [\<lparr>ir_table = None, ir_insert = True, ir_args = [''FORWARD'', ''-i'', b, ''!'', ''-o'', b, ''-j'', ''DROP'']\<rparr>,
         \<lparr>ir_table = None, ir_insert = True, ir_args = [''FORWARD'', ''-o'', b, ''!'', ''-i'', b, ''-j'', ''DROP'']\<rparr>,
         \<lparr>ir_table = None, ir_insert = False, ir_args = [''FORWARD'', ''-i'', b, ''-o'', b, ''-j'', ''ACCEPT'']\<rparr>]
      else
        [\<lparr>ir_table = Some ''nat'', ir_insert = False,
          ir_args = [''POSTROUTING'', ''-s'', nr_subnet rec, ''!'', ''-o'', b, ''-j'', ''MASQUERADE'']\<rparr>,
         \<lparr>ir_table = None, ir_insert = False, ir_args = [''FORWARD'', ''-i'', b, ''-j'', ''ACCEPT'']\<rparr>,
         \<lparr>ir_table = None, ir_insert = False, ir_args = [''FORWARD'', ''-o'', b, ''-j'', ''ACCEPT'']\<rparr>])"

definition v6_network_rules :: "network_record \<Rightarrow> ip6_rule list" where
  "v6_network_rules rec =
     (if \<not> has_ipv6 rec then []
      else let b = nr_bridge rec; s = nr_subnet_v6 rec in
      if nr_internal rec then
        [\<lparr>ir_table = None, ir_insert = True, ir_args = [''FORWARD'', ''-i'', b, ''!'', ''-o'', b, ''-j'', ''DROP'']\<rparr>,
         \<lparr>ir_table = None, ir_insert = True, ir_args = [''FORWARD'', ''-o'', b, ''!'', ''-i'', b, ''-j'', ''DROP'']\<rparr>,
         \<lparr>ir_table = None, ir_insert = False, ir_args = [''FORWARD'', ''-i'', b, ''-o'', b, ''-j'', ''ACCEPT'']\<rparr>]
      else
        [\<lparr>ir_table = Some ''nat'', ir_insert = False,
          ir_args = [''POSTROUTING'', ''-s'', s, ''!'', ''-o'', b, ''-j'', ''MASQUERADE'']\<rparr>,
         \<lparr>ir_table = None, ir_insert = False, ir_args = [''FORWARD'', ''-i'', b, ''-j'', ''ACCEPT'']\<rparr>,
         \<lparr>ir_table = None, ir_insert = False, ir_args = [''FORWARD'', ''-o'', b, ''-j'', ''ACCEPT'']\<rparr>])"

definition v6_bridge_addr :: "string \<Rightarrow> nat \<Rightarrow> string" where
  "v6_bridge_addr gw p = gw @ ''/'' @ show_nat p"

text \<open>\<open>iptables_ensure_async\<close> and \<open>ip6tables_ensure_async\<close>: check, then insert or append on a miss.\<close>

definition tables_ensure :: "'h shell \<Rightarrow> string \<Rightarrow> ip6_rule \<Rightarrow> 'h step" where
  "tables_ensure S prog r h =
     (case sh S prog (full_args r ''-C'') h of
        (Inr _, h1) \<Rightarrow> (Ok (), h1)
      | (Inl _, h1) \<Rightarrow> sh S prog (full_args r (if ir_insert r then ''-I'' else ''-A'')) h1)"

definition tables_delete :: "'h shell \<Rightarrow> string \<Rightarrow> ip6_rule \<Rightarrow> 'h \<Rightarrow> 'h" where
  "tables_delete S prog r h = sh_ignore S prog (full_args r ''-D'') h"

section \<open>Ensuring a bridge\<close>

fun apply_v6_rules ::
  "'h shell \<Rightarrow> string list \<Rightarrow> ip6_rule list \<Rightarrow> ip6_rule list \<Rightarrow> 'h step" where
  "apply_v6_rules S undo applied [] h = (Ok (), h)"
| "apply_v6_rules S undo applied (r # rs) h =
     (case tables_ensure S ''ip6tables'' r h of
        (Inr _, h1) \<Rightarrow> apply_v6_rules S undo (r # applied) rs h1
      | (Inl e, h1) \<Rightarrow>
          (Err e, sh_ignore S ''ip'' undo (foldl (\<lambda>g q. tables_delete S ''ip6tables'' q g) h1 applied)))"

definition v6_prefix :: "string \<Rightarrow> nat" where
  "v6_prefix subnet = (case v6_subnet_parse subnet of Inr s \<Rightarrow> prefix6 s | Inl _ \<Rightarrow> 64)"

text \<open>The same without the mask, for evaluation.\<close>

lemma v6_prefix_code [code]:
  "v6_prefix subnet = (case split_once (CHR ''/'') subnet of
     None \<Rightarrow> 64
   | Some (addr, p) \<Rightarrow>
       if parse_ipv6 addr = None \<or> CHR ''.'' \<in> set addr then 64
       else (case parse_u8 p of None \<Rightarrow> 64 | Some n \<Rightarrow> if 126 < n then 64 else n))"
  by (auto simp: v6_prefix_def v6_subnet_parse_def and_then_def ok_or_def split: option.splits prod.splits)

definition v4_prefix :: "string \<Rightarrow> nat" where
  "v4_prefix subnet = (case subnet_parse subnet of Inr s \<Rightarrow> sn_prefix s | Inl _ \<Rightarrow> 16)"

definition ensure_bridge_v6 :: "'h shell \<Rightarrow> network_record \<Rightarrow> 'h step" where
  "ensure_bridge_v6 S rec h =
     (if \<not> has_ipv6 rec then (Ok (), h)
      else
       (let addr = v6_bridge_addr (nr_gateway_v6 rec) (v6_prefix (nr_subnet_v6 rec));
            undo = [''-6'', ''addr'', ''del'', addr, ''dev'', nr_bridge rec];
            add = [''-6'', ''addr'', ''add'', addr, ''dev'', nr_bridge rec]
        in case run S ''ip'' add h of
             (Some msg, h1) \<Rightarrow>
               if contains_str ''exists'' msg
               then apply_v6_rules S undo [] (v6_network_rules rec) h1
               else (Err (Sh_Failed ''ip'' add msg), h1)
           | (None, h1) \<Rightarrow> apply_v6_rules S undo [] (v6_network_rules rec) h1))"

definition link_steps :: "'h shell \<Rightarrow> network_record \<Rightarrow> bool \<Rightarrow> 'h step list" where
  "link_steps S rec exists =
     (let b = nr_bridge rec in
      (if exists then []
       else [sh S ''ip'' [''link'', ''add'', b, ''type'', ''bridge''],
             sh S ''ip'' [''addr'', ''add'', nr_gateway rec @ ''/'' @ show_nat (v4_prefix (nr_subnet rec)),
                         ''dev'', b]])
      @ [sh S ''ip'' [''link'', ''set'', b, ''up'']])"

text \<open>The state is the set of bridges already ensured since the daemon started, and the host.\<close>

definition ensure_bridge ::
  "'h shell \<Rightarrow> network_record \<Rightarrow> string list \<times> 'h \<Rightarrow> (net_error, unit) result \<times> string list \<times> 'h" where
  "ensure_bridge S rec = (\<lambda>(ready, h).
     if nr_bridge rec \<in> set ready then (Ok (), ready, h)
     else (case sh S ''ip'' [''link'', ''show'', nr_bridge rec] h of (shown, h1) \<Rightarrow>
       (case run_steps (link_steps S rec (is_ok shown)
                @ map (tables_ensure S ''iptables'') (v4_network_rules rec)
                @ [ensure_bridge_v6 S rec]) h1 of
          (Inl e, h2) \<Rightarrow> (Err e, ready, h2)
        | (Inr _, h2) \<Rightarrow> (Ok (), nr_bridge rec # ready, h2))))"

definition drop_bridge_rules :: "'h shell \<Rightarrow> network_record \<Rightarrow> 'h \<Rightarrow> 'h" where
  "drop_bridge_rules S rec h =
     foldl (\<lambda>g r. tables_delete S ''ip6tables'' r g)
       (foldl (\<lambda>g r. tables_delete S ''iptables'' r g) h (v4_network_rules rec))
       (v6_network_rules rec)"

section \<open>Endpoint commands\<close>

definition endpoint_ifname :: "string \<Rightarrow> string \<Rightarrow> string" where
  "endpoint_ifname container_id net_id =
     ''veth-'' @ take (min 4 (length container_id)) container_id @ take (min 4 (length net_id)) net_id"

definition v6_endpoint_cmds ::
  "u128 \<Rightarrow> nat \<Rightarrow> string \<Rightarrow> string \<Rightarrow> nat \<Rightarrow> bool \<Rightarrow> string list list" where
  "v6_endpoint_cmds ipv6 p ifname gateway_v6 if_index internal =
     [[''ip'', ''-6'', ''addr'', ''add'', v6_bridge_addr (show_ipv6 ipv6) p, ''dev'', ifname]]
     @ (if if_index = 0 \<and> \<not> internal
        then [[''ip'', ''-6'', ''route'', ''add'', ''default'', ''via'', gateway_v6]] else [])"

definition drop_veth :: "'h shell \<Rightarrow> string \<Rightarrow> string \<Rightarrow> 'h \<Rightarrow> 'h" where
  "drop_veth S container_id net_id h =
     (let host_if = endpoint_ifname container_id net_id in
      case sh S ''ip'' [''link'', ''show'', host_if] h of
        (Inr _, h1) \<Rightarrow> sh_ignore S ''ip'' [''link'', ''del'', host_if] h1
      | (Inl _, h1) \<Rightarrow> sh_ignore S ''ip'' [''link'', ''del'',
          ''veth-'' @ take (min 8 (length container_id)) container_id] h1)"

section \<open>What the rules rely on\<close>

type_synonym fw_key = "string option \<times> string list"

definition rule_key :: "ip6_rule \<Rightarrow> fw_key" where
  "rule_key r = (ir_table r, ir_args r)"

text \<open>The documented behaviour of \<open>iptables\<close> and \<open>ip6tables\<close>, with \<open>fw h p\<close> the rules that
  program \<open>p\<close> has installed on host \<open>h\<close>: a check succeeds exactly for an installed rule and changes
  nothing, an insertion that succeeds installs one more copy and one that fails none, a deletion
  removes one copy of an installed rule. The program \<open>ip\<close> leaves the firewall alone.\<close>

definition check_law :: "'h shell \<Rightarrow> ('h \<Rightarrow> string \<Rightarrow> fw_key multiset) \<Rightarrow> bool" where
  "check_law S fw \<longleftrightarrow> (\<forall>h p r. p \<noteq> ''ip'' \<longrightarrow>
     (fst (run S p (full_args r ''-C'') h) = None \<longleftrightarrow> rule_key r \<in># fw h p)
     \<and> fw (snd (run S p (full_args r ''-C'') h)) = fw h)"

definition insert_law :: "'h shell \<Rightarrow> ('h \<Rightarrow> string \<Rightarrow> fw_key multiset) \<Rightarrow> bool" where
  "insert_law S fw \<longleftrightarrow> (\<forall>h p r op. p \<noteq> ''ip'' \<longrightarrow> op = ''-A'' \<or> op = ''-I'' \<longrightarrow>
     fw (snd (run S p (full_args r op) h)) =
       (if fst (run S p (full_args r op) h) = None
        then (fw h)(p := add_mset (rule_key r) (fw h p)) else fw h))"

definition delete_law :: "'h shell \<Rightarrow> ('h \<Rightarrow> string \<Rightarrow> fw_key multiset) \<Rightarrow> bool" where
  "delete_law S fw \<longleftrightarrow> (\<forall>h p r. p \<noteq> ''ip'' \<longrightarrow>
     fw (snd (run S p (full_args r ''-D'') h)) = (fw h)(p := fw h p - {#rule_key r#}))"

definition ip_law :: "'h shell \<Rightarrow> ('h \<Rightarrow> string \<Rightarrow> fw_key multiset) \<Rightarrow> bool" where
  "ip_law S fw \<longleftrightarrow> (\<forall>h args. fw (snd (run S ''ip'' args h)) = fw h)"

definition netfilter_laws :: "'h shell \<Rightarrow> ('h \<Rightarrow> string \<Rightarrow> fw_key multiset) \<Rightarrow> bool" where
  "netfilter_laws S fw \<longleftrightarrow> check_law S fw \<and> insert_law S fw \<and> delete_law S fw \<and> ip_law S fw"

section \<open>Installing and removing rules\<close>

definition add_missing :: "fw_key multiset \<Rightarrow> ip6_rule \<Rightarrow> fw_key multiset" where
  "add_missing m r = (if rule_key r \<in># m then m else add_mset (rule_key r) m)"

lemma sh_result: "fst (sh S c a h) = Ok () \<longleftrightarrow> fst (run S c a h) = None" "snd (sh S c a h) = snd (run S c a h)"
  by (auto simp: sh_def split: prod.splits option.splits)

lemma tables_ensure_fw:
  assumes laws: "netfilter_laws S fw" and p: "p \<noteq> ''ip''" and run: "tables_ensure S p r h = (res, h')"
  shows "fw h' = (if is_ok res then (fw h)(p := add_missing (fw h p) r) else fw h)"
proof -
  obtain r1 h1 where c: "sh S p (full_args r ''-C'') h = (r1, h1)"
    by (cases "sh S p (full_args r ''-C'') h")
  have c1: "r1 = Ok () \<longleftrightarrow> rule_key r \<in># fw h p" "fw h1 = fw h"
    using laws p sh_result [of S p "full_args r ''-C''" h]
    by (simp_all add: c netfilter_laws_def check_law_def)
  show ?thesis
  proof (cases r1)
    case (Inr u)
    then show ?thesis using run c c1 by (auto simp: tables_ensure_def add_missing_def)
  next
    case (Inl e)
    define op where "op = (if ir_insert r then ''-I'' else ''-A'')"
    have op: "op = ''-A'' \<or> op = ''-I''" by (auto simp: op_def)
    have "sh S p (full_args r op) h1 = (res, h')"
      using run c Inl by (simp add: tables_ensure_def op_def)
    then have a: "fst (run S p (full_args r op) h1) = None \<longleftrightarrow> is_ok res"
      "snd (run S p (full_args r op) h1) = h'"
      using sh_result [of S p "full_args r op" h1] by (auto simp: is_ok_iff)
    have "fw h' = (if is_ok res then (fw h1)(p := add_mset (rule_key r) (fw h1 p)) else fw h1)"
      using laws p op a unfolding netfilter_laws_def insert_law_def by metis
    then show ?thesis using c1 Inl by (simp add: add_missing_def)
  qed
qed

lemma tables_delete_fw:
  "netfilter_laws S fw \<Longrightarrow> p \<noteq> ''ip'' \<Longrightarrow>
   fw (tables_delete S p r h) = (fw h)(p := fw h p - {#rule_key r#})"
  by (simp add: tables_delete_def sh_ignore_def sh_result netfilter_laws_def delete_law_def)

lemma sh_ip_fw: "netfilter_laws S fw \<Longrightarrow> sh S ''ip'' a h = (res, h') \<Longrightarrow> fw h' = fw h"
  using sh_result(2) [of S "''ip''" a h] by (simp add: netfilter_laws_def ip_law_def)

lemma sh_ignore_ip_fw: "netfilter_laws S fw \<Longrightarrow> fw (sh_ignore S ''ip'' a h) = fw h"
  by (simp add: sh_ignore_def sh_result netfilter_laws_def ip_law_def)

lemma delete_all_fw:
  assumes "netfilter_laws S fw" "p \<noteq> ''ip''"
  shows "fw (foldl (\<lambda>g r. tables_delete S p r g) h rs) = (fw h)(p := fw h p - mset (map rule_key rs))"
  using assms by (induction rs arbitrary: h) (auto simp: tables_delete_fw fun_eq_iff)

lemma run_steps_append:
  "run_steps (xs @ ys) h =
     (case run_steps xs h of (Inl e, h') \<Rightarrow> (Err e, h') | (Inr _, h') \<Rightarrow> run_steps ys h')"
  by (induction xs arbitrary: h) (auto split: prod.splits sum.splits)

lemma run_steps_frame:
  assumes "run_steps fs h = (res, h')" "\<And>f g r g'. f \<in> set fs \<Longrightarrow> f g = (r, g') \<Longrightarrow> I g' = I g"
  shows "I h' = I h"
  using assms
proof (induction fs arbitrary: h)
  case (Cons f fs)
  obtain r1 h1 where f: "f h = (r1, h1)" by (cases "f h")
  then have "I h1 = I h" using Cons.prems(2) [of f h] by simp
  moreover have "I h' = I h1" if "run_steps fs h1 = (res, h')"
    using Cons.IH [OF that] Cons.prems(2) by (metis list.set_intros(2))
  ultimately show ?case
    using Cons.prems(1) f by (cases r1) auto
qed simp

lemma ensure_all_fw:
  assumes "netfilter_laws S fw" "p \<noteq> ''ip''" "run_steps (map (tables_ensure S p) rs) h = (Ok (), h')"
  shows "fw h' = (fw h)(p := foldl add_missing (fw h p) rs)"
  using assms(3)
proof (induction rs arbitrary: h)
  case (Cons r rs)
  obtain r1 h1 where r1: "tables_ensure S p r h = (r1, h1)" by (cases "tables_ensure S p r h")
  then show ?case
    using Cons tables_ensure_fw [OF assms(1,2) r1] by (cases r1) (auto simp: fun_eq_iff)
qed simp

lemma add_missing_fresh:
  assumes "distinct (map rule_key rs)" "\<And>r. r \<in> set rs \<Longrightarrow> rule_key r \<notin># m"
  shows "foldl add_missing m rs = m + mset (map rule_key rs)"
  using assms
proof (induction rs arbitrary: m)
  case (Cons r rs)
  have "foldl add_missing (add_mset (rule_key r) m) rs = add_mset (rule_key r) m + mset (map rule_key rs)"
  proof (rule Cons.IH)
    fix q
    assume "q \<in> set rs"
    with Cons.prems(1) have "rule_key q \<noteq> rule_key r" by (metis distinct.simps(2) image_eqI list.simps(9) set_map)
    with Cons.prems(2) \<open>q \<in> set rs\<close> show "rule_key q \<notin># add_mset (rule_key r) m" by simp
  qed (use Cons.prems(1) in simp)
  moreover have "add_missing m r = add_mset (rule_key r) m"
    using Cons.prems(2) by (simp add: add_missing_def)
  ultimately show ?case by simp
qed simp

lemma add_missing_mono: "k \<in># m \<Longrightarrow> k \<in># foldl add_missing m rs"
  by (induction rs arbitrary: m) (auto simp: add_missing_def)

lemma add_missing_has: "r \<in> set rs \<Longrightarrow> rule_key r \<in># foldl add_missing m rs"
proof (induction rs arbitrary: m)
  case (Cons q rs)
  have "rule_key q \<in># add_missing m q" by (simp add: add_missing_def)
  then show ?case using Cons add_missing_mono [of "rule_key q" "add_missing m q" rs] by auto
qed simp

lemma add_missing_present: "(\<And>r. r \<in> set rs \<Longrightarrow> rule_key r \<in># m) \<Longrightarrow> foldl add_missing m rs = m"
  by (induction rs) (auto simp: add_missing_def)

lemma network_rules_distinct:
  "distinct (map rule_key (v4_network_rules rec))" "distinct (map rule_key (v6_network_rules rec))"
  by (simp_all add: v4_network_rules_def v6_network_rules_def rule_key_def Let_def)

lemma apply_v6_rules_fw:
  assumes "netfilter_laws S fw" "apply_v6_rules S undo applied rs h = (res, h')"
  shows "fw h' ''iptables'' = fw h ''iptables''
    \<and> (is_ok res \<longrightarrow> fw h' ''ip6tables'' = foldl add_missing (fw h ''ip6tables'') rs)"
  using assms(2)
proof (induction rs arbitrary: applied h)
  case (Cons r rs)
  obtain r1 h1 where r1: "tables_ensure S ''ip6tables'' r h = (r1, h1)"
    by (cases "tables_ensure S ''ip6tables'' r h")
  have e: "fw h1 = (if is_ok r1 then (fw h)(''ip6tables'' := add_missing (fw h ''ip6tables'') r) else fw h)"
    by (rule tables_ensure_fw [OF assms(1) _ r1]) simp
  show ?case
  proof (cases r1)
    case (Inl e1)
    have "fw h' = (fw h)(''ip6tables'' := fw h ''ip6tables'' - mset (map rule_key applied))"
      using Cons.prems r1 Inl e assms(1)
      by (auto simp: sh_ignore_ip_fw delete_all_fw)
    moreover have "\<not> is_ok res" using Cons.prems r1 Inl by auto
    ultimately show ?thesis by simp
  next
    case (Inr u)
    then show ?thesis
      using Cons.IH [of "r # applied" h1] Cons.prems r1 e by simp
  qed
qed simp

lemma apply_v6_rules_rollback:
  assumes laws: "netfilter_laws S fw" and run: "apply_v6_rules S undo applied rs h = (Err e, h')"
    and "distinct (map rule_key rs)" "\<And>r. r \<in> set rs \<Longrightarrow> rule_key r \<notin># fw h ''ip6tables''"
  shows "fw h' = (fw h)(''ip6tables'' := fw h ''ip6tables'' - mset (map rule_key applied))"
  using run assms(3,4)
proof (induction rs arbitrary: applied h)
  case (Cons r rs)
  obtain r1 h1 where r1: "tables_ensure S ''ip6tables'' r h = (r1, h1)"
    by (cases "tables_ensure S ''ip6tables'' r h")
  have e: "fw h1 = (if is_ok r1 then (fw h)(''ip6tables'' := add_missing (fw h ''ip6tables'') r) else fw h)"
    by (rule tables_ensure_fw [OF laws _ r1]) simp
  show ?case
  proof (cases r1)
    case (Inl e1)
    then show ?thesis
      using Cons.prems(1) r1 e laws by (auto simp: sh_ignore_ip_fw delete_all_fw)
  next
    case (Inr u)
    then have fw1: "fw h1 = (fw h)(''ip6tables'' := add_mset (rule_key r) (fw h ''ip6tables''))"
      using e Cons.prems(3) by (simp add: add_missing_def)
    have "fw h' = (fw h1)(''ip6tables'' := fw h1 ''ip6tables'' - mset (map rule_key (r # applied)))"
    proof (rule Cons.IH)
      fix q
      assume q: "q \<in> set rs"
      then have "rule_key q \<noteq> rule_key r"
        using Cons.prems(2) by (metis distinct.simps(2) image_eqI list.simps(9) set_map)
      then show "rule_key q \<notin># fw h1 ''ip6tables''"
        using Cons.prems(3) q by (simp add: fw1)
    qed (use Cons.prems(1,2) r1 Inr in simp_all)
    then show ?thesis by (simp add: fw1)
  qed
qed simp

lemma ensure_bridge_v6_cases:
  assumes laws: "netfilter_laws S fw" and "ensure_bridge_v6 S rec h = (res, h')" "has_ipv6 rec"
  obtains (addr) e where "res = Err e" "fw h' = fw h"
  | (rules) undo h1 where "fw h1 = fw h" "apply_v6_rules S undo [] (v6_network_rules rec) h1 = (res, h')"
proof -
  define a where "a = v6_bridge_addr (nr_gateway_v6 rec) (v6_prefix (nr_subnet_v6 rec))"
  obtain m h1 where m: "run S ''ip'' [''-6'', ''addr'', ''add'', a, ''dev'', nr_bridge rec] h = (m, h1)"
    by fastforce
  have fw1: "fw h1 = fw h"
    using laws m by (metis ip_law_def netfilter_laws_def snd_conv)
  show thesis
  proof (cases "m = None \<or> contains_str ''exists'' (the m)")
    case True
    then show thesis
      using assms(2,3) m by (intro rules [OF fw1])
        (auto simp: ensure_bridge_v6_def Let_def a_def split: option.splits)
  next
    case False
    then show thesis
      using assms(2,3) m fw1
      by (intro addr [of "Sh_Failed ''ip'' [''-6'', ''addr'', ''add'', a, ''dev'', nr_bridge rec] (the m)"])
        (auto simp: ensure_bridge_v6_def Let_def a_def split: option.splits)
  qed
qed

lemma ensure_bridge_v6_fw:
  assumes laws: "netfilter_laws S fw" and "ensure_bridge_v6 S rec h = (res, h')"
  shows "fw h' ''iptables'' = fw h ''iptables''
    \<and> (is_ok res \<longrightarrow> fw h' ''ip6tables'' = foldl add_missing (fw h ''ip6tables'') (v6_network_rules rec))"
proof (cases "has_ipv6 rec")
  case False
  then show ?thesis using assms(2) by (auto simp: ensure_bridge_v6_def v6_network_rules_def)
next
  case True
  with laws assms(2) show ?thesis
  proof (cases rule: ensure_bridge_v6_cases)
    case (rules undo h1)
    then show ?thesis using apply_v6_rules_fw [OF laws rules(2)] by simp
  qed auto
qed

text \<open>When installing the IPv6 half of a new network fails at any command, no IPv6 rule of it
  stays behind, and the other rules of the host are as before.\<close>

theorem v6_half_rolled_back:
  assumes "netfilter_laws S fw" "ensure_bridge_v6 S rec h = (Err e, h')"
    and "\<And>r. r \<in> set (v6_network_rules rec) \<Longrightarrow> rule_key r \<notin># fw h ''ip6tables''"
  shows "fw h' = fw h"
proof (cases "has_ipv6 rec")
  case True
  with assms(1,2) show ?thesis
  proof (cases rule: ensure_bridge_v6_cases)
    case (rules undo h1)
    then show ?thesis
      using apply_v6_rules_rollback [OF assms(1) rules(2) network_rules_distinct(2)] assms(3) by simp
  qed simp
qed (use assms(2) in \<open>simp add: ensure_bridge_v6_def\<close>)

lemma link_steps_fw:
  assumes "netfilter_laws S fw" "run_steps (link_steps S rec b) h = (res, h')"
  shows "fw h' = fw h"
  using assms(2)
  by (rule run_steps_frame)
    (auto simp: link_steps_def Let_def split: if_splits dest: sh_ip_fw [OF assms(1)])

lemma ensure_bridge_fw:
  assumes laws: "netfilter_laws S fw" and "nr_bridge rec \<notin> set ready"
    and ok: "ensure_bridge S rec (ready, h) = (Ok (), ready', h')"
  shows "fw h' ''iptables'' = foldl add_missing (fw h ''iptables'') (v4_network_rules rec)
    \<and> fw h' ''ip6tables'' = foldl add_missing (fw h ''ip6tables'') (v6_network_rules rec)
    \<and> ready' = nr_bridge rec # ready"
proof -
  obtain r1 h1 where s1: "sh S ''ip'' [''link'', ''show'', nr_bridge rec] h = (r1, h1)" by fastforce
  obtain r2 h2 where s2: "run_steps (link_steps S rec (is_ok r1)) h1 = (r2, h2)" by fastforce
  obtain r3 h3 where s3: "run_steps (map (tables_ensure S ''iptables'') (v4_network_rules rec)) h2 = (r3, h3)"
    by fastforce
  obtain r4 h4 where s4: "ensure_bridge_v6 S rec h3 = (r4, h4)" by fastforce
  have all: "r2 = Ok () \<and> r3 = Ok () \<and> r4 = Ok () \<and> h4 = h' \<and> ready' = nr_bridge rec # ready"
    using ok assms(2) s1 s2 s3 s4
    by (auto simp: ensure_bridge_def run_steps_append split: sum.splits prod.splits)
  have "fw h2 = fw h"
    using sh_ip_fw [OF laws s1] link_steps_fw [OF laws s2] by simp
  moreover have "fw h3 = (fw h2)(''iptables'' := foldl add_missing (fw h2 ''iptables'') (v4_network_rules rec))"
    using ensure_all_fw [OF laws _ s3 [unfolded all [THEN conjunct2, THEN conjunct1]]] by simp
  ultimately show ?thesis
    using ensure_bridge_v6_fw [OF laws s4] all by simp
qed

definition network_fresh :: "('h \<Rightarrow> string \<Rightarrow> fw_key multiset) \<Rightarrow> network_record \<Rightarrow> 'h \<Rightarrow> bool" where
  "network_fresh fw rec h \<longleftrightarrow>
     (\<forall>r \<in> set (v4_network_rules rec). rule_key r \<notin># fw h ''iptables'')
     \<and> (\<forall>r \<in> set (v6_network_rules rec). rule_key r \<notin># fw h ''ip6tables'')"

text \<open>Claim C34: Ensuring the bridge of a new network installs each of its rules once, ensuring it again
  (after the cache of ready bridges was cleared) changes no rule, and removing the network's rules
  then restores the firewall exactly.\<close>

theorem bridge_rules_lifecycle:
  assumes laws: "netfilter_laws S fw" and fresh: "network_fresh fw rec h"
    and e1: "ensure_bridge S rec ([], h) = (Ok (), ready1, h1)"
    and e2: "ensure_bridge S rec ([], h1) = (Ok (), ready2, h2)"
  shows "fw h1 ''iptables'' = fw h ''iptables'' + mset (map rule_key (v4_network_rules rec))
    \<and> fw h1 ''ip6tables'' = fw h ''ip6tables'' + mset (map rule_key (v6_network_rules rec))
    \<and> fw h2 ''iptables'' = fw h1 ''iptables'' \<and> fw h2 ''ip6tables'' = fw h1 ''ip6tables''
    \<and> fw (drop_bridge_rules S rec h2) ''iptables'' = fw h ''iptables''
    \<and> fw (drop_bridge_rules S rec h2) ''ip6tables'' = fw h ''ip6tables''"
proof -
  have one: "fw h1 ''iptables'' = fw h ''iptables'' + mset (map rule_key (v4_network_rules rec))"
    "fw h1 ''ip6tables'' = fw h ''ip6tables'' + mset (map rule_key (v6_network_rules rec))"
    using ensure_bridge_fw [OF laws _ e1] fresh network_rules_distinct [of rec]
    by (simp_all add: network_fresh_def add_missing_fresh)
  have two: "fw h2 ''iptables'' = fw h1 ''iptables''" "fw h2 ''ip6tables'' = fw h1 ''ip6tables''"
    using ensure_bridge_fw [OF laws _ e2] one by (simp_all add: add_missing_present)
  have "fw (drop_bridge_rules S rec h2) =
      (fw h2)(''iptables'' := fw h2 ''iptables'' - mset (map rule_key (v4_network_rules rec)),
              ''ip6tables'' := fw h2 ''ip6tables'' - mset (map rule_key (v6_network_rules rec)))"
    using laws by (simp add: drop_bridge_rules_def delete_all_fw fun_eq_iff)
  with one two show ?thesis by simp
qed

text \<open>Both families of a dual-stack network have the same rules, up to the subnet.\<close>

lemma v6_rules_mirror_v4:
  assumes "has_ipv6 rec"
  shows "v6_network_rules rec = v4_network_rules (rec\<lparr>nr_subnet := nr_subnet_v6 rec\<rparr>)"
  using assms by (simp add: v6_network_rules_def v4_network_rules_def Let_def)

text \<open>An internal network gets no rule that lets traffic leave the bridge or translates it: the
  only accepting rule names the bridge on both sides, and both directions are dropped at the head.\<close>

lemma internal_network_contained:
  assumes "nr_internal rec" "r \<in> set (v4_network_rules rec) \<union> set (v6_network_rules rec)"
  shows "ir_table r = None \<and> (last (ir_args r) = ''DROP'' \<and> ir_insert r
      \<or> ir_args r = [''FORWARD'', ''-i'', nr_bridge rec, ''-o'', nr_bridge rec, ''-j'', ''ACCEPT''])"
  using assms by (auto simp: v4_network_rules_def v6_network_rules_def Let_def split: if_splits)

section \<open>A concrete firewall\<close>

definition decode_args :: "string list \<Rightarrow> string \<times> fw_key" where
  "decode_args args = (case args of
     [] \<Rightarrow> ([], (None, []))
   | x # xs \<Rightarrow> if x = ''-t'' then (case xs of n # act # rest \<Rightarrow> (act, (Some n, rest)) | _ \<Rightarrow> ([], (None, [])))
       else (x, (None, xs)))"

definition table_shell :: "(string \<times> fw_key \<Rightarrow> bool) \<Rightarrow> (string \<times> fw_key) list shell" where
  "table_shell full = \<lparr>run = (\<lambda>p args h.
     if p = ''ip'' then (None, h)
     else case decode_args args of (act, k) \<Rightarrow>
       if act = ''-C'' then (if (p, k) \<in> set h then None else Some ''Bad rule'', h)
       else if act = ''-A'' \<or> act = ''-I'' then (if full (p, k) then (Some ''failed'', h) else (None, (p, k) # h))
       else if act = ''-D'' then (if (p, k) \<in> set h then None else Some ''Bad rule'', remove1 (p, k) h)
       else (None, h))\<rparr>"

definition table_fw :: "(string \<times> fw_key) list \<Rightarrow> string \<Rightarrow> fw_key multiset" where
  "table_fw h p = mset (map snd (filter (\<lambda>x. fst x = p) h))"

lemma decode_full_args: "op \<noteq> ''-t'' \<Longrightarrow> decode_args (full_args r op) = (op, rule_key r)"
  by (auto simp: decode_args_def full_args_def table_args_def rule_key_def split: option.splits)

lemma in_table_fw: "k \<in># table_fw h p \<longleftrightarrow> (p, k) \<in> set h"
  by (force simp: table_fw_def)

lemma table_fw_Cons:
  "table_fw (x # h) q = (if fst x = q then add_mset (snd x) (table_fw h q) else table_fw h q)"
  by (simp add: table_fw_def)

lemma table_fw_remove1: "table_fw (remove1 (p, k) h) = (table_fw h)(p := table_fw h p - {#k#})"
proof (induction h)
  case Nil
  then show ?case by (simp add: fun_eq_iff table_fw_def)
next
  case (Cons x h)
  then show ?case
    by (cases x) (auto simp: fun_eq_iff table_fw_Cons)
qed

lemma table_shell_laws: "netfilter_laws (table_shell full) table_fw"
proof -
  have "check_law (table_shell full) table_fw"
    by (auto simp: check_law_def table_shell_def decode_full_args in_table_fw)
  moreover have "insert_law (table_shell full) table_fw"
    by (auto simp: insert_law_def table_shell_def decode_full_args table_fw_def fun_eq_iff)
  moreover have "delete_law (table_shell full) table_fw"
    by (auto simp: delete_law_def table_shell_def decode_full_args table_fw_remove1)
  moreover have "ip_law (table_shell full) table_fw"
    by (simp add: ip_law_def table_shell_def)
  ultimately show ?thesis by (simp add: netfilter_laws_def)
qed

definition demo_net :: network_record where
  "demo_net = \<lparr>nr_id = ''n1'', nr_name = ''app'', nr_driver = ''bridge'', nr_bridge = ''br-1'',
     nr_subnet = ''172.18.0.0/16'', nr_gateway = ''172.18.0.1'', nr_subnet_v6 = ''fd00:dead:beef:3::/64'',
     nr_gateway_v6 = ''fd00:dead:beef:3::1'', nr_created = [], nr_internal = False, nr_attachable = False,
     nr_options = [], nr_labels = []\<rparr>"

definition demo_shell :: "(string \<times> fw_key) list shell" where
  "demo_shell = table_shell (\<lambda>_. False)"

definition demo_up :: "(string \<times> fw_key) list" where
  "demo_up = snd (snd (ensure_bridge demo_shell demo_net ([], [])))"

theorem bridge_rules_lifecycle_witness:
  "table_fw (drop_bridge_rules demo_shell demo_net demo_up) ''iptables'' = {#} \<and> length demo_up = 6"
proof -
  have e1: "ensure_bridge demo_shell demo_net ([], []) = (Ok (), [''br-1''], demo_up)"
    by code_simp
  have e2: "ensure_bridge demo_shell demo_net ([], demo_up) = (Ok (), [''br-1''], demo_up)"
    by code_simp
  have "network_fresh table_fw demo_net []"
    by (simp add: network_fresh_def table_fw_def)
  then have "table_fw (drop_bridge_rules demo_shell demo_net demo_up) ''iptables'' = {#}"
    using bridge_rules_lifecycle [OF _ _ e1 e2, of table_fw] table_shell_laws
    by (simp add: demo_shell_def table_fw_def)
  moreover have "length demo_up = 6" by code_simp
  ultimately show ?thesis by simp
qed

definition half_shell :: "(string \<times> fw_key) list shell" where
  "half_shell = table_shell (\<lambda>(p, k). p = ''ip6tables'' \<and> snd k = [''FORWARD'', ''-o'', ''br-1'', ''-j'', ''ACCEPT''])"

theorem v6_half_rolled_back_witness:
  "table_fw (snd (ensure_bridge_v6 half_shell demo_net [])) = table_fw []
   \<and> \<not> is_ok (fst (ensure_bridge_v6 half_shell demo_net []))"
proof -
  have no: "\<not> is_ok (fst (ensure_bridge_v6 half_shell demo_net []))"
    by code_simp
  then obtain e h' where e: "ensure_bridge_v6 half_shell demo_net [] = (Err e, h')"
    by (cases "ensure_bridge_v6 half_shell demo_net []"; cases "fst (ensure_bridge_v6 half_shell demo_net [])")
      auto
  have "table_fw h' = table_fw []"
    using v6_half_rolled_back [OF _ e, of table_fw] table_shell_laws
    by (simp add: half_shell_def table_fw_def)
  with e no show ?thesis by simp
qed

text \<open>The rollback also deletes rules that an earlier run had installed: with the first two
  rules present and the third failing, ensuring the bridge again removes both.\<close>

theorem v6_rollback_deletes_older_rules:
  "let h = take 2 (filter (\<lambda>x. fst x = ''ip6tables'') (rev demo_up)) in
   length h = 2 \<and> snd (ensure_bridge_v6 half_shell demo_net h) = []"
  by code_simp

text \<open>The name of the host interface uses four characters of each id: two containers whose ids
  share them get the same name on a network, and detaching one deletes the other's interface.\<close>

theorem endpoint_ifname_collides:
  assumes "take 4 c = take 4 c'" "take 4 n = take 4 n'" "4 \<le> length c" "4 \<le> length c'" "4 \<le> length n" "4 \<le> length n'"
  shows "endpoint_ifname c n = endpoint_ifname c' n'"
  using assms by (simp add: endpoint_ifname_def)

text \<open>With ids of at least four characters the name and its \<open>-p\<close> peer fit the kernel's limit of
  15 characters.\<close>

lemma endpoint_ifname_length:
  "length (endpoint_ifname c n) \<le> 13" "length (endpoint_ifname c n @ ''-p'') \<le> 15"
  by (simp_all add: endpoint_ifname_def)

end
