(* ===== verification/Network_Manager.thy ===== *)
theory Network_Manager
  imports Bridge_Rules
begin

text \<open>
  The network manager of \<open>crates/network/src/lib.rs\<close>: networks and their creation, the carving of
  IPv6 ranges, the registries of the embedded DNS servers, attaching, rewiring and detaching
  endpoints, and the boot of the daemon. The state keeps the in-memory tables, the saved network
  records, the lease table of \<open>Ipam\<close> and the host on which commands run.

  Parameters are the shell of \<open>Bridge_Rules\<close>, whether a lease table or a record can be written,
  which gateways the DNS server can bind, and the random ids and the clock.
\<close>

section \<open>State\<close>

type_synonym registry = "(string, string) assoc"

record ipv6_config =
  v6_enabled :: bool
  v6_pool :: string

record 'h net_state =
  networks :: "(string, network_record) assoc"
  network_files :: "(string, network_record) assoc"
  leases :: ipam
  dns :: "(string, registry) assoc"
  dns6 :: "(string, registry) assoc"
  dns_search :: "(string, (string, string list) assoc) assoc"
  dns_tasks :: "(string, string) assoc"
  v6_by_v4 :: "(string \<times> string, string) assoc"
  ipv6 :: ipv6_config
  bridges_ready :: "string list"
  host :: 'h

record 'h net_env =
  shell_of :: "'h shell"
  lease_ok :: bool
  save_ok :: "network_record \<Rightarrow> bool"
  dns_bind_ok :: "string \<Rightarrow> bool"

definition DEFAULT_FIXED_CIDR_V6 :: string where
  "DEFAULT_FIXED_CIDR_V6 = ''fd00:dead:beef::/48''"

definition net_new :: "ipam_leases option \<Rightarrow> 'h \<Rightarrow> 'h net_state" where
  "net_new file h = \<lparr>networks = [], network_files = [], leases = ipam_new file, dns = [], dns6 = [],
     dns_search = [], dns_tasks = [], v6_by_v4 = [],
     ipv6 = \<lparr>v6_enabled = False, v6_pool = DEFAULT_FIXED_CIDR_V6\<rparr>, bridges_ready = [], host = h\<rparr>"

type_synonym ('h, 'a) net_op = "'h net_state \<Rightarrow> (net_error, 'a) result \<times> 'h net_state"

definition at_host :: "('h \<Rightarrow> 'h) \<Rightarrow> 'h net_state \<Rightarrow> 'h net_state" where
  "at_host f s = s\<lparr>host := f (host s)\<rparr>"

section \<open>IPv6 ranges\<close>

definition fnv1a64 :: "string \<Rightarrow> u64" where
  "fnv1a64 s = foldl (\<lambda>h b. (h XOR word_of_nat (of_char b)) * 0x100000001b3) 0xcbf29ce484222325 s"

definition cidr6 :: "v6_subnet \<Rightarrow> string" where
  "cidr6 s = show_ipv6 (network6 s) @ ''/'' @ show_nat (prefix6 s)"

definition slot_network :: "u128 \<Rightarrow> nat \<Rightarrow> u128" where
  "slot_network pool idx = pool OR push_bit 64 (word_of_nat idx)"

function probe_slots :: "nat \<Rightarrow> nat \<Rightarrow> nat \<Rightarrow> (nat \<Rightarrow> bool) \<Rightarrow> nat option" where
  "probe_slots capacity start step free =
     (let idx = (start + step) mod capacity in
      if free idx then Some idx
      else if capacity \<le> step + 1 then None
      else probe_slots capacity start (step + 1) free)"
  by pat_completeness auto
termination by (relation "measure (\<lambda>(capacity, start, step, free). capacity - step)") auto

declare probe_slots.simps [simp del]

definition used_networks :: "string list \<Rightarrow> u128 list" where
  "used_networks existing =
     concat (map (\<lambda>c. case v6_subnet_parse c of Inl _ \<Rightarrow> [] | Inr s \<Rightarrow> [network6 s]) existing)"

definition assign_v6_subnet ::
  "string \<Rightarrow> string \<Rightarrow> string list \<Rightarrow> (net_error, string \<times> string) result" where
  "assign_v6_subnet pool net_id existing =
     (case v6_subnet_parse pool of
        Inl e \<Rightarrow> Err (Invalid_V6_Pool pool)
      | Inr ps \<Rightarrow>
         if 64 < prefix6 ps then Err (Invalid_V6_Pool pool)
         else (let used = used_networks existing;
                   capacity = 2 ^ (64 - prefix6 ps);
                   start = unat (fnv1a64 net_id) mod capacity
               in case probe_slots capacity start 0 (\<lambda>i. slot_network (network6 ps) i \<notin> set used) of
                    None \<Rightarrow> Err V6_Pools_Exhausted
                  | Some idx \<Rightarrow>
                     (let sub = \<lparr>network6 = slot_network (network6 ps) idx, prefix6 = 64\<rparr>
                      in Ok (cidr6 sub, show_ipv6 (default_gateway_v6 sub)))))"

definition set_ipv6_config :: "bool \<Rightarrow> string \<Rightarrow> ('h, unit) net_op" where
  "set_ipv6_config enabled pool s =
     (case v6_subnet_parse pool of
        Inl e \<Rightarrow> (Err (Invalid_V6_Pool pool), s)
      | Inr ps \<Rightarrow>
         if 64 < prefix6 ps then (Err (Invalid_V6_Pool pool), s)
         else (Ok (), s\<lparr>ipv6 := \<lparr>v6_enabled = enabled, v6_pool = cidr6 ps\<rparr>, bridges_ready := []\<rparr>))"

section \<open>Networks\<close>

definition net_records :: "'h net_state \<Rightarrow> network_record list" where
  "net_records s = map snd (networks s)"

definition by_name :: "string \<Rightarrow> 'h net_state \<Rightarrow> network_record option" where
  "by_name name s = find (\<lambda>n. nr_name n = name) (net_records s)"

definition net_get :: "string \<Rightarrow> 'h net_state \<Rightarrow> network_record option" where
  "net_get key s = find (\<lambda>n. nr_id n = key \<or> nr_name n = key) (net_records s)"

definition resolve :: "string \<Rightarrow> 'h net_state \<Rightarrow> (net_error, network_record) result" where
  "resolve key s = (case net_get key s of
     Some n \<Rightarrow> Ok n
   | None \<Rightarrow>
       if key = [] \<or> key = ''default'' \<or> key = ''bridge''
       then ok_or Bridge_Missing (by_name ''bridge'' s)
       else Err (Network_Not_Found key))"

definition save_network :: "'h net_env \<Rightarrow> network_record \<Rightarrow> ('h, unit) net_op" where
  "save_network E rec s =
     (let s1 = s\<lparr>networks := assoc_put (networks s) (nr_id rec) rec\<rparr> in
      if save_ok E rec then (Ok (), s1\<lparr>network_files := assoc_put (network_files s1) (nr_id rec) rec\<rparr>)
      else (Err Save_Failed, s1))"

definition ensure_net_bridge :: "'h net_env \<Rightarrow> network_record \<Rightarrow> ('h, unit) net_op" where
  "ensure_net_bridge E rec s =
     (case ensure_bridge (shell_of E) rec (bridges_ready s, host s) of
        (res, ready, h) \<Rightarrow> (res, s\<lparr>bridges_ready := ready, host := h\<rparr>))"

fun first_overlap :: "subnet \<Rightarrow> network_record list \<Rightarrow> network_record option" where
  "first_overlap p [] = None"
| "first_overlap p (n # ns) = (case subnet_parse (nr_subnet n) of
     Inr q \<Rightarrow> if overlaps p q then Some n else first_overlap p ns
   | Inl _ \<Rightarrow> first_overlap p ns)"

definition validate_create_params ::
  "string \<Rightarrow> string option \<Rightarrow> network_record list \<Rightarrow> (net_error, string \<times> string) result" where
  "validate_create_params subnet gateway existing =
     (case subnet_parse subnet of
        Inl e \<Rightarrow> Err (Ipam_Error e)
      | Inr parsed \<Rightarrow>
         and_then
           (case gateway of
              Some g \<Rightarrow>
                (case parse_ipv4 g of
                   None \<Rightarrow> Err (Invalid_Gateway g)
                 | Some gip \<Rightarrow> if \<not> contains parsed gip then Err (Gateway_Outside g) else Ok g)
            | None \<Rightarrow> Ok (show_ipv4 (default_gateway parsed)))
           (\<lambda>gw. case first_overlap parsed existing of
              Some n \<Rightarrow> Err (Subnet_Overlaps (nr_name n))
            | None \<Rightarrow> Ok (cidr parsed, gw)))"

definition pool_candidate :: "nat \<Rightarrow> string" where
  "pool_candidate b = ''172.'' @ show_nat b @ ''.0.0/16''"

definition pool_free :: "network_record list \<Rightarrow> nat \<Rightarrow> bool" where
  "pool_free nets b = (case subnet_parse (pool_candidate b) of
     Inl _ \<Rightarrow> False | Inr c \<Rightarrow> first_overlap c nets = None)"

definition default_pool :: "network_record list \<Rightarrow> (net_error, string \<times> string) result" where
  "default_pool nets = (case find (pool_free nets) [18..<32] of
     None \<Rightarrow> Err Pools_Exhausted
   | Some b \<Rightarrow> Ok (pool_candidate b, ''172.'' @ show_nat b @ ''.0.1''))"

definition existing_v6 :: "'h net_state \<Rightarrow> string list" where
  "existing_v6 s = filter (\<lambda>c. c \<noteq> []) (map nr_subnet_v6 (net_records s))"

record create_request =
  cq_name :: string
  cq_driver :: string
  cq_internal :: bool
  cq_subnet :: "string option"
  cq_gateway :: "string option"
  cq_labels :: "(string, string) assoc"
  cq_options :: "(string, string) assoc"

text \<open>The part of \<open>create_network\<close> before any side effect: checks, ranges, the record.\<close>

definition create_plan ::
  "create_request \<Rightarrow> string \<Rightarrow> string \<Rightarrow> string \<Rightarrow> 'h net_state \<Rightarrow> (net_error, network_record) result" where
  "create_plan q bridge_id new_id now s =
     (if cq_driver q \<noteq> ''bridge'' \<and> cq_driver q \<noteq> [] then Err (Driver_Unsupported (cq_driver q))
      else if by_name (cq_name q) s \<noteq> None then Err (Name_Exists (cq_name q))
      else and_then
        (case cq_subnet q of
           Some c \<Rightarrow> validate_create_params c (cq_gateway q) (net_records s)
         | None \<Rightarrow> default_pool (net_records s)) (\<lambda>(subnet, gateway).
        and_then
        (if v6_enabled (ipv6 s) then assign_v6_subnet (v6_pool (ipv6 s)) new_id (existing_v6 s) else Ok ([], []))
        (\<lambda>(subnet_v6, gateway_v6).
          Ok \<lparr>nr_id = new_id, nr_name = cq_name q, nr_driver = ''bridge'',
              nr_bridge = ''br-'' @ take 12 bridge_id, nr_subnet = subnet, nr_gateway = gateway,
              nr_subnet_v6 = subnet_v6, nr_gateway_v6 = gateway_v6, nr_created = now,
              nr_internal = cq_internal q, nr_attachable = False, nr_options = cq_options q,
              nr_labels = cq_labels q\<rparr>)))"

definition reg_of :: "(string, ('k, 'v) assoc) assoc \<Rightarrow> string \<Rightarrow> ('k, 'v) assoc" where
  "reg_of m n = (case assoc_get m n of None \<Rightarrow> [] | Some r \<Rightarrow> r)"

definition touch_reg :: "string \<Rightarrow> (string, ('k, 'v) assoc) assoc \<Rightarrow> (string, ('k, 'v) assoc) assoc" where
  "touch_reg n m = (if has_key m n then m else assoc_put m n [])"

definition ensure_dns :: "'h net_env \<Rightarrow> network_record \<Rightarrow> 'h net_state \<Rightarrow> 'h net_state" where
  "ensure_dns E rec s =
     (case parse_ipv4 (nr_gateway rec) of
        None \<Rightarrow> s
      | Some _ \<Rightarrow>
         (let i = nr_id rec;
              s1 = s\<lparr>dns_tasks := assoc_del (dns_tasks s) i, dns := touch_reg i (dns s),
                     dns6 := touch_reg i (dns6 s), dns_search := touch_reg i (dns_search s)\<rparr>
          in if dns_bind_ok E (nr_gateway rec)
             then s1\<lparr>dns_tasks := assoc_put (dns_tasks s1) i (nr_gateway rec)\<rparr> else s1))"

definition create_apply :: "'h net_env \<Rightarrow> network_record \<Rightarrow> ('h, network_record) net_op" where
  "create_apply E rec s =
     (case ensure_net_bridge E rec s of
        (Inl e, s1) \<Rightarrow> (Err e, s1)
      | (Inr _, s1) \<Rightarrow>
         (case save_network E rec s1 of
            (Inl e, s2) \<Rightarrow> (Err e, s2)
          | (Inr _, s2) \<Rightarrow> (Ok rec, ensure_dns E rec s2)))"

definition create_network ::
  "'h net_env \<Rightarrow> create_request \<Rightarrow> string \<Rightarrow> string \<Rightarrow> string \<Rightarrow> ('h, network_record) net_op" where
  "create_network E q bridge_id new_id now s =
     (case create_plan q bridge_id new_id now s of
        Inl e \<Rightarrow> (Err e, s)
      | Inr rec \<Rightarrow> create_apply E rec s)"

definition remove_network :: "'h net_env \<Rightarrow> string \<Rightarrow> ('h, unit) net_op" where
  "remove_network E key s =
     (case net_get key s of
        None \<Rightarrow> (Err (Network_Not_Found key), s)
      | Some rec \<Rightarrow>
         if nr_name rec = ''bridge'' then (Err Predefined_Network, s)
         else (let i = nr_id rec;
                   h1 = sh_ignore (shell_of E) ''ip'' [''link'', ''del'', nr_bridge rec] (host s);
                   h2 = drop_bridge_rules (shell_of E) rec h1
               in (Ok (), s\<lparr>host := h2, networks := assoc_del (networks s) i,
                     dns_tasks := assoc_del (dns_tasks s) i, dns := assoc_del (dns s) i,
                     dns6 := assoc_del (dns6 s) i, dns_search := assoc_del (dns_search s) i,
                     network_files := assoc_del (network_files s) i,
                     leases := reset_bucket (lease_ok E) i (leases s),
                     v6_by_v4 := filter (\<lambda>((nid, _), _). nid \<noteq> i) (v6_by_v4 s)\<rparr>)))"

section \<open>Endpoints\<close>

record attach_request =
  ar_container_id :: string
  ar_container_name :: string
  ar_hostname :: string
  ar_network :: string
  ar_pid :: nat
  ar_aliases :: "string list"
  ar_dns_search :: "string list"
  ar_requested_ip :: "string option"
  ar_if_index :: nat

record endpoint_allocation =
  ea_network_id :: string
  ea_network_name :: string
  ea_ip :: string
  ea_gateway :: string
  ea_ipv6 :: string
  ea_mac :: string
  ea_aliases :: "string list"

definition ascii_lower :: "string \<Rightarrow> string" where
  "ascii_lower s = map to_lower s"

definition wire_steps ::
  "'h shell \<Rightarrow> network_record \<Rightarrow> attach_request \<Rightarrow> u32 \<Rightarrow> nat \<Rightarrow> u128 option \<Rightarrow> 'h step list" where
  "wire_steps S net req ip p v6 =
     (let host_if = endpoint_ifname (ar_container_id req) (nr_id net);
          peer = host_if @ ''-p'';
          ifname = ''eth'' @ show_nat (ar_if_index req);
          enter = (\<lambda>args. sh S ''nsenter'' ((''--net=/proc/'' @ show_nat (ar_pid req) @ ''/ns/net'') # args))
      in [sh S ''ip'' [''link'', ''add'', host_if, ''type'', ''veth'', ''peer'', ''name'', peer],
          sh S ''ip'' [''link'', ''set'', host_if, ''master'', nr_bridge net],
          sh S ''ip'' [''link'', ''set'', host_if, ''up''],
          sh S ''ip'' [''link'', ''set'', peer, ''netns'', show_nat (ar_pid req)],
          enter [''ip'', ''link'', ''set'', peer, ''name'', ifname],
          enter [''ip'', ''addr'', ''add'', show_ipv4 ip @ ''/'' @ show_nat p, ''dev'', ifname],
          enter [''ip'', ''link'', ''set'', ifname, ''up''],
          enter [''ip'', ''link'', ''set'', ''lo'', ''up'']]
         @ (if ar_if_index req = 0
            then [enter [''ip'', ''route'', ''add'', ''default'', ''via'', nr_gateway net]] else [])
         @ (case v6 of
              None \<Rightarrow> []
            | Some a \<Rightarrow> map enter (v6_endpoint_cmds a (v6_prefix (nr_subnet_v6 net)) ifname
                                   (nr_gateway_v6 net) (ar_if_index req) (nr_internal net))))"

definition dns_keys :: "attach_request \<Rightarrow> string list" where
  "dns_keys req = ar_container_name req # ar_hostname req # ar_aliases req"

text \<open>Registering names: each key, lower-cased, points at the address from now on.\<close>

fun put_names :: "string list \<Rightarrow> string \<Rightarrow> registry \<Rightarrow> registry" where
  "put_names [] ip reg = reg"
| "put_names (k # ks) ip reg = put_names ks ip (assoc_put reg (ascii_lower k) ip)"

definition register_names ::
  "string \<Rightarrow> string list \<Rightarrow> string \<Rightarrow> (string, registry) assoc \<Rightarrow> (string, registry) assoc" where
  "register_names n keys ip m = assoc_put m n (put_names keys ip (reg_of m n))"

definition register_endpoint ::
  "network_record \<Rightarrow> attach_request \<Rightarrow> string \<Rightarrow> string \<Rightarrow> 'h net_state \<Rightarrow> 'h net_state" where
  "register_endpoint net req ip v6 s =
     (let i = nr_id net;
          s1 = s\<lparr>dns := register_names i (dns_keys req) ip (dns s)\<rparr>;
          s2 = (if v6 = [] then s1
                else s1\<lparr>dns6 := register_names i (dns_keys req) v6 (dns6 s1),
                        v6_by_v4 := assoc_put (v6_by_v4 s1) (i, ip) v6\<rparr>)
      in if ar_dns_search req = [] then s2
         else (let m = assoc_put (reg_of (dns_search s2) i) ip (ar_dns_search req);
                   m' = (if v6 = [] then m else assoc_put m v6 (ar_dns_search req))
               in s2\<lparr>dns_search := assoc_put (dns_search s2) i m'\<rparr>))"

definition v6_text :: "u128 option \<Rightarrow> string" where
  "v6_text v6 = (case v6 of None \<Rightarrow> [] | Some a \<Rightarrow> show_ipv6 a)"

definition wire ::
  "'h net_env \<Rightarrow> network_record \<Rightarrow> attach_request \<Rightarrow> u32 \<Rightarrow> nat \<Rightarrow> u128 option
    \<Rightarrow> ('h, endpoint_allocation) net_op" where
  "wire E net req ip p v6 s =
     (case run_steps (wire_steps (shell_of E) net req ip p v6) (host s) of
        (Inl e, h) \<Rightarrow>
          (Err e, s\<lparr>host := sh_ignore (shell_of E) ''ip''
                     [''link'', ''del'', endpoint_ifname (ar_container_id req) (nr_id net)] h\<rparr>)
      | (Inr _, h) \<Rightarrow>
          (Ok \<lparr>ea_network_id = nr_id net, ea_network_name = nr_name net, ea_ip = show_ipv4 ip,
               ea_gateway = nr_gateway net, ea_ipv6 = v6_text v6, ea_mac = [],
               ea_aliases = ar_aliases req\<rparr>,
           register_endpoint net req (show_ipv4 ip) (v6_text v6) (s\<lparr>host := h\<rparr>)))"

definition lift_ipam ::
  "(ipam \<Rightarrow> (ipam_error, 'a) result \<times> ipam) \<Rightarrow> ('h, 'a) net_op" where
  "lift_ipam f s = (case f (leases s) of
     (Inl e, l) \<Rightarrow> (Err (Ipam_Error e), s\<lparr>leases := l\<rparr>)
   | (Inr a, l) \<Rightarrow> (Ok a, s\<lparr>leases := l\<rparr>))"

definition lease_v4 :: "'h net_env \<Rightarrow> network_record \<Rightarrow> attach_request \<Rightarrow> ('h, u32) net_op" where
  "lease_v4 E net req =
     (case (case ar_requested_ip req of Some w \<Rightarrow> if w = [] then None else Some w | None \<Rightarrow> None) of
        Some want \<Rightarrow> lift_ipam (reserve (lease_ok E) (nr_id net) (nr_subnet net) (nr_gateway net) want)
      | None \<Rightarrow> lift_ipam (allocate (lease_ok E) (nr_id net) (nr_subnet net) (nr_gateway net)))"

definition lease_v6 :: "'h net_env \<Rightarrow> network_record \<Rightarrow> ('h, u128 option) net_op" where
  "lease_v6 E net s =
     (if has_ipv6 net
      then case lift_ipam (allocate_v6 (lease_ok E) (nr_id net) (nr_subnet_v6 net) (nr_gateway_v6 net)) s of
             (Inl e, s1) \<Rightarrow> (Err e, s1)
           | (Inr a, s1) \<Rightarrow> (Ok (Some a), s1)
      else (Ok None, s))"

definition release_lease_v6 :: "'h net_env \<Rightarrow> string \<Rightarrow> u128 option \<Rightarrow> 'h net_state \<Rightarrow> 'h net_state" where
  "release_lease_v6 E n v6 s = (case v6 of
     None \<Rightarrow> s | Some a \<Rightarrow> s\<lparr>leases := release_v6 (lease_ok E) n (show_ipv6 a) (leases s)\<rparr>)"

definition attach :: "'h net_env \<Rightarrow> attach_request \<Rightarrow> ('h, endpoint_allocation) net_op" where
  "attach E req s =
     (case resolve (ar_network req) s of Inl e \<Rightarrow> (Err e, s) | Inr net \<Rightarrow>
      (case ensure_net_bridge E net s of (Inl e, s1) \<Rightarrow> (Err e, s1) | (Inr _, s1) \<Rightarrow>
       (case lease_v4 E net req s1 of (Inl e, s2) \<Rightarrow> (Err e, s2) | (Inr ip, s2) \<Rightarrow>
        (case lease_v6 E net s2 of (Inl e, s3) \<Rightarrow> (Err e, s3) | (Inr v6, s3) \<Rightarrow>
         (case wire E net req ip (v4_prefix (nr_subnet net)) v6 s3 of
            (Inr ep, s4) \<Rightarrow> (Ok ep, s4)
          | (Inl e, s4) \<Rightarrow>
              (Err e, release_lease_v6 E (nr_id net) v6
                (s4\<lparr>leases := release (lease_ok E) (nr_id net) (show_ipv4 ip) (leases s4)\<rparr>)))))))"

definition rewire :: "'h net_env \<Rightarrow> string \<Rightarrow> attach_request \<Rightarrow> u32 \<Rightarrow> ('h, endpoint_allocation) net_op" where
  "rewire E key req ip s =
     (case resolve key s of Inl e \<Rightarrow> (Err e, s) | Inr net \<Rightarrow>
      (case ensure_net_bridge E net s of (Inl e, s1) \<Rightarrow> (Err e, s1) | (Inr _, s1) \<Rightarrow>
       (case lease_v6 E net s1 of (Inl e, s2) \<Rightarrow> (Err e, s2) | (Inr v6, s2) \<Rightarrow>
        (case wire E net req ip (v4_prefix (nr_subnet net)) v6 s2 of
           (Inr ep, s3) \<Rightarrow> (Ok ep, s3)
         | (Inl e, s3) \<Rightarrow> (Err e, release_lease_v6 E (nr_id net) v6 s3)))))"

definition unwire :: "'h net_env \<Rightarrow> string \<Rightarrow> string \<Rightarrow> 'h net_state \<Rightarrow> 'h net_state" where
  "unwire E net_id container_id s = at_host (drop_veth (shell_of E) container_id net_id) s"

definition register_dns :: "string \<Rightarrow> string list \<Rightarrow> string \<Rightarrow> 'h net_state \<Rightarrow> 'h net_state" where
  "register_dns net_id keys ip s = s\<lparr>dns := register_names net_id keys ip (dns s)\<rparr>"

text \<open>Deregistering: a key goes only while it still points at the released address.\<close>

fun scrub :: "string list \<Rightarrow> string \<Rightarrow> registry \<Rightarrow> registry" where
  "scrub [] want reg = reg"
| "scrub (k # ks) want reg =
     scrub ks want (if assoc_get reg (ascii_lower k) = Some want then assoc_del reg (ascii_lower k) else reg)"

definition scrub_network ::
  "string \<Rightarrow> string list \<Rightarrow> string \<Rightarrow> (string, registry) assoc \<Rightarrow> (string, registry) assoc" where
  "scrub_network n keys want m = (case assoc_get m n of
     None \<Rightarrow> m | Some reg \<Rightarrow> assoc_put m n (scrub keys want reg))"

definition forget_search ::
  "string \<Rightarrow> string list \<Rightarrow> (string, (string, string list) assoc) assoc
    \<Rightarrow> (string, (string, string list) assoc) assoc" where
  "forget_search n ips m = (case assoc_get m n of
     None \<Rightarrow> m | Some sm \<Rightarrow> assoc_put m n (foldl assoc_del sm ips))"

definition detach ::
  "'h net_env \<Rightarrow> string \<Rightarrow> string \<Rightarrow> string \<Rightarrow> string list \<Rightarrow> 'h net_state \<Rightarrow> 'h net_state" where
  "detach E net_id ip container_id keys s =
     (let s1 = at_host (drop_veth (shell_of E) container_id net_id) s;
          v6 = assoc_get (v6_by_v4 s1) (net_id, ip);
          l1 = release (lease_ok E) net_id ip (leases s1);
          l2 = (case v6 of None \<Rightarrow> l1 | Some a \<Rightarrow> release_v6 (lease_ok E) net_id a l1)
      in s1\<lparr>leases := l2, v6_by_v4 := assoc_del (v6_by_v4 s1) (net_id, ip),
            dns := scrub_network net_id keys ip (dns s1),
            dns6 := (case v6 of None \<Rightarrow> dns6 s1 | Some a \<Rightarrow> scrub_network net_id keys a (dns6 s1)),
            dns_search := forget_search net_id (ip # (case v6 of None \<Rightarrow> [] | Some a \<Rightarrow> [a])) (dns_search s1)\<rparr>)"

section \<open>Carving IPv6 ranges\<close>

lemma probe_slots_Some:
  "probe_slots cap start step free = Some i \<Longrightarrow> 0 < cap \<Longrightarrow> i < cap \<and> free i"
proof (induction cap start step free rule: probe_slots.induct)
  case (1 cap start step free)
  then show ?case
    by (subst (asm) (2) probe_slots.simps) (auto simp: Let_def split: if_splits)
qed

lemma probe_slots_None:
  "probe_slots cap start step free = None \<Longrightarrow> step \<le> j \<Longrightarrow> j < cap \<Longrightarrow> \<not> free ((start + j) mod cap)"
proof (induction cap start step free rule: probe_slots.induct)
  case (1 cap start step free)
  from "1.prems"(1) have no: "\<not> free ((start + step) mod cap)"
    by (subst (asm) probe_slots.simps) (auto simp: Let_def split: if_splits)
  show ?case
  proof (cases "j = step")
    case True
    with no show ?thesis by simp
  next
    case False
    then have "\<not> cap \<le> step + 1" "step + 1 \<le> j" using "1.prems" by auto
    moreover have "probe_slots cap start (step + 1) free = None"
      using "1.prems"(1) no \<open>\<not> cap \<le> step + 1\<close>
      by (subst (asm) probe_slots.simps) (auto simp: Let_def split: if_splits)
    ultimately show ?thesis using "1.IH" no "1.prems"(3) by simp
  qed
qed

lemma probe_slots_exhausted:
  assumes "probe_slots cap start 0 free = None" "start < cap" "i < cap"
  shows "\<not> free i"
proof -
  define j where "j = (if start \<le> i then i - start else i + cap - start)"
  have "j < cap" "(start + j) mod cap = i"
    using assms(2,3) by (auto simp: j_def)
  then show ?thesis using probe_slots_None [OF assms(1), of j] by simp
qed

lemma v6_subnet_bits:
  assumes "v6_subnet_parse t = Ok ps" "prefix6 ps \<le> 64"
  shows "\<not> bit (network6 ps) k \<or> 64 \<le> 128 - prefix6 ps \<and> 128 - prefix6 ps \<le> k"
proof -
  have "unat (network6 ps AND NOT (mask (128 - prefix6 ps))) = unat (network6 ps)"
    using v6_subnet_parse_wf [OF assms(1)] by (simp add: v6_subnet_wf_def unat_and_not_mask)
  then have "network6 ps AND NOT (mask (128 - prefix6 ps)) = network6 ps"
    by (simp only: word_unat_eq_iff)
  then have "bit (network6 ps) k \<Longrightarrow> bit (network6 ps AND NOT (mask (128 - prefix6 ps))) k" by simp
  then show ?thesis using assms(2) by (auto simp: bit_simps)
qed

lemma slot_bits:
  assumes "v6_subnet_parse t = Ok ps" "prefix6 ps \<le> 64" "i < 2 ^ (64 - prefix6 ps)"
  shows "bit (slot_network (network6 ps) i) k \<longleftrightarrow>
    bit (network6 ps) k \<or> 64 \<le> k \<and> k < 128 - prefix6 ps \<and> bit i (k - 64)"
proof -
  have "\<not> bit i j" if "64 - prefix6 ps \<le> j" for j
    using assms(3) that by (metis bit_take_bit_iff not_le take_bit_nat_eq_self)
  then have high: "\<not> bit i (k - 64)" if "128 - prefix6 ps \<le> k"
    using that assms(2) by simp
  show ?thesis
    using high assms(2) by (cases "128 - prefix6 ps \<le> k") (auto simp: slot_network_def bit_simps)
qed

lemma slot_aligned:
  assumes "v6_subnet_parse t = Ok ps" "prefix6 ps \<le> 64" "i < 2 ^ (64 - prefix6 ps)"
  shows "slot_network (network6 ps) i AND NOT (mask 64) = slot_network (network6 ps) i"
    and "slot_network (network6 ps) i AND v6_mask (prefix6 ps) = network6 ps"
proof -
  have low: "bit (network6 ps) n \<Longrightarrow> 64 \<le> n \<and> 128 - prefix6 ps \<le> n" for n
    using v6_subnet_bits [OF assms(1,2), of n] by auto
  show "slot_network (network6 ps) i AND NOT (mask 64) = slot_network (network6 ps) i"
    using slot_bits [OF assms] by (intro bit_eqI) (auto simp: bit_simps dest: low)
  have "prefix6 ps \<le> 126" using assms(2) by simp
  then show "slot_network (network6 ps) i AND v6_mask (prefix6 ps) = network6 ps"
    using slot_bits [OF assms] by (intro bit_eqI) (auto simp: bit_simps v6_mask_eq dest: low)
qed

lemma aligned_not_mapped:
  assumes "a AND NOT (mask 64) = (a :: u128)"
  shows "\<not> is_ipv4_mapped (segments a)"
proof
  assume "is_ipv4_mapped (segments a)"
  then have "unat a div 4294967296 = 65535" by (rule mapped_groups)
  moreover have "unat a = unat a div 2 ^ 64 * 2 ^ 64"
    using unat_and_not_mask [of a 64] assms by simp
  ultimately have "odd (unat a div 4294967296)" "unat a div 4294967296 = unat a div 2 ^ 64 * 4294967296"
    by simp_all
  then show False by simp
qed

lemma fmt_groups_chars: "c \<in> set (fmt_groups gs) \<Longrightarrow> c = CHR '':'' \<or> is_hex c"
  using set_join_with [of "'':''" "map show_hex gs"] show_hex_is_hex by (auto simp: fmt_groups_def)

lemma show_ipv6_chars:
  assumes "c \<in> set (show_ipv6 a)" "\<not> is_ipv4_mapped (segments a)"
  shows "c \<noteq> CHR ''/'' \<and> c \<noteq> CHR ''.''"
proof -
  have "c = CHR '':'' \<or> is_hex c"
    using assms fmt_groups_chars by (auto simp: show_ipv6_def Let_def split: prod.splits if_splits)
  then show ?thesis by (auto simp: is_hex_def is_digit_def)
qed

lemma parse_cidr6:
  assumes "p \<le> 126" "a AND v6_mask p = a" "\<not> is_ipv4_mapped (segments a)"
  shows "v6_subnet_parse (cidr6 \<lparr>network6 = a, prefix6 = p\<rparr>) = Ok \<lparr>network6 = a, prefix6 = p\<rparr>"
proof -
  have no: "CHR ''/'' \<notin> set (show_ipv6 a)" "CHR ''.'' \<notin> set (show_ipv6 a)"
    using show_ipv6_chars assms(3) by blast+
  then have "split_once (CHR ''/'') (cidr6 \<lparr>network6 = a, prefix6 = p\<rparr>) = Some (show_ipv6 a, show_nat p)"
    by (simp add: cidr6_def split_once_Some)
  then show ?thesis
    using no assms(1,2) by (simp add: v6_subnet_parse_def parse_show_ipv6)
qed

lemma slot_range:
  assumes "a AND NOT (mask 64) = (a :: u128)"
  shows "valid6 (cidr6 \<lparr>network6 = a, prefix6 = 64\<rparr>) (show_ipv6 (default_gateway_v6 \<lparr>network6 = a, prefix6 = 64\<rparr>))"
    and "v6_subnet_parse (cidr6 \<lparr>network6 = a, prefix6 = 64\<rparr>) = Ok \<lparr>network6 = a, prefix6 = 64\<rparr>"
proof -
  let ?s = "\<lparr>network6 = a, prefix6 = 64\<rparr>"
  show p: "v6_subnet_parse (cidr6 ?s) = Ok ?s"
    using assms aligned_not_mapped [OF assms] by (intro parse_cidr6) (simp_all add: v6_mask_eq)
  have wf: "v6_subnet_wf ?s" by (rule v6_subnet_parse_wf [OF p])
  have "contains6 ?s (fst (usable_range6 ?s))"
    using usable_range6_le [OF wf] by (cases "usable_range6 ?s") (simp add: contains6_def)
  then show "valid6 (cidr6 ?s) (show_ipv6 (default_gateway_v6 ?s))"
    by (simp add: valid6_def p parse_show_ipv6 default_gateway_v6_def)
qed

text \<open>Claim C35: The carved range is a \<open>/64\<close> inside the daemon's pool that no existing network has, its text
  parses back to it, and its gateway is one of its host addresses. With a usable pool, carving
  fails only when every \<open>/64\<close> of the pool is taken.\<close>

theorem assign_v6_subnet_fresh:
  assumes "v6_subnet_parse pool = Ok ps" "prefix6 ps \<le> 64"
  shows "case assign_v6_subnet pool net_id existing of
      Inr (c, g) \<Rightarrow> (\<exists>sub. v6_subnet_parse c = Ok sub \<and> prefix6 sub = 64
        \<and> network6 sub AND v6_mask (prefix6 ps) = network6 ps
        \<and> network6 sub \<notin> set (used_networks existing) \<and> valid6 c g)
    | Inl e \<Rightarrow> e = V6_Pools_Exhausted
        \<and> (\<forall>i < 2 ^ (64 - prefix6 ps). slot_network (network6 ps) i \<in> set (used_networks existing))"
proof -
  let ?cap = "2 ^ (64 - prefix6 ps) :: nat"
  let ?free = "\<lambda>i. slot_network (network6 ps) i \<notin> set (used_networks existing)"
  let ?start = "unat (fnv1a64 net_id) mod ?cap"
  show ?thesis
  proof (cases "probe_slots ?cap ?start 0 ?free")
    case None
    then have "assign_v6_subnet pool net_id existing = Err V6_Pools_Exhausted"
      using assms by (simp add: assign_v6_subnet_def Let_def)
    moreover have "\<forall>i < ?cap. slot_network (network6 ps) i \<in> set (used_networks existing)"
      using probe_slots_exhausted [OF None] by simp
    ultimately show ?thesis by simp
  next
    case (Some i)
    then have i: "i < ?cap" "?free i" using probe_slots_Some by fastforce+
    let ?sub = "\<lparr>network6 = slot_network (network6 ps) i, prefix6 = 64\<rparr>"
    have "assign_v6_subnet pool net_id existing = Ok (cidr6 ?sub, show_ipv6 (default_gateway_v6 ?sub))"
      using assms Some by (simp add: assign_v6_subnet_def Let_def)
    moreover have al: "slot_network (network6 ps) i AND NOT (mask 64) = slot_network (network6 ps) i"
      "slot_network (network6 ps) i AND v6_mask (prefix6 ps) = network6 ps"
      using slot_aligned [OF assms i(1)] by auto
    ultimately show ?thesis
      using slot_range [OF al(1)] i(2) by simp
  qed
qed

section \<open>The table of networks\<close>

definition disjoint_nets :: "network_record \<Rightarrow> network_record \<Rightarrow> bool" where
  "disjoint_nets a b \<longleftrightarrow> (case (subnet_parse (nr_subnet a), subnet_parse (nr_subnet b)) of
     (Inr p, Inr q) \<Rightarrow> \<not> overlaps p q | _ \<Rightarrow> True)"

text \<open>Every network is stored under its id, has a name of its own and a gateway among the hosts of
  its subnet, and no two subnets overlap.\<close>

definition nets_ok :: "(string, network_record) assoc \<Rightarrow> bool" where
  "nets_ok m \<longleftrightarrow> assoc_wf m \<and> distinct (map (nr_name \<circ> snd) m)
     \<and> (\<forall>(k, n) \<in> set m. k = nr_id n \<and> valid4 (nr_subnet n) (nr_gateway n))
     \<and> (\<forall>(k, a) \<in> set m. \<forall>(l, b) \<in> set m. k \<noteq> l \<longrightarrow> disjoint_nets a b)"

lemma disjoint_nets_sym: "disjoint_nets a b \<Longrightarrow> disjoint_nets b a"
  by (auto simp: disjoint_nets_def overlaps_def split: sum.splits prod.splits)

lemma nets_ok_put:
  assumes "nets_ok m" "nr_id n \<notin> fst ` set m" "nr_name n \<notin> (nr_name \<circ> snd) ` set m"
    and "valid4 (nr_subnet n) (nr_gateway n)" "\<And>k a. (k, a) \<in> set m \<Longrightarrow> disjoint_nets n a"
  shows "nets_ok (assoc_put m (nr_id n) n)"
  using assms(1,3,4) assms(5) [THEN disjoint_nets_sym] assms(5)
  unfolding assoc_put_fresh [OF assms(2)] nets_ok_def
  using assms(2) by (auto simp: assoc_wf_def)

lemma nets_ok_del: "nets_ok m \<Longrightarrow> nets_ok (assoc_del m k)"
  unfolding nets_ok_def
  by (auto simp: assoc_del_def distinct_map_filter assoc_wf_def)

lemma first_overlap_None:
  "first_overlap p ns = None \<Longrightarrow> n \<in> set ns \<Longrightarrow> subnet_parse (nr_subnet n) = Ok q \<Longrightarrow> \<not> overlaps p q"
  by (induction p ns rule: first_overlap.induct) (auto split: sum.splits if_splits)

lemma default_gateway_contained:
  assumes "subnet_parse t = Ok p"
  shows "contains p (default_gateway p)"
  using usable_range_le [OF subnet_parse_wf [OF assms]]
  by (cases "usable_range p") (simp add: contains_def default_gateway_def)

lemma validate_create_params_Ok:
  assumes "validate_create_params subnet gateway existing = Ok (c, gw)"
  shows "valid4 c gw \<and> (\<exists>p. subnet_parse c = Ok p \<and> first_overlap p existing = None)"
proof -
  obtain p where p: "subnet_parse subnet = Ok p"
    using assms by (auto simp: validate_create_params_def split: sum.splits)
  have c: "c = cidr p" "first_overlap p existing = None"
    using assms p by (auto simp: validate_create_params_def and_then_Ok split: option.splits)
  have pc: "subnet_parse c = Ok p"
    using parse_cidr_roundtrip [OF p] c by simp
  have "\<exists>g. parse_ipv4 gw = Some g \<and> contains p g"
    using assms p default_gateway_contained [OF p]
    by (auto simp: validate_create_params_def and_then_Ok split: option.splits if_splits)
  then show ?thesis
    using pc c(2) by (auto simp: valid4_def)
qed

lemma parse_172:
  assumes "b < 256"
  shows "parse_ipv4 (''172.'' @ show_nat b @ ''.0.0'') = Some (ipv4_of_octets 172 b 0 0)"
    and "parse_ipv4 (''172.'' @ show_nat b @ ''.0.1'') = Some (ipv4_of_octets 172 b 0 1)"
proof -
  have o: "parse_octet ''172'' = Some 172" "parse_octet ''0'' = Some 0" "parse_octet ''1'' = Some 1"
    by code_simp+
  have "split_on (CHR ''.'') (''172.'' @ show_nat b @ ''.0.0'') = [''172'', show_nat b, ''0'', ''0'']"
    "split_on (CHR ''.'') (''172.'' @ show_nat b @ ''.0.1'') = [''172'', show_nat b, ''0'', ''1'']"
    by (simp_all add: split_on_append)
  then show "parse_ipv4 (''172.'' @ show_nat b @ ''.0.0'') = Some (ipv4_of_octets 172 b 0 0)"
    "parse_ipv4 (''172.'' @ show_nat b @ ''.0.1'') = Some (ipv4_of_octets 172 b 0 1)"
    using assms o by (simp_all add: parse_ipv4_def)
qed

lemma unat_u32: "n < 4294967296 \<Longrightarrow> unat (word_of_nat n :: u32) = n"
  by (simp add: unsigned_of_nat take_bit_eq_mod)

lemma pool_candidates_valid:
  assumes "b < 256"
  shows "valid4 (pool_candidate b) (''172.'' @ show_nat b @ ''.0.1'')"
proof -
  have u: "unat (ipv4_of_octets 172 b 0 0) = (44032 + b) * 65536"
    "unat (ipv4_of_octets 172 b 0 1) = (44032 + b) * 65536 + 1"
    using assms unat_u32 [of "((172 * 256 + b) * 256 + 0) * 256 + 0"]
      unat_u32 [of "((172 * 256 + b) * 256 + 0) * 256 + 1"]
    by (simp_all only: ipv4_of_octets_def) simp_all
  let ?s = "\<lparr>network = ipv4_of_octets 172 b 0 0 AND shl_u32 (- 1) 16, sn_prefix = 16\<rparr>"
  have "split_once (CHR ''/'') (pool_candidate b) = Some (''172.'' @ show_nat b @ ''.0.0'', ''16'')"
    by (simp add: pool_candidate_def split_once_Some)
  moreover have "parse_u8 ''16'' = Some 16" by code_simp
  ultimately have p: "subnet_parse (pool_candidate b) = Ok ?s"
    using parse_172 [OF assms] by (simp add: subnet_parse_def)
  have "unat (network ?s) = (44032 + b) * 65536"
    using subnet_network [of 16 "ipv4_of_octets 172 b 0 0"] u by simp
  then have "contains ?s (ipv4_of_octets 172 b 0 1)"
    using contains_iff [OF subnet_parse_wf [OF p]] u by simp
  then show ?thesis
    using parse_172 [OF assms] by (simp add: valid4_def p)
qed

lemma default_pool_Ok:
  assumes "default_pool nets = Ok (c, gw)"
  shows "valid4 c gw \<and> (\<exists>p. subnet_parse c = Ok p \<and> first_overlap p nets = None)"
proof -
  obtain b where b: "find (pool_free nets) [18..<32] = Some b" and c: "c = pool_candidate b"
    and gw: "gw = ''172.'' @ show_nat b @ ''.0.1''"
    using assms by (auto simp: default_pool_def simp del: upt_rec_numeral split: option.splits)
  have "b \<in> set [18..<32]" "pool_free nets b"
    using find_SomeD [OF b] by blast+
  then show ?thesis
    using pool_candidates_valid [of b] c gw by (auto simp: pool_free_def split: sum.splits)
qed

lemma by_name_None: "by_name name s = None \<longleftrightarrow> name \<notin> (nr_name \<circ> snd) ` set (networks s)"
  by (force simp: by_name_def net_records_def find_None_iff)

lemma create_plan_Ok:
  assumes "create_plan q bid i now s = Ok rec"
  shows "nr_id rec = i" "by_name (nr_name rec) s = None" "nr_name rec = cq_name q"
    and "valid4 (nr_subnet rec) (nr_gateway rec)"
    and "\<exists>p. subnet_parse (nr_subnet rec) = Ok p \<and> first_overlap p (net_records s) = None"
proof -
  obtain c gw c6 gw6 where cg: "(case cq_subnet q of
      Some c \<Rightarrow> validate_create_params c (cq_gateway q) (net_records s)
    | None \<Rightarrow> default_pool (net_records s)) = Ok (c, gw)"
    and rec: "nr_subnet rec = c" "nr_gateway rec = gw" "nr_id rec = i" "nr_name rec = cq_name q"
    and nm: "by_name (cq_name q) s = None"
    using assms by (auto simp: create_plan_def and_then_Ok split: if_splits)
  have "valid4 c gw \<and> (\<exists>p. subnet_parse c = Ok p \<and> first_overlap p (net_records s) = None)"
    using cg validate_create_params_Ok default_pool_Ok by (auto split: option.splits)
  with rec nm show "nr_id rec = i" "by_name (nr_name rec) s = None" "nr_name rec = cq_name q"
    "valid4 (nr_subnet rec) (nr_gateway rec)"
    "\<exists>p. subnet_parse (nr_subnet rec) = Ok p \<and> first_overlap p (net_records s) = None"
    by auto
qed

section \<open>Leases of endpoints\<close>

lemma v6_ops_keep_v4 [simp]:
  "used4 (snd (allocate_v6 ok n sub gw l)) = used4 l" "used4 (release_v6 ok n lit l) = used4 l"
  by (auto simp: allocate_v6_def release_v6_def Let_def fun_eq_iff
      split: sum.splits option.splits prod.splits)

lemma v4_ops_keep_v6 [simp]:
  "used6 (snd (allocate ok n sub gw l)) = used6 l" "used6 (snd (reserve ok n sub gw ip l)) = used6 l"
  "used6 (release ok n lit l) = used6 l"
  by (auto simp: allocate_def reserve_def release_def Let_def fun_eq_iff
      split: sum.splits option.splits prod.splits)

lemma reserve_used:
  assumes "reserve ok n sub gw ip l = (r, l')"
  shows "used4 l' = (case r of Inl _ \<Rightarrow> used4 l | Inr a \<Rightarrow> (used4 l)(n := insert a (used4 l n)))
    \<and> (\<forall>a. r = Ok a \<longrightarrow> a \<notin> used4 l n \<and> a \<in> hosts4 sub gw)"
  using assms
  by (auto simp: reserve_def hosts4_def Let_def fun_eq_iff set_bucket4_id
      split: sum.splits option.splits if_splits)

lemma allocate_used:
  assumes "allocate ok n sub gw l = (r, l')"
  shows "used4 l' = (case r of Inl _ \<Rightarrow> used4 l | Inr a \<Rightarrow> (used4 l)(n := insert a (used4 l n)))
    \<and> (\<forall>a. r = Ok a \<longrightarrow> a \<notin> used4 l n \<and> a \<in> hosts4 sub gw)"
proof -
  have other: "m \<noteq> n \<Longrightarrow> used4 l' m = used4 l m" for m
    using v4.alloc_frame [of m n ok sub gw l] assms by simp
  show ?thesis
  proof (cases r)
    case (Inl e)
    then show ?thesis
      using v4.alloc_Err [of ok n sub gw l e l'] assms other by (auto simp: fun_eq_iff) metis+
  next
    case (Inr a)
    then show ?thesis
      using v4.alloc_Ok [of ok n sub gw l a l'] assms other by (auto simp: fun_eq_iff)
  qed
qed

lemma allocate_v6_used:
  assumes "allocate_v6 ok n sub gw l = (r, l')"
  shows "used6 l' = (case r of Inl _ \<Rightarrow> used6 l | Inr a \<Rightarrow> (used6 l)(n := insert a (used6 l n)))
    \<and> (\<forall>a. r = Ok a \<longrightarrow> a \<notin> used6 l n \<and> a \<in> hosts6 sub gw)"
proof -
  have other: "m \<noteq> n \<Longrightarrow> used6 l' m = used6 l m" for m
    using v6.alloc_frame [of m n ok sub gw l] assms by simp
  show ?thesis
  proof (cases r)
    case (Inl e)
    then show ?thesis
      using v6.alloc_Err [of ok n sub gw l e l'] assms other by (auto simp: fun_eq_iff) metis+
  next
    case (Inr a)
    then show ?thesis
      using v6.alloc_Ok [of ok n sub gw l a l'] assms other by (auto simp: fun_eq_iff)
  qed
qed

lemma release_used:
  "used4 (release ok n (show_ipv4 a) l) = (used4 l)(n := used4 l n - {a})"
  "used6 (release_v6 ok n (show_ipv6 b) l) = (used6 l)(n := used6 l n - {b})"
  by (simp_all add: fun_eq_iff v4.rel_used v6.rel_used parse_show_ipv6)

text \<open>The tables an operation may change, apart from the host and the leases.\<close>

definition same_tables :: "'h net_state \<Rightarrow> 'h net_state \<Rightarrow> bool" where
  "same_tables s t \<longleftrightarrow> networks t = networks s \<and> network_files t = network_files s \<and> dns t = dns s
     \<and> dns6 t = dns6 s \<and> dns_search t = dns_search s \<and> v6_by_v4 t = v6_by_v4 s"

lemma same_tables_refl [simp]: "same_tables s s"
  by (simp add: same_tables_def)

lemma same_tables_trans: "same_tables s t \<Longrightarrow> same_tables t u \<Longrightarrow> same_tables s u"
  by (simp add: same_tables_def)

lemma ensure_net_bridge_frame:
  "ensure_net_bridge E rec s = (r, s') \<Longrightarrow> same_tables s s' \<and> leases s' = leases s"
  by (auto simp: ensure_net_bridge_def same_tables_def split: prod.splits)

lemma lift_ipam_cases:
  assumes "lift_ipam f s = (r, s')"
  obtains r0 l where "f (leases s) = (r0, l)" "s' = s\<lparr>leases := l\<rparr>" "is_ok r = is_ok r0"
    "\<And>a. r = Ok a \<longleftrightarrow> r0 = Ok a"
  using assms by (cases "f (leases s)"; cases "fst (f (leases s))") (auto simp: lift_ipam_def)

lemma lease_v4_used:
  assumes "lease_v4 E net req s = (r, s')"
  shows "same_tables s s' \<and> used6 (leases s') = used6 (leases s)
    \<and> (case r of Inl _ \<Rightarrow> used4 (leases s') = used4 (leases s)
       | Inr a \<Rightarrow> used4 (leases s') = (used4 (leases s))(nr_id net := insert a (used4 (leases s) (nr_id net)))
           \<and> a \<notin> used4 (leases s) (nr_id net) \<and> a \<in> hosts4 (nr_subnet net) (nr_gateway net))"
proof -
  obtain f where f: "lift_ipam f s = (r, s')" and
    ff: "f = allocate (lease_ok E) (nr_id net) (nr_subnet net) (nr_gateway net)
      \<or> (\<exists>w. f = reserve (lease_ok E) (nr_id net) (nr_subnet net) (nr_gateway net) w)"
    using assms by (auto simp: lease_v4_def split: option.splits if_splits)
  from f obtain r0 l where l: "f (leases s) = (r0, l)" "s' = s\<lparr>leases := l\<rparr>" "is_ok r = is_ok r0"
    "\<And>a. r = Ok a \<longleftrightarrow> r0 = Ok a"
    by (rule lift_ipam_cases) blast
  have u6: "used6 l = used6 (leases s)"
    using ff l(1) v4_ops_keep_v6 by (metis snd_conv)
  have "used4 l = (case r0 of Inl _ \<Rightarrow> used4 (leases s)
      | Inr a \<Rightarrow> (used4 (leases s))(nr_id net := insert a (used4 (leases s) (nr_id net))))
    \<and> (\<forall>a. r0 = Ok a \<longrightarrow> a \<notin> used4 (leases s) (nr_id net) \<and> a \<in> hosts4 (nr_subnet net) (nr_gateway net))"
    using ff
  proof
    assume "f = allocate (lease_ok E) (nr_id net) (nr_subnet net) (nr_gateway net)"
    then show ?thesis using allocate_used l(1) by simp
  next
    assume "\<exists>w. f = reserve (lease_ok E) (nr_id net) (nr_subnet net) (nr_gateway net) w"
    then show ?thesis using reserve_used l(1) by auto
  qed
  moreover have "same_tables s s'" "leases s' = l" by (simp_all add: l(2) same_tables_def)
  moreover have "(\<exists>e e0. r = Err e \<and> r0 = Err e0) \<or> (\<exists>a. r = Ok a \<and> r0 = Ok a)"
    using l(3) l(4) by (cases r0; cases r) auto
  ultimately show ?thesis
    using u6 by auto
qed

lemma lease_v6_used:
  assumes "lease_v6 E net s = (r, s')"
  shows "same_tables s s' \<and> used4 (leases s') = used4 (leases s)
    \<and> (case r of
         Inr (Some a) \<Rightarrow> has_ipv6 net \<and> a \<notin> used6 (leases s) (nr_id net)
           \<and> used6 (leases s') = (used6 (leases s))(nr_id net := insert a (used6 (leases s) (nr_id net)))
       | Inr None \<Rightarrow> \<not> has_ipv6 net \<and> used6 (leases s') = used6 (leases s)
       | Inl _ \<Rightarrow> has_ipv6 net \<and> used6 (leases s') = used6 (leases s))"
proof (cases "has_ipv6 net")
  case False
  then show ?thesis using assms by (auto simp: lease_v6_def)
next
  case True
  let ?f = "allocate_v6 (lease_ok E) (nr_id net) (nr_subnet_v6 net) (nr_gateway_v6 net)"
  obtain r0 l where l: "?f (leases s) = (r0, l)" by fastforce
  have u4: "used4 l = used4 (leases s)"
    using l v6_ops_keep_v4(1) by (metis snd_conv)
  show ?thesis
    using assms True l u4 allocate_v6_used [OF l]
    by (cases r0) (auto simp: lease_v6_def lift_ipam_def same_tables_def)
qed

lemma wire_cases:
  assumes "wire E net req ip p v6 s = (r, s')"
  obtains (failed) e h where "r = Err e" "s' = s\<lparr>host := h\<rparr>"
  | (wired) ep h where "r = Ok ep" "s' = register_endpoint net req (show_ipv4 ip) (v6_text v6) (s\<lparr>host := h\<rparr>)"
      "ea_network_id ep = nr_id net" "ea_ip ep = show_ipv4 ip" "ea_ipv6 ep = v6_text v6"
proof -
  obtain r0 h where h: "run_steps (wire_steps (shell_of E) net req ip p v6) (host s) = (r0, h)"
    by fastforce
  show thesis
  proof (cases r0)
    case (Inl e)
    then show thesis
      using assms h by (intro failed) (auto simp: wire_def)
  next
    case (Inr u)
    then show thesis
      using assms h by (intro wired) (auto simp: wire_def)
  qed
qed

lemma register_endpoint_frame [simp]:
  "leases (register_endpoint net req ip v6 s) = leases s"
  "networks (register_endpoint net req ip v6 s) = networks s"
  by (simp_all add: register_endpoint_def Let_def)

lemma release_lease_v6_used:
  "used6 (leases (release_lease_v6 E n v6 s)) =
     (case v6 of None \<Rightarrow> used6 (leases s) | Some a \<Rightarrow> (used6 (leases s))(n := used6 (leases s) n - {a}))"
  "used4 (leases (release_lease_v6 E n v6 s)) = used4 (leases s)"
  "same_tables s (release_lease_v6 E n v6 s)"
  by (simp_all add: release_lease_v6_def release_used same_tables_def split: option.splits)

text \<open>The outcomes of \<open>attach\<close>, by the step that failed.\<close>

lemma attach_cases:
  assumes "attach E req s = (r, s')"
  obtains (unresolved) e where "r = Err e" "s' = s" "resolve (ar_network req) s = Err e"
  | (no_bridge) net e where "resolve (ar_network req) s = Ok net" "r = Err e"
      "same_tables s s'" "leases s' = leases s"
  | (no_lease) net s1 e where "resolve (ar_network req) s = Ok net" "r = Err e"
      "same_tables s s1" "leases s1 = leases s" "lease_v4 E net req s1 = (Err e, s')"
  | (no_v6) net s1 s2 ip e where "resolve (ar_network req) s = Ok net" "r = Err e"
      "same_tables s s1" "leases s1 = leases s" "lease_v4 E net req s1 = (Ok ip, s2)"
      "lease_v6 E net s2 = (Err e, s')"
  | (wiring) net s1 s2 s3 s4 ip v6 r' where "resolve (ar_network req) s = Ok net"
      "same_tables s s1" "leases s1 = leases s" "lease_v4 E net req s1 = (Ok ip, s2)"
      "lease_v6 E net s2 = (Ok v6, s3)" "wire E net req ip (v4_prefix (nr_subnet net)) v6 s3 = (r', s4)"
      "r = r'" "s' = (if is_ok r' then s4 else release_lease_v6 E (nr_id net) v6
                (s4\<lparr>leases := release (lease_ok E) (nr_id net) (show_ipv4 ip) (leases s4)\<rparr>))"
proof (cases "resolve (ar_network req) s")
  case (Inl e)
  then show thesis using assms by (intro unresolved) (auto simp: attach_def)
next
  case res: (Inr net)
  obtain b s1 where b: "ensure_net_bridge E net s = (b, s1)" by fastforce
  note f1 = ensure_net_bridge_frame [OF b]
  obtain l s2 where l: "lease_v4 E net req s1 = (l, s2)" by fastforce
  obtain v s3 where v: "lease_v6 E net s2 = (v, s3)" by fastforce
  show thesis
  proof (cases b)
    case (Inl e)
    then show thesis using assms res b f1 by (intro no_bridge [OF res, of e]) (auto simp: attach_def)
  next
    case bok: (Inr u)
    show thesis
    proof (cases l)
      case (Inl e)
      then show thesis using assms res b bok l f1
        by (intro no_lease [OF res, of e s1]) (auto simp: attach_def)
    next
      case lok: (Inr ip)
      show thesis
      proof (cases v)
        case (Inl e)
        then show thesis using assms res b bok l lok v f1
          by (intro no_v6 [OF res, of e s1 ip s2]) (auto simp: attach_def)
      next
        case vok: (Inr v6)
        obtain w s4 where w: "wire E net req ip (v4_prefix (nr_subnet net)) v6 s3 = (w, s4)" by fastforce
        show thesis
        proof (rule wiring [OF res, of s1 ip s2 v6 s3 w s4])
          show "r = w" "s' = (if is_ok w then s4 else release_lease_v6 E (nr_id net) v6
                (s4\<lparr>leases := release (lease_ok E) (nr_id net) (show_ipv4 ip) (leases s4)\<rparr>))"
            using assms res b bok l lok v vok w by (cases w; auto simp: attach_def)+
        qed (use f1 l lok v vok w in auto)
      qed
    qed
  qed
qed

lemma lease_undone:
  assumes "a \<notin> U n" shows "(U(n := insert a (U n)))(n := (U(n := insert a (U n))) n - {a}) = U"
  using assms by (auto simp: fun_eq_iff)

lemma attach_rollback:
  assumes "same_tables s s1" "leases s1 = leases s" "lease_v4 E net req s1 = (Ok ip, s2)"
    and "lease_v6 E net s2 = (Ok v6, s3)" "wire E net req ip p v6 s3 = (Err e, s4)"
    and s': "s' = release_lease_v6 E (nr_id net) v6
      (s4\<lparr>leases := release (lease_ok E) (nr_id net) (show_ipv4 ip) (leases s4)\<rparr>)"
  shows "same_tables s s' \<and> used4 (leases s') = used4 (leases s) \<and> used6 (leases s') = used6 (leases s)"
proof -
  note v4 = lease_v4_used [OF assms(3)] and v6 = lease_v6_used [OF assms(4)]
  from assms(5) obtain h where s4: "s4 = s3\<lparr>host := h\<rparr>"
    by (cases rule: wire_cases) auto
  have "used4 (leases s') = used4 (leases s)"
    using v4 v6 assms(2) by (simp add: s' s4 release_lease_v6_used release_used lease_undone)
  moreover have "used6 (leases s') = used6 (leases s)"
    using v4 v6 assms(2)
    by (cases v6) (simp_all add: s' s4 release_lease_v6_used lease_undone)
  moreover have "same_tables s3 s'"
    using release_lease_v6_used(3) [of "s4\<lparr>leases := release (lease_ok E) (nr_id net) (show_ipv4 ip) (leases s4)\<rparr>" E "nr_id net" v6]
    by (simp add: s' s4 same_tables_def)
  ultimately show ?thesis
    using assms(1) v4 v6 same_tables_trans by blast
qed


text \<open>A successful attachment takes a host address of the network that was free, and changes no
  other lease of the family.\<close>

theorem attach_takes_free_address:
  assumes "attach E req s = (Ok ep, s')"
  shows "\<exists>net ip. resolve (ar_network req) s = Ok net \<and> ea_network_id ep = nr_id net
    \<and> ea_ip ep = show_ipv4 ip \<and> ip \<in> hosts4 (nr_subnet net) (nr_gateway net)
    \<and> ip \<notin> used4 (leases s) (nr_id net)
    \<and> used4 (leases s') = (used4 (leases s))(nr_id net := insert ip (used4 (leases s) (nr_id net)))"
  using assms
proof (cases rule: attach_cases)
  case (wiring net s1 s2 s3 s4 ip v6 r')
  note v4 = lease_v4_used [OF wiring(4)] and v6 = lease_v6_used [OF wiring(5)]
  from wiring(6,7) obtain h where "s4 = register_endpoint net req (show_ipv4 ip) (v6_text v6) (s3\<lparr>host := h\<rparr>)"
    "ea_network_id ep = nr_id net" "ea_ip ep = show_ipv4 ip"
    by (cases rule: wire_cases) auto
  moreover have "s' = s4" using wiring(7,8) by auto
  ultimately show ?thesis
    using v4 v6 wiring(1,3) by auto
qed auto

section \<open>Names\<close>

lemma put_names_get:
  "assoc_get (put_names ks ip reg) x = (if x \<in> ascii_lower ` set ks then Some ip else assoc_get reg x)"
  by (induction ks arbitrary: reg) auto

lemma scrub_get:
  "assoc_get (scrub ks want reg) x =
     (if x \<in> ascii_lower ` set ks \<and> assoc_get reg x = Some want then None else assoc_get reg x)"
  by (induction ks arbitrary: reg) auto

lemma reg_of_put [simp]: "reg_of (assoc_put m n r) k = (if k = n then r else reg_of m k)"
  by (simp add: reg_of_def)

lemma reg_of_touch [simp]: "reg_of (touch_reg n m) k = reg_of m k"
  by (auto simp: touch_reg_def reg_of_def has_key_def)

lemma reg_of_del [simp]: "reg_of (assoc_del m n) k = (if k = n then [] else reg_of m k)"
  by (simp add: reg_of_def)

lemma reg_of_register [simp]:
  "reg_of (register_names n ks ip m) k = (if k = n then put_names ks ip (reg_of m n) else reg_of m k)"
  by (simp add: register_names_def)

lemma reg_of_scrub [simp]:
  "assoc_get (reg_of (scrub_network n ks want m) k) x =
     (if k = n then assoc_get (scrub ks want (reg_of m n)) x else assoc_get (reg_of m k) x)"
  by (auto simp: scrub_network_def reg_of_def scrub_get split: option.splits)

text \<open>What the embedded server of network \<open>n\<close> knows of a name, per family.\<close>

definition name_v4 :: "'h net_state \<Rightarrow> string \<Rightarrow> string \<Rightarrow> string option" where
  "name_v4 s n name = assoc_get (reg_of (dns s) n) (ascii_lower name)"

definition name_v6 :: "'h net_state \<Rightarrow> string \<Rightarrow> string \<Rightarrow> string option" where
  "name_v6 s n name = assoc_get (reg_of (dns6 s) n) (ascii_lower name)"

lemma register_endpoint_names:
  "name_v4 (register_endpoint net req ip v6 s) n x =
     (if n = nr_id net \<and> ascii_lower x \<in> ascii_lower ` set (dns_keys req) then Some ip else name_v4 s n x)"
  "name_v6 (register_endpoint net req ip v6 s) n x =
     (if n = nr_id net \<and> v6 \<noteq> [] \<and> ascii_lower x \<in> ascii_lower ` set (dns_keys req) then Some v6
      else name_v6 s n x)"
  by (auto simp: register_endpoint_def name_v4_def name_v6_def Let_def put_names_get)

lemma register_endpoint_v6_by_v4:
  "assoc_get (v6_by_v4 (register_endpoint net req ip v6 s)) k =
     (if v6 \<noteq> [] \<and> k = (nr_id net, ip) then Some v6 else assoc_get (v6_by_v4 s) k)"
  by (auto simp: register_endpoint_def Let_def)

lemma detach_names:
  "name_v4 (detach E n ip c keys s) m x =
     (if m = n \<and> ascii_lower x \<in> ascii_lower ` set keys \<and> name_v4 s m x = Some ip then None else name_v4 s m x)"
  by (auto simp: detach_def Let_def name_v4_def scrub_get at_host_def)

lemma detach_leases:
  "used4 (leases (detach E n (show_ipv4 a) c keys s)) = (used4 (leases s))(n := used4 (leases s) n - {a})"
  "used6 (leases (detach E n ip c keys s)) =
     (case assoc_get (v6_by_v4 s) (n, ip) of
        None \<Rightarrow> used6 (leases s)
      | Some lit \<Rightarrow> (case parse_ipv6 lit of
           None \<Rightarrow> used6 (leases s) | Some b \<Rightarrow> (used6 (leases s))(n := used6 (leases s) n - {b})))"
  by (auto simp: detach_def Let_def at_host_def release_used fun_eq_iff v6.rel_used split: option.splits)

lemma show_ipv6_not_Nil [simp]: "show_ipv6 a \<noteq> []"
proof
  assume "show_ipv6 a = []"
  moreover have "parse_ipv6 [] = None" by code_simp
  ultimately show False using parse_show_ipv6 [of a] by simp
qed


section \<open>Reachable states\<close>

text \<open>One request to the manager, whatever its outcome. Network ids are random, so a new one is not
  in use.\<close>

inductive net_step :: "'h net_env \<Rightarrow> 'h net_state \<Rightarrow> 'h net_state \<Rightarrow> bool" for E :: "'h net_env" where
  create: "i \<notin> fst ` set (networks s) \<Longrightarrow> net_step E s (snd (create_network E q b i now s))"
| remove: "net_step E s (snd (remove_network E key s))"
| attach: "net_step E s (snd (attach E req s))"
| rewire: "net_step E s (snd (rewire E key req ip s))"
| detach: "net_step E s (detach E n lit c keys s)"
| unwire: "net_step E s (unwire E n c s)"
| register: "net_step E s (register_dns n keys lit s)"
| config: "net_step E s (snd (set_ipv6_config enabled pool s))"

inductive_cases net_stepE: "net_step E s s'"

definition net_inv :: "'h net_state \<Rightarrow> bool" where
  "net_inv s \<longleftrightarrow> nets_ok (networks s)
     \<and> (\<forall>n. n \<notin> fst ` set (networks s) \<longrightarrow> used4 (leases s) n = {} \<and> used6 (leases s) n = {})
     \<and> (\<forall>(k, n) \<in> set (networks s). used4 (leases s) k \<subseteq> hosts4 (nr_subnet n) (nr_gateway n))"

lemma net_inv_cong:
  assumes "net_inv s" "networks s' = networks s"
    and "\<And>n. used4 (leases s') n \<subseteq> used4 (leases s) n" "\<And>n. used6 (leases s') n \<subseteq> used6 (leases s) n"
  shows "net_inv s'"
  unfolding net_inv_def
proof (intro conjI allI impI)
  fix n
  assume "n \<notin> fst ` set (networks s')"
  then have "used4 (leases s) n = {} \<and> used6 (leases s) n = {}"
    using assms(1,2) by (simp add: net_inv_def)
  then show "used4 (leases s') n = {}" "used6 (leases s') n = {}"
    using assms(3,4) [of n] by blast+
next
  show "\<forall>(k, n) \<in> set (networks s'). used4 (leases s') k \<subseteq> hosts4 (nr_subnet n) (nr_gateway n)"
    using assms(1-3) by (fastforce simp: net_inv_def)
qed (use assms(1,2) in \<open>simp add: net_inv_def\<close>)

lemma net_inv_lease:
  assumes "net_inv s" "networks s' = networks s" "(nr_id net, net) \<in> set (networks s)"
    and "a \<in> hosts4 (nr_subnet net) (nr_gateway net)"
    and "used4 (leases s') = (used4 (leases s))(nr_id net := insert a (used4 (leases s) (nr_id net)))"
    and "\<And>n. n \<notin> fst ` set (networks s) \<Longrightarrow> used6 (leases s') n = {}"
  shows "net_inv s'"
proof -
  have "distinct (map fst (networks s))"
    using assms(1) by (simp add: net_inv_def nets_ok_def assoc_wf_def)
  then have "(nr_id net, n) \<in> set (networks s) \<Longrightarrow> n = net" for n
    using assms(3) by (metis eq_key_imp_eq_value)
  then have key: "(k, n) \<in> set (networks s) \<Longrightarrow> k = nr_id net \<Longrightarrow> n = net" for k n
    by simp
  show ?thesis
    unfolding net_inv_def
  proof (intro conjI allI impI ballI)
    fix n
    assume n: "n \<notin> fst ` set (networks s')"
    then have "n \<noteq> nr_id net" using assms(2,3) by force
    then show "used4 (leases s') n = {}"
      using n assms(1,2,5) by (simp add: net_inv_def)
    show "used6 (leases s') n = {}" using n assms(2,6) by simp
  next
    fix x
    assume x: "x \<in> set (networks s')"
    obtain k n where kn: "x = (k, n)" by (cases x)
    have "used4 (leases s) k \<subseteq> hosts4 (nr_subnet n) (nr_gateway n)"
      using assms(1,2) x kn by (auto simp: net_inv_def)
    then have "used4 (leases s') k \<subseteq> hosts4 (nr_subnet n) (nr_gateway n)"
      using key [of k n] x kn assms(2,4,5) by auto
    then show "case x of (k, n) \<Rightarrow> used4 (leases s') k \<subseteq> hosts4 (nr_subnet n) (nr_gateway n)"
      by (simp add: kn)
  qed (use assms(1,2) in \<open>simp add: net_inv_def\<close>)
qed

lemma net_records_entry:
  assumes "net_inv s" "n \<in> set (net_records s)"
  shows "(nr_id n, n) \<in> set (networks s)"
  using assms by (auto simp: net_inv_def nets_ok_def net_records_def)

lemma resolve_entry:
  assumes "net_inv s" "resolve key s = Ok net"
  shows "(nr_id net, net) \<in> set (networks s)"
proof -
  have "net \<in> set (net_records s)"
    using assms(2)
    by (auto simp: resolve_def net_get_def by_name_def dest!: find_SomeD split: option.splits if_splits)
  then show ?thesis by (rule net_records_entry [OF assms(1)])
qed

lemma net_inv_attach:
  assumes inv: "net_inv s"
  shows "net_inv (snd (attach E req s))"
proof (cases "attach E req s")
  case (Pair r s')
  from Pair have "net_inv s'"
  proof (cases rule: attach_cases)
    case (unresolved e)
    then show ?thesis using inv by simp
  next
    case (no_bridge net e)
    then show ?thesis using inv by (intro net_inv_cong [OF inv]) (simp_all add: same_tables_def)
  next
    case (no_lease net s1 e)
    then show ?thesis
      using lease_v4_used [OF no_lease(5)]
      by (intro net_inv_cong [OF inv]) (simp_all add: same_tables_def)
  next
    case (no_v6 net s1 s2 ip e)
    note v4 = lease_v4_used [OF no_v6(5)] and v6 = lease_v6_used [OF no_v6(6)]
    show ?thesis
      using v4 v6 no_v6(3,4) inv
      by (intro net_inv_lease [OF inv _ resolve_entry [OF inv no_v6(1)], of _ ip])
        (auto simp: same_tables_def net_inv_def)
  next
    case (wiring net s1 s2 s3 s4 ip v6 r')
    note v4 = lease_v4_used [OF wiring(4)] and v6 = lease_v6_used [OF wiring(5)]
    note entry = resolve_entry [OF inv wiring(1)]
    from wiring(6) show ?thesis
    proof (cases rule: wire_cases)
      case (failed e h)
      then show ?thesis
        using attach_rollback [OF wiring(2-5), of "v4_prefix (nr_subnet net)" e s4 s'] wiring(6-8)
        by (intro net_inv_cong [OF inv]) (auto simp: same_tables_def)
    next
      case (wired ep h)
      have "s' = s4" using wiring(8) wired by simp
      moreover have "fst ` set (networks s3) = fst ` set (networks s)"
        using wiring(2) v4 v6 by (simp add: same_tables_def)
      moreover have "used6 (leases s3) n = {}" if "n \<notin> fst ` set (networks s)" for n
        using v4 v6 wiring(3) inv that entry by (cases v6) (force simp: net_inv_def)+
      ultimately show ?thesis
        using wired v4 v6 wiring(2,3)
        by (intro net_inv_lease [OF inv _ entry, of _ ip]) (auto simp: same_tables_def)
    qed
  qed
  then show ?thesis by (simp add: Pair)
qed

lemma net_inv_rewire:
  assumes inv: "net_inv s"
  shows "net_inv (snd (rewire E key req ip s))"
proof (cases "resolve key s")
  case (Inl e)
  then show ?thesis using inv by (simp add: rewire_def)
next
  case (Inr net)
  note entry = resolve_entry [OF inv Inr]
  obtain b s1 where b: "ensure_net_bridge E net s = (b, s1)" by fastforce
  note f1 = ensure_net_bridge_frame [OF b]
  have i1: "net_inv s1" using f1 by (intro net_inv_cong [OF inv]) (auto simp: same_tables_def)
  obtain v s2 where v: "lease_v6 E net s1 = (v, s2)" by fastforce
  note v6 = lease_v6_used [OF v]
  have entry1: "nr_id net \<in> fst ` set (networks s1)"
    using entry f1 by (force simp: same_tables_def)
  have upd: "net_inv t" if "networks t = networks s2" "used4 (leases t) = used4 (leases s2)"
    "\<And>n. used6 (leases t) n \<subseteq> used6 (leases s2) n" for t
  proof -
    have "used6 (leases s2) n = {}" if "n \<notin> fst ` set (networks s1)" for n
      using v6 i1 entry1 that by (force simp: net_inv_def split: sum.splits option.splits)
    then have "used6 (leases t) n = {}" if "n \<notin> fst ` set (networks s1)" for n
      using that \<open>\<And>n. used6 (leases t) n \<subseteq> used6 (leases s2) n\<close> by blast
    then show ?thesis
      using i1 v6 that(1,2) unfolding net_inv_def by (auto simp: same_tables_def)
  qed
  show ?thesis
  proof (cases b)
    case (Inl e)
    then show ?thesis using \<open>resolve key s = Ok net\<close> b i1 by (simp add: rewire_def)
  next
    case bok: (Inr u)
    show ?thesis
    proof (cases v)
      case (Inl e)
      then show ?thesis
        using \<open>resolve key s = Ok net\<close> b bok v upd [of s2] by (simp add: rewire_def)
    next
      case vok: (Inr w)
      obtain r3 s3 where w: "wire E net req ip (v4_prefix (nr_subnet net)) w s2 = (r3, s3)" by fastforce
      from w show ?thesis
      proof (cases rule: wire_cases)
        case (failed e h)
        let ?t = "release_lease_v6 E (nr_id net) w s3"
        have "networks ?t = networks s2"
          using release_lease_v6_used(3) [of s3 E "nr_id net" w] failed by (simp add: same_tables_def)
        moreover have "used6 (leases ?t) n \<subseteq> used6 (leases s2) n" for n
          using failed by (cases w) (auto simp: release_lease_v6_used)
        ultimately have "net_inv ?t"
          using failed by (intro upd) (simp_all add: release_lease_v6_used)
        then show ?thesis
          using \<open>resolve key s = Ok net\<close> b bok v vok w failed by (simp add: rewire_def)
      next
        case (wired ep h)
        then show ?thesis
          using \<open>resolve key s = Ok net\<close> b bok v vok w upd [of s3] by (simp add: rewire_def)
      qed
    qed
  qed
qed

lemma used_reset_bucket:
  "used4 (reset_bucket ok i l) n = (if n = i then {} else used4 l n)"
  "used6 (reset_bucket ok i l) n = (if n = i then {} else used6 l n)"
  by (auto simp: reset_bucket_def Let_def used4_def used6_def bucket_def)

lemma net_inv_remove:
  assumes inv: "net_inv s"
  shows "net_inv (snd (remove_network E key s))"
proof (cases "net_get key s")
  case None
  then show ?thesis using inv by (simp add: remove_network_def)
next
  case (Some rec)
  let ?t = "snd (remove_network E key s)"
  show ?thesis
  proof (cases "nr_name rec = ''bridge''")
    case True
    then show ?thesis using inv Some by (simp add: remove_network_def)
  next
    case False
    have t: "networks ?t = assoc_del (networks s) (nr_id rec)"
      "leases ?t = reset_bucket (lease_ok E) (nr_id rec) (leases s)"
      using Some False by (simp_all add: remove_network_def Let_def)
    have "used4 (leases ?t) n = {} \<and> used6 (leases ?t) n = {}" if n: "n \<notin> fst ` set (networks ?t)" for n
    proof -
      have "n = nr_id rec \<or> n \<notin> fst ` set (networks s)"
        using n by (force simp: t(1) assoc_del_def)
      then show ?thesis using inv by (auto simp: t(2) used_reset_bucket net_inv_def)
    qed
    moreover have "\<forall>(k, n) \<in> set (networks ?t). used4 (leases ?t) k \<subseteq> hosts4 (nr_subnet n) (nr_gateway n)"
      using inv by (auto simp: t used_reset_bucket net_inv_def assoc_del_def)
    ultimately show ?thesis
      using inv nets_ok_del by (simp add: net_inv_def t(1))
  qed
qed

lemma ensure_dns_frame [simp]:
  "networks (ensure_dns E rec s) = networks s" "leases (ensure_dns E rec s) = leases s"
  by (simp_all add: ensure_dns_def Let_def split: option.splits)

lemma create_apply_tables:
  "leases (snd (create_apply E rec s)) = leases s
   \<and> (networks (snd (create_apply E rec s)) = networks s
      \<or> networks (snd (create_apply E rec s)) = assoc_put (networks s) (nr_id rec) rec)"
proof -
  obtain b s1 where b: "ensure_net_bridge E rec s = (b, s1)" by fastforce
  show ?thesis
    using ensure_net_bridge_frame [OF b] b
    by (cases b) (auto simp: create_apply_def save_network_def Let_def same_tables_def)
qed

lemma net_inv_create:
  assumes inv: "net_inv s" and fresh: "i \<notin> fst ` set (networks s)"
  shows "net_inv (snd (create_network E q b i now s))"
proof (cases "create_plan q b i now s")
  case (Inl e)
  then show ?thesis using inv by (simp add: create_network_def)
next
  case (Inr rec)
  note pl = create_plan_Ok [OF Inr]
  let ?t = "snd (create_apply E rec s)"
  obtain p where p: "subnet_parse (nr_subnet rec) = Ok p" "first_overlap p (net_records s) = None"
    using pl(5) by blast
  have "nets_ok (assoc_put (networks s) (nr_id rec) rec)"
  proof (rule nets_ok_put)
    fix k a
    assume "(k, a) \<in> set (networks s)"
    then have "a \<in> set (net_records s)" by (force simp: net_records_def)
    then show "disjoint_nets rec a"
      using first_overlap_None [OF p(2)] p(1) by (auto simp: disjoint_nets_def split: sum.splits)
  qed (use inv fresh pl in \<open>auto simp: net_inv_def by_name_None\<close>)
  moreover have "used4 (leases s) i = {}" using inv fresh by (simp add: net_inv_def)
  moreover have sub: "(k, n) \<in> set (networks s) \<Longrightarrow> x \<in> used4 (leases s) k \<Longrightarrow>
      x \<in> hosts4 (nr_subnet n) (nr_gateway n)" for k n x
    using inv by (auto simp: net_inv_def)
  ultimately have "net_inv ?t"
    using create_apply_tables [of E rec s] inv fresh pl(1)
    by (auto simp: net_inv_def assoc_put_fresh intro: sub)
  then show ?thesis using Inr by (simp add: create_network_def)
qed

lemma detach_frame:
  "networks (detach E n lit c keys s) = networks s"
  "used4 (leases (detach E n lit c keys s)) m \<subseteq> used4 (leases s) m"
  "used6 (leases (detach E n lit c keys s)) m \<subseteq> used6 (leases s) m"
  by (auto simp: detach_def Let_def at_host_def v4.rel_used v6.rel_used split: option.splits if_splits)

lemma net_inv_step: "net_step E s s' \<Longrightarrow> net_inv s \<Longrightarrow> net_inv s'"
proof (induction rule: net_step.induct)
  case (detach s n lit c keys)
  show ?case by (rule net_inv_cong [OF detach detach_frame])
next
  case (config s enabled pool)
  then show ?case
    by (intro net_inv_cong [OF config]) (auto simp: set_ipv6_config_def split: sum.splits)
next
  case (unwire s n c)
  then show ?case by (simp add: unwire_def at_host_def net_inv_def)
next
  case (register s n keys lit)
  then show ?case by (simp add: register_dns_def net_inv_def)
qed (simp_all add: net_inv_create net_inv_remove net_inv_attach net_inv_rewire)

lemma net_inv_reachable: "(net_step E)\<^sup>*\<^sup>* s s' \<Longrightarrow> net_inv s \<Longrightarrow> net_inv s'"
  by (induction rule: rtranclp_induct) (auto intro: net_inv_step)

lemma net_inv_new [simp]: "net_inv (net_new None h)"
  by (simp add: net_inv_def net_new_def nets_ok_def assoc_wf_def ipam_new_def default_leases_def
      used4_def used6_def bucket_def assoc_get_def)

lemma disjoint_hosts:
  assumes "disjoint_nets a b" "x \<in> hosts4 (nr_subnet a) (nr_gateway a)" "x \<in> hosts4 (nr_subnet b) (nr_gateway b)"
  shows False
  using assms by (auto simp: disjoint_nets_def hosts4_def contains_def overlaps_def
      split: sum.splits option.splits prod.splits)


section \<open>Concrete runs\<close>

definition env_with :: "(string \<Rightarrow> string option) \<Rightarrow> bool \<Rightarrow> unit net_env" where
  "env_with f saves = \<lparr>shell_of = \<lparr>run = (\<lambda>c a h. (f c, h))\<rparr>, lease_ok = True, save_ok = (\<lambda>_. saves),
     dns_bind_ok = (\<lambda>_. True)\<rparr>"

definition quiet_env :: "unit net_env" where
  "quiet_env = env_with (\<lambda>_. None) True"

definition plain_request :: "string \<Rightarrow> create_request" where
  "plain_request name = \<lparr>cq_name = name, cq_driver = [], cq_internal = False, cq_subnet = None,
     cq_gateway = None, cq_labels = [], cq_options = []\<rparr>"

definition one_net :: "unit net_state" where
  "one_net = snd (create_network quiet_env (plain_request ''app'') ''b1'' ''n1'' ''t'' (net_new None ()))"

definition two_nets :: "unit net_state" where
  "two_nets = snd (create_network quiet_env (plain_request ''db'') ''b2'' ''n2'' ''t'' one_net)"

definition demo_req :: attach_request where
  "demo_req = \<lparr>ar_container_id = ''c1d2e3'', ar_container_name = ''Web'', ar_hostname = ''c1d2e3'',
     ar_network = ''app'', ar_pid = 42, ar_aliases = [''front''], ar_dns_search = [], ar_requested_ip = None,
     ar_if_index = 0\<rparr>"

lemma one_net_networks: "map (\<lambda>(k, n). (k, nr_name n, nr_subnet n, nr_subnet_v6 n)) (networks one_net)
    = [(''n1'', ''app'', ''172.18.0.0/16'', [])]"
  by code_simp

lemma two_nets_networks: "map (\<lambda>(k, n). (k, nr_name n, nr_subnet n)) (networks two_nets)
    = [(''n1'', ''app'', ''172.18.0.0/16''), (''n2'', ''db'', ''172.19.0.0/16'')]"
  by code_simp

lemma two_nets_reachable: "(net_step quiet_env)\<^sup>*\<^sup>* (net_new None ()) two_nets"
proof -
  have "net_step quiet_env (net_new None ()) one_net"
    unfolding one_net_def by (rule net_step.create) (simp add: net_new_def)
  moreover have "net_step quiet_env one_net two_nets"
    unfolding two_nets_def
  proof (rule net_step.create)
    have "map fst (networks one_net) = [''n1'']"
      using one_net_networks by (auto simp: map_eq_Cons_conv)
    then show "''n2'' \<notin> fst ` set (networks one_net)"
      by (simp flip: set_map)
  qed
  ultimately show ?thesis by (meson rtranclp.simps)
qed


text \<open>With an unusable IPv6 range in a saved record, every attempt to attach takes one more IPv4
  address for good.\<close>

definition bad_v6_net :: "unit net_state" where
  "bad_v6_net = one_net\<lparr>networks := map (\<lambda>(k, n). (k, n\<lparr>nr_subnet_v6 := ''bogus'', nr_gateway_v6 := ''::1''\<rparr>))
     (networks one_net)\<rparr>"

theorem attach_v6_failure_leaks_v4:
  "\<not> is_ok (fst (attach quiet_env demo_req bad_v6_net))
   \<and> bucket (allocated (state (leases bad_v6_net))) ''n1'' = []
   \<and> bucket (allocated (state (leases (snd (attach quiet_env demo_req bad_v6_net))))) ''n1'' = [2886860802]"
  by code_simp


theorem attach_takes_free_address_witness:
  "\<exists>ep (net :: network_record) ip. attach quiet_env demo_req one_net = (Ok ep, snd (attach quiet_env demo_req one_net))
     \<and> ea_ip ep = show_ipv4 ip \<and> ip \<in> hosts4 (nr_subnet net) (nr_gateway net) \<and> ea_ip ep = ''172.18.0.2''"
proof -
  have "map_sum (\<lambda>_. ()) ea_ip (fst (attach quiet_env demo_req one_net)) = Inr ''172.18.0.2''"
    by code_simp
  then obtain ep where ep: "fst (attach quiet_env demo_req one_net) = Ok ep" "ea_ip ep = ''172.18.0.2''"
    by (cases "fst (attach quiet_env demo_req one_net)") auto
  then have at: "attach quiet_env demo_req one_net = (Ok ep, snd (attach quiet_env demo_req one_net))"
    by (metis prod.collapse)
  obtain net :: network_record and ip where "ea_ip ep = show_ipv4 ip" "ip \<in> hosts4 (nr_subnet net) (nr_gateway net)"
    using attach_takes_free_address [OF at] by blast
  with at ep(2) show ?thesis by blast
qed


theorem assign_v6_subnet_fresh_witness:
  "\<exists>c g sub. assign_v6_subnet (cidr6 \<lparr>network6 = 336294682933583715844663186250927177728, prefix6 = 48\<rparr>) ''n1'' [] = Ok (c, g)
     \<and> v6_subnet_parse c = Ok sub \<and> prefix6 sub = 64"
proof -
  let ?a = "336294682933583715844663186250927177728 :: u128"
  have "?a AND NOT (mask 64) = ?a" "?a AND v6_mask 48 = ?a"
    by (simp_all add: v6_mask_eq mask_eq_exp_minus_1)
  then have p: "v6_subnet_parse (cidr6 \<lparr>network6 = ?a, prefix6 = 48\<rparr>) = Ok \<lparr>network6 = ?a, prefix6 = 48\<rparr>"
    by (intro parse_cidr6 aligned_not_mapped) simp_all
  have "used_networks [] = []" by (simp add: used_networks_def)
  with assign_v6_subnet_fresh [OF p, of "[]" "''n1''"] show ?thesis
    by (auto split: sum.splits prod.splits dest: spec [of _ 0])
qed

text \<open>The checks of a creation and its commit are not atomic: two requests for one name that
  check before either commits both succeed.\<close>

theorem concurrent_create_duplicates:
  "case (create_plan (plain_request ''app'') ''b1'' ''n1'' ''t'' (net_new None ()),
         create_plan (plain_request ''app'') ''b2'' ''n2'' ''t'' (net_new None ())) of
     (Inr r1, Inr r2) \<Rightarrow>
       (let s1 = snd (create_apply quiet_env r1 (net_new None ())); s2 = snd (create_apply quiet_env r2 s1)
        in map (\<lambda>(k, n). (k, nr_name n, nr_subnet n)) (networks s2)
           = [(''n1'', ''app'', ''172.18.0.0/16''), (''n2'', ''app'', ''172.18.0.0/16'')])
   | _ \<Rightarrow> False"
  by code_simp

text \<open>A creation whose record cannot be saved is reported as failed, but the network stays in the
  table, so repeating the request fails because the name exists.\<close>

theorem failed_create_keeps_name:
  "(let s1 = snd (create_network (env_with (\<lambda>_. None) False) (plain_request ''app'') ''b1'' ''n1'' ''t'' (net_new None ()))
    in \<not> is_ok (fst (create_network (env_with (\<lambda>_. None) False) (plain_request ''app'') ''b1'' ''n1'' ''t'' (net_new None ())))
       \<and> fst (create_network quiet_env (plain_request ''app'') ''b2'' ''n2'' ''t'' s1) = Err (Name_Exists ''app''))"
  by code_simp

end
