(* ===== verification/Network_Boot.thy ===== *)
theory Network_Boot
  imports Network_Manager
begin

text \<open>
  The boot of the network manager (\<open>NetworkManager::boot\<close> in \<open>crates/network/src/lib.rs\<close>): loading the
  saved networks, deleting stale bridges, creating or migrating the default network, starting the
  DNS servers again, reclaiming orphaned leases and installing the base chains. The files read at
  boot and the output of \<open>ip -o link show\<close> are parameters; the audit of overlapping subnets is a list
  of warnings.
\<close>

record boot_input =
  bt_forward_ok :: bool
  bt_forward6_ok :: bool
  bt_records :: "network_record list"
  bt_links :: "string option"
  bt_new_id :: string
  bt_now :: string
  bt_endpoints :: "(string \<times> string) list"

section \<open>The audit of saved networks\<close>

datatype boot_warning =
    Invalid_Subnet_Of string
  | Gateway_Outside_Of string
  | Overlap_Of string string
  | Overlap6_Of string string

definition audit_pair :: "network_record \<Rightarrow> subnet \<Rightarrow> network_record \<Rightarrow> boot_warning list" where
  "audit_pair a sa b =
     (case subnet_parse (nr_subnet b) of
        Inr sb \<Rightarrow> if overlaps sa sb then [Overlap_Of (nr_name a) (nr_name b)] else []
      | Inl _ \<Rightarrow> [])
     @ (case (v6_subnet_parse (nr_subnet_v6 a), v6_subnet_parse (nr_subnet_v6 b)) of
          (Inr sa6, Inr sb6) \<Rightarrow> if overlaps6 sa6 sb6 then [Overlap6_Of (nr_name a) (nr_name b)] else []
        | _ \<Rightarrow> [])"

fun audit :: "network_record list \<Rightarrow> boot_warning list" where
  "audit [] = []"
| "audit (a # rest) = (case subnet_parse (nr_subnet a) of
     Inl _ \<Rightarrow> [Invalid_Subnet_Of (nr_name a)]
   | Inr sa \<Rightarrow>
       (case parse_ipv4 (nr_gateway a) of
          Some g \<Rightarrow> if \<not> contains sa g then [Gateway_Outside_Of (nr_name a)] else []
        | None \<Rightarrow> [])
       @ concat (map (audit_pair a sa) rest)) @ audit rest"

section \<open>Stale bridges\<close>

definition ifname_of :: "string \<Rightarrow> string" where
  "ifname_of line = (case split_on (CHR '':'') line of
     _ # x # _ \<Rightarrow> hd (split_on (CHR ''@'') (trim x)) | _ \<Rightarrow> [])"

definition stale_bridges :: "string list \<Rightarrow> string \<Rightarrow> string list" where
  "stale_bridges keep out =
     filter (\<lambda>i. (starts_with ''br-'' i \<or> i = ''ingot0'') \<and> i \<notin> set keep) (map ifname_of (lines out))"

definition delete_stale :: "'h net_env \<Rightarrow> string option \<Rightarrow> 'h net_state \<Rightarrow> 'h net_state" where
  "delete_stale E links s = (case links of
     None \<Rightarrow> s
   | Some out \<Rightarrow>
       at_host (\<lambda>h. foldl (\<lambda>g i. sh_ignore (shell_of E) ''ip'' [''link'', ''del'', i] g) h
         (stale_bridges (map nr_bridge (net_records s) @ [''lo'']) out)) s)"

section \<open>The default network\<close>

definition default_bridge :: "string \<Rightarrow> string \<Rightarrow> string \<times> string \<Rightarrow> network_record" where
  "default_bridge i now v6 = \<lparr>nr_id = i, nr_name = ''bridge'', nr_driver = ''bridge'', nr_bridge = ''ingot0'',
     nr_subnet = ''172.17.0.0/16'', nr_gateway = ''172.17.0.1'', nr_subnet_v6 = fst v6, nr_gateway_v6 = snd v6,
     nr_created = now, nr_internal = False, nr_attachable = False, nr_options = [], nr_labels = []\<rparr>"

definition ensure_and_save :: "'h net_env \<Rightarrow> network_record \<Rightarrow> ('h, unit) net_op" where
  "ensure_and_save E rec s = (case ensure_net_bridge E rec s of
     (Inl e, s1) \<Rightarrow> (Err e, s1) | (Inr _, s1) \<Rightarrow> save_network E rec s1)"

definition boot_default :: "'h net_env \<Rightarrow> boot_input \<Rightarrow> ('h, unit) net_op" where
  "boot_default E b s =
     (case by_name ''bridge'' s of
        None \<Rightarrow>
          (case (if v6_enabled (ipv6 s) then assign_v6_subnet (v6_pool (ipv6 s)) (bt_new_id b) [] else Ok ([], [])) of
             Inl e \<Rightarrow> (Err e, s)
           | Inr v6 \<Rightarrow> ensure_and_save E (default_bridge (bt_new_id b) (bt_now b) v6) s)
      | Some rec \<Rightarrow>
          if v6_enabled (ipv6 s) \<and> \<not> has_ipv6 rec
          then (case assign_v6_subnet (v6_pool (ipv6 s)) (nr_id rec) (existing_v6 s) of
                  Inl e \<Rightarrow> (Err e, s)
                | Inr (c, g) \<Rightarrow> ensure_and_save E (rec\<lparr>nr_subnet_v6 := c, nr_gateway_v6 := g\<rparr>) s)
          else (Ok (), s))"

section \<open>Leases and base chains\<close>

definition live_leases :: "(string \<times> string) list \<Rightarrow> (string \<times> u32) set" where
  "live_leases eps = set (concat (map (\<lambda>(n, ip). case parse_ipv4 ip of None \<Rightarrow> [] | Some a \<Rightarrow> [(n, a)]) eps))"

definition boot_sweep :: "'h net_env \<Rightarrow> (string \<times> string) list \<Rightarrow> 'h net_state \<Rightarrow> 'h net_state" where
  "boot_sweep E eps s =
     (let known = set (assoc_keys (networks s));
          l1 = snd (sweep_orphans (lease_ok E) known (live_leases eps) (leases s));
          l2 = snd (sweep_orphans_v6 (lease_ok E) known {} l1)
      in s\<lparr>leases := l2\<rparr>)"

definition jump_args :: "string \<Rightarrow> string \<Rightarrow> string \<Rightarrow> string \<Rightarrow> string list" where
  "jump_args act chain local dnat =
     [''-t'', ''nat'', act, chain] @ (if chain = ''OUTPUT'' then [''!'', ''-d'', local] else [])
     @ [''-m'', ''addrtype'', ''--dst-type'', ''LOCAL'', ''-j'', dnat]"

definition ensure_jump :: "'h shell \<Rightarrow> string \<Rightarrow> string \<Rightarrow> string \<Rightarrow> string \<Rightarrow> 'h \<Rightarrow> 'h" where
  "ensure_jump S prog local dnat chain h =
     (case sh S prog (jump_args ''-C'' chain local dnat) h of
        (Inr _, h1) \<Rightarrow> h1
      | (Inl _, h1) \<Rightarrow> sh_ignore S prog (jump_args ''-A'' chain local dnat) h1)"

definition base_chains :: "'h shell \<Rightarrow> string \<Rightarrow> string \<Rightarrow> string \<Rightarrow> 'h \<Rightarrow> 'h" where
  "base_chains S prog local dnat h =
     (let h1 = sh_ignore S prog [''-t'', ''nat'', ''-N'', dnat] h;
          h2 = sh_ignore S prog [''-t'', ''nat'', ''-F'', dnat] h1;
          h3 = sh_ignore S prog [''-t'', ''nat'', ''-D'', ''OUTPUT'', ''-m'', ''addrtype'', ''--dst-type'',
                 ''LOCAL'', ''-j'', dnat] h2
      in ensure_jump S prog local dnat ''OUTPUT'' (ensure_jump S prog local dnat ''PREROUTING'' h3))"

definition boot_chains :: "'h net_env \<Rightarrow> 'h net_state \<Rightarrow> 'h net_state" where
  "boot_chains E s =
     (let s1 = at_host (base_chains (shell_of E) ''iptables'' ''127.0.0.0/8'' ''INGOT-DNAT'') s
      in if v6_enabled (ipv6 s)
         then at_host (base_chains (shell_of E) ''ip6tables'' ''::1/128'' ''INGOT6-DNAT'') s1 else s1)"

section \<open>Boot\<close>

definition boot_load :: "network_record list \<Rightarrow> 'h net_state \<Rightarrow> 'h net_state" where
  "boot_load recs s = s\<lparr>networks := foldl (\<lambda>m r. assoc_put m (nr_id r) r) (networks s) recs\<rparr>"

definition boot_dns :: "'h net_env \<Rightarrow> 'h net_state \<Rightarrow> 'h net_state" where
  "boot_dns E s = foldl (\<lambda>t rec. if nr_name rec \<noteq> ''bridge'' then ensure_dns E rec t else t) s (net_records s)"

definition boot :: "'h net_env \<Rightarrow> boot_input \<Rightarrow> ('h, unit) net_op" where
  "boot E b s =
     (if \<not> bt_forward_ok b then (Err Save_Failed, s)
      else if v6_enabled (ipv6 s) \<and> \<not> bt_forward6_ok b then (Err Save_Failed, s)
      else (case boot_default E b (delete_stale E (bt_links b) (boot_load (bt_records b) s)) of
              (Inl e, s1) \<Rightarrow> (Err e, s1)
            | (Inr _, s1) \<Rightarrow> (Ok (), boot_chains E (boot_sweep E (bt_endpoints b) (boot_dns E s1)))))"

section \<open>Properties\<close>

lemma at_host_frame [simp]:
  "networks (at_host f s) = networks s" "leases (at_host f s) = leases s" "ipv6 (at_host f s) = ipv6 s"
  "dns_tasks (at_host f s) = dns_tasks s"
  by (simp_all add: at_host_def)

lemma delete_stale_frame [simp]:
  "networks (delete_stale E l s) = networks s" "leases (delete_stale E l s) = leases s"
  "ipv6 (delete_stale E l s) = ipv6 s" "dns_tasks (delete_stale E l s) = dns_tasks s"
  by (simp_all add: delete_stale_def split: option.splits)

lemma boot_dns_fold:
  "networks (foldl (\<lambda>t rec. if nr_name rec \<noteq> ''bridge'' then ensure_dns E rec t else t) s recs) = networks s
   \<and> leases (foldl (\<lambda>t rec. if nr_name rec \<noteq> ''bridge'' then ensure_dns E rec t else t) s recs) = leases s"
  by (induction recs arbitrary: s) simp_all

lemma boot_dns_frame [simp]: "networks (boot_dns E s) = networks s" "leases (boot_dns E s) = leases s"
  using boot_dns_fold [of E s "net_records s"] by (simp_all add: boot_dns_def)

lemma boot_chains_frame [simp]:
  "networks (boot_chains E s) = networks s" "leases (boot_chains E s) = leases s"
  by (simp_all add: boot_chains_def Let_def)

lemma boot_sweep_frame [simp]: "networks (boot_sweep E eps s) = networks s"
  by (simp add: boot_sweep_def Let_def)

lemma sweep_v6_used:
  "used6 (snd (sweep_orphans_v6 ok known {} l)) n = {}"
  "used4 (snd (sweep_orphans_v6 ok known {} l)) = used4 l"
proof -
  let ?r = "retain_live known {} (allocated_v6 (state l))"
  have a: "allocated_v6 (state (snd (sweep_orphans_v6 ok known {} l))) = snd ?r"
    "allocated (state (snd (sweep_orphans_v6 ok known {} l))) = allocated (state l)"
    by (auto simp: sweep_orphans_v6_def Let_def split: prod.splits)
  show "used6 (snd (sweep_orphans_v6 ok known {} l)) n = {}"
    using retain_live_bucket [of known "{}" "allocated_v6 (state l)" n] by (auto simp: used6_def a(1))
  show "used4 (snd (sweep_orphans_v6 ok known {} l)) = used4 l"
    by (simp add: used4_def a(2) fun_eq_iff)
qed

lemma boot_sweep_used:
  "used4 (leases (boot_sweep E eps s)) n =
     {ip \<in> used4 (leases s) n. n \<in> fst ` set (networks s) \<and> (n, ip) \<in> live_leases eps}"
  "used6 (leases (boot_sweep E eps s)) n = {}"
proof -
  obtain c l1 where l: "sweep_orphans (lease_ok E) (set (assoc_keys (networks s))) (live_leases eps) (leases s) = (c, l1)"
    by fastforce
  obtain d r where c: "c = (d, r)" by (cases c)
  show "used4 (leases (boot_sweep E eps s)) n =
     {ip \<in> used4 (leases s) n. n \<in> fst ` set (networks s) \<and> (n, ip) \<in> live_leases eps}"
    using sweep_orphans_exact [OF l [unfolded c], of n]
    by (simp add: boot_sweep_def Let_def l sweep_v6_used) (simp add: assoc_keys_def)
  show "used6 (leases (boot_sweep E eps s)) n = {}"
    by (simp add: boot_sweep_def Let_def sweep_v6_used)
qed

lemma by_name_put:
  "by_name name (s\<lparr>networks := assoc_put (networks s) (nr_id rec) rec\<rparr>) \<noteq> None \<or> nr_name rec \<noteq> name"
proof -
  have "rec \<in> set (map snd (assoc_put m k rec))" for m :: "(string, network_record) assoc" and k
    by (induction m) auto
  then have "rec \<in> set (net_records (s\<lparr>networks := assoc_put (networks s) (nr_id rec) rec\<rparr>))"
    by (simp add: net_records_def)
  then show ?thesis by (auto simp: by_name_def find_None_iff)
qed

lemma by_name_cong: "networks s' = networks s \<Longrightarrow> by_name n s' = by_name n s"
  by (simp add: by_name_def net_records_def)

lemma ensure_and_save_Ok:
  assumes "ensure_and_save E rec s = (Ok (), s')"
  shows "networks s' = assoc_put (networks s) (nr_id rec) rec" "leases s' = leases s"
proof -
  obtain r s1 where "ensure_net_bridge E rec s = (r, s1)" by fastforce
  then show "networks s' = assoc_put (networks s) (nr_id rec) rec" "leases s' = leases s"
    using assms ensure_net_bridge_frame [of E rec s r s1]
    by (cases r; auto simp: ensure_and_save_def save_network_def Let_def same_tables_def split: if_splits)+
qed

lemma boot_default_Ok:
  assumes "boot_default E b s = (Ok (), s')"
  shows "by_name ''bridge'' s' \<noteq> None" "leases s' = leases s"
proof -
  have new: "by_name ''bridge'' t \<noteq> None" if "networks t = assoc_put (networks s) (nr_id rec) rec" "nr_name rec = ''bridge''" for t rec
    using by_name_put [of "''bridge''" s rec] by_name_cong [of t "s\<lparr>networks := assoc_put (networks s) (nr_id rec) rec\<rparr>"] that
    by simp
  have saved: "by_name ''bridge'' s' \<noteq> None \<and> leases s' = leases s"
    if "ensure_and_save E rec s = (Ok (), s')" "nr_name rec = ''bridge''" for rec
    using new [OF ensure_and_save_Ok(1) [OF that(1)] that(2)] ensure_and_save_Ok(2) [OF that(1)] by simp
  have "by_name ''bridge'' s' \<noteq> None \<and> leases s' = leases s"
  proof (cases "by_name ''bridge'' s")
    case None
    then obtain v6 where "ensure_and_save E (default_bridge (bt_new_id b) (bt_now b) v6) s = (Ok (), s')"
      using assms by (auto simp: boot_default_def split: sum.splits)
    then show ?thesis by (rule saved) (simp add: default_bridge_def)
  next
    case (Some rec)
    then have "nr_name rec = ''bridge''"
      using find_SomeD by (fastforce simp: by_name_def)
    with Some assms show ?thesis
      by (auto simp: boot_default_def split: if_splits sum.splits prod.splits dest!: saved)
  qed
  then show "by_name ''bridge'' s' \<noteq> None" "leases s' = leases s" by simp_all
qed

text \<open>Claim C36: A successful boot leaves a default network, and of the leases read from disk exactly those
  that a container record of an existing network refers to; every IPv6 lease is reclaimed.\<close>

theorem boot_reclaims_orphans:
  assumes "boot E b s = (Ok (), s')"
  shows "by_name ''bridge'' s' \<noteq> None \<and> used6 (leases s') n = {}
    \<and> used4 (leases s') n = {ip \<in> used4 (leases s) n.
         n \<in> fst ` set (networks s') \<and> (n, ip) \<in> live_leases (bt_endpoints b)}"
proof -
  obtain s1 where d: "boot_default E b (delete_stale E (bt_links b) (boot_load (bt_records b) s)) = (Ok (), s1)"
    and s': "s' = boot_chains E (boot_sweep E (bt_endpoints b) (boot_dns E s1))"
    using assms by (auto simp: boot_def split: if_splits prod.splits sum.splits)
  have "leases s1 = leases s"
    using boot_default_Ok(2) [OF d] by (simp add: boot_load_def)
  moreover have "by_name ''bridge'' s' \<noteq> None"
    using boot_default_Ok(1) [OF d] by_name_cong [of s' s1] by (simp add: s')
  ultimately show ?thesis
    by (simp add: s' boot_sweep_used)
qed

definition demo_boot :: boot_input where
  "demo_boot = \<lparr>bt_forward_ok = True, bt_forward6_ok = True, bt_records = net_records one_net, bt_links = None,
     bt_new_id = ''n0'', bt_now = ''t'', bt_endpoints = [(''n1'', ''172.18.0.2''), (''gone'', ''172.19.0.2'')]\<rparr>"

definition demo_start :: "unit net_state" where
  "demo_start = net_new (Some \<lparr>allocated = [(''n1'', [2886860802, 2886860803]), (''gone'', [2886926338])],
     allocated_v6 = []\<rparr>) ()"

theorem boot_reclaims_orphans_witness:
  "used4 (leases (snd (boot quiet_env demo_boot demo_start))) ''n1'' = {2886860802}"
proof -
  have ok: "fst (boot quiet_env demo_boot demo_start) = Ok ()" by code_simp
  then have b: "boot quiet_env demo_boot demo_start = (Ok (), snd (boot quiet_env demo_boot demo_start))"
    by (metis prod.collapse)
  have "''n1'' \<in> set (map fst (networks (snd (boot quiet_env demo_boot demo_start))))" by code_simp
  moreover have "used4 (leases demo_start) ''n1'' = {2886860802, 2886860803}"
    by (simp add: demo_start_def net_new_def ipam_new_def used4_def bucket_def assoc_get_def)
  moreover have "(''n1'', 2886860802) \<in> live_leases (bt_endpoints demo_boot)"
    "(''n1'', 2886860803) \<notin> live_leases (bt_endpoints demo_boot)"
    by code_simp+
  ultimately show ?thesis
    using boot_reclaims_orphans [OF b, of "''n1''"] by auto
qed

text \<open>Only bridges with the engine's prefix or default name, and never those of loaded networks, are
  deleted.\<close>

lemma stale_bridges_ours:
  "i \<in> set (stale_bridges keep out) \<Longrightarrow> (starts_with ''br-'' i \<or> i = ''ingot0'') \<and> i \<notin> set keep"
  by (simp add: stale_bridges_def)

text \<open>A bridge that another program manages under the prefix \<open>br-\<close> is deleted at boot.\<close>

theorem foreign_bridge_deleted:
  "stale_bridges [''ingot0'', ''br-0123456789ab'', ''lo'']
     ''1: lo: <LOOPBACK>\<newline>2: br-lan@eth0: <UP>\<newline>3: br-0123456789ab: <UP>'' = [''br-lan'']"
  by code_simp

end
