(* ===== verification/Paths.thy ===== *)
theory Paths
  imports Ingot_Prelude
begin

text \<open>
  Resource names and rootfs-relative path resolution, \<open>crates/util/src/path.rs\<close>:
  \<open>validate_resource_name\<close>, \<open>validate_container_name\<close>, \<open>clean_relative_path\<close>, the
  component walk \<open>openat_walk\<close>, \<open>resolve_in_root\<close>, \<open>ensure_dir_in_root\<close> and
  \<open>ensure_file_in_root\<close>. The system calls are not part of the repository: they are the fields
  of the record \<open>kernel\<close>, a parameter of every definition that calls them, and what the walk
  relies on is the predicate \<open>confines\<close>. A path is a \<^typ>\<open>string\<close>; \<open>Path::components\<close> is modelled
  for Unix paths.
\<close>

section \<open>Resource names\<close>

datatype name_error =
  NameEmpty | NameDots | NameSeparator | NameControl | NameStart | NameInvalidChar char

definition name_char :: "char \<Rightarrow> bool" where
  "name_char c = (is_alphanumeric c \<or> c = CHR ''_'' \<or> c = CHR ''.'' \<or> c = CHR ''-'')"

definition validate_resource_name :: "string \<Rightarrow> (name_error, unit) result" where
  "validate_resource_name name =
     (if name = [] then Err NameEmpty
      else if name = ''.'' \<or> name = ''..'' then Err NameDots
      else if CHR ''/'' \<in> set name \<or> CHR 0x5C \<in> set name then Err NameSeparator
      else if list_ex is_control name then Err NameControl
      else if \<not> is_alphanumeric (hd name) then Err NameStart
      else (case find (\<lambda>c. \<not> name_char c) (tl name) of
              Some c \<Rightarrow> Err (NameInvalidChar c) | None \<Rightarrow> Ok ()))"

definition validate_container_name :: "string \<Rightarrow> (name_error, string) result" where
  "validate_container_name name =
     (let bare = (case strip_prefix ''/'' name of Some r \<Rightarrow> r | None \<Rightarrow> name) in
      and_then (validate_resource_name bare) (\<lambda>_. Ok bare))"

section \<open>Path components\<close>

datatype component = Root | CurDir | ParentDir | Normal string

definition piece_component :: "string \<Rightarrow> component list" where
  "piece_component p =
     (if p = [] \<or> p = ''.'' then [] else if p = ''..'' then [ParentDir] else [Normal p])"

text \<open>\<open>Path::components\<close>: repeated separators and inner \<open>.\<close> vanish, a leading \<open>.\<close> stays.\<close>

definition path_components :: "string \<Rightarrow> component list" where
  "path_components s =
     (let ps = split_on (CHR ''/'') s in
      (if starts_with ''/'' s then [Root] else if hd ps = ''.'' then [CurDir] else [])
      @ concat (map piece_component ps))"

definition is_absolute :: "string \<Rightarrow> bool" where
  "is_absolute s = starts_with ''/'' s"

text \<open>The cleaned path is a \<open>PathBuf\<close> of normal components, given as the list of their names.\<close>

fun clean_components :: "string list \<Rightarrow> component list \<Rightarrow> string list" where
  "clean_components out [] = out"
| "clean_components out (Normal c # cs) = clean_components (out @ [c]) cs"
| "clean_components out (CurDir # cs) = clean_components out cs"
| "clean_components out (ParentDir # cs) = clean_components (butlast out) cs"
| "clean_components out (Root # cs) = clean_components out cs"

definition clean_relative_path :: "string \<Rightarrow> string list" where
  "clean_relative_path path = clean_components [] (path_components path)"

definition path_string :: "string list \<Rightarrow> string" where
  "path_string names = join_with ''/'' names"

section \<open>The kernel interface\<close>

datatype mkdir_outcome = MkdirDone | MkdirExists | MkdirFailed
datatype 'fd openat2_outcome = Opened 'fd | NoSys | Openat2Failed

record ('fs, 'fd) kernel =
  open_root :: "'fs \<Rightarrow> string \<Rightarrow> 'fd option"
  dup_fd :: "'fs \<Rightarrow> 'fd \<Rightarrow> 'fd option"
  fstat_id :: "'fs \<Rightarrow> 'fd \<Rightarrow> (nat \<times> nat) option"
  fstat_link :: "'fs \<Rightarrow> 'fd \<Rightarrow> bool option"
  fstat_dir :: "'fs \<Rightarrow> 'fd \<Rightarrow> bool option"
  open_nofollow :: "'fs \<Rightarrow> 'fd \<Rightarrow> string \<Rightarrow> bool \<Rightarrow> 'fd option"
  open_parent :: "'fs \<Rightarrow> 'fd \<Rightarrow> 'fd option"
  open_dir_follow :: "'fs \<Rightarrow> 'fd \<Rightarrow> string \<Rightarrow> 'fd option"
  open_creat :: "'fs \<Rightarrow> 'fd \<Rightarrow> string \<Rightarrow> 'fd option \<times> 'fs"
  read_link_fd :: "'fs \<Rightarrow> 'fd \<Rightarrow> string option"
  mkdirat :: "'fs \<Rightarrow> 'fd \<Rightarrow> string \<Rightarrow> mkdir_outcome \<times> 'fs"
  openat2 :: "'fs \<Rightarrow> 'fd \<Rightarrow> string \<Rightarrow> 'fd openat2_outcome"

datatype path_error =
    OsError | NulByte | SymlinkLoop | MagicLink | UnexpectedComponent | NoFileName

definition c_string :: "string \<Rightarrow> bool" where
  "c_string s = (CHR 0x00 \<notin> set s)"

section \<open>The component walk\<close>

function openat_walk ::
  "('fs, 'fd) kernel \<Rightarrow> 'fs \<Rightarrow> 'fd \<Rightarrow> (nat \<times> nat) \<Rightarrow> 'fd \<Rightarrow> nat \<Rightarrow> component list
     \<Rightarrow> (path_error, 'fd) result" where
  "openat_walk K fs root dev_ino cur hops [] = Ok cur"
| "openat_walk K fs root dev_ino cur hops (Root # cs) =
     (case dup_fd K fs root of None \<Rightarrow> Err OsError
      | Some d \<Rightarrow> openat_walk K fs root dev_ino d hops cs)"
| "openat_walk K fs root dev_ino cur hops (CurDir # cs) =
     openat_walk K fs root dev_ino cur hops cs"
| "openat_walk K fs root dev_ino cur hops (ParentDir # cs) =
     (case fstat_id K fs cur of None \<Rightarrow> Err OsError
      | Some i \<Rightarrow>
          if i = dev_ino then openat_walk K fs root dev_ino cur hops cs
          else (case open_parent K fs cur of None \<Rightarrow> Err OsError
                | Some p \<Rightarrow> openat_walk K fs root dev_ino p hops cs))"
| "openat_walk K fs root dev_ino cur hops (Normal name # cs) =
     (if \<not> c_string name then Err NulByte else
      (case open_nofollow K fs cur name (cs = []) of None \<Rightarrow> Err OsError
       | Some next \<Rightarrow>
          (case fstat_link K fs next of None \<Rightarrow> Err OsError
           | Some False \<Rightarrow> openat_walk K fs root dev_ino next hops cs
           | Some True \<Rightarrow>
               if 40 < hops + 1 then Err SymlinkLoop
               else (case read_link_fd K fs next of None \<Rightarrow> Err OsError
                 | Some target \<Rightarrow>
                     if starts_with ''/proc/'' target then Err MagicLink
                     else if is_absolute target then
                       (case dup_fd K fs root of None \<Rightarrow> Err OsError
                        | Some d \<Rightarrow> openat_walk K fs root dev_ino d (hops + 1)
                                     (path_components target @ cs))
                     else openat_walk K fs root dev_ino cur (hops + 1)
                            (path_components target @ cs)))))"
  by pat_completeness auto
termination
  by (relation "measures [\<lambda>(K, fs, root, i, cur, hops, cs). 41 - hops,
                          \<lambda>(K, fs, root, i, cur, hops, cs). length cs]") auto

text \<open>\<open>openat_walk\<close> as it is called: the identity and a duplicate of the root first.\<close>

definition openat_walk_from ::
  "('fs, 'fd) kernel \<Rightarrow> 'fs \<Rightarrow> 'fd \<Rightarrow> string \<Rightarrow> (path_error, 'fd) result" where
  "openat_walk_from K fs root rel_path =
     (case fstat_id K fs root of None \<Rightarrow> Err OsError
      | Some dev_ino \<Rightarrow>
          (case dup_fd K fs root of None \<Rightarrow> Err OsError
           | Some d \<Rightarrow> openat_walk K fs root dev_ino d 0 (path_components rel_path)))"

text \<open>\<open>try_openat2\<close>: the process-wide flag remembers that the system call is missing.\<close>

definition try_openat2 ::
  "('fs, 'fd) kernel \<Rightarrow> 'fs \<Rightarrow> bool \<Rightarrow> 'fd \<Rightarrow> string
     \<Rightarrow> (path_error, 'fd option) result \<times> bool" where
  "try_openat2 K fs unsupported root rel_path =
     (if unsupported then (Ok None, True)
      else (let p = (if rel_path = [] then ''.'' else rel_path) in
        if \<not> c_string p then (Err NulByte, False)
        else (case openat2 K fs root p of
            Opened fd \<Rightarrow> (Ok (Some fd), False)
          | NoSys \<Rightarrow> (Ok None, True)
          | Openat2Failed \<Rightarrow> (Err OsError, False))))"

definition resolve_in_root ::
  "('fs, 'fd) kernel \<Rightarrow> 'fs \<Rightarrow> bool \<Rightarrow> string \<Rightarrow> string \<Rightarrow> (path_error, 'fd) result \<times> bool" where
  "resolve_in_root K fs unsupported root rel_path =
     (case open_root K fs root of None \<Rightarrow> (Err OsError, unsupported)
      | Some root_fd \<Rightarrow>
          (let clean_rel = path_string (clean_relative_path rel_path) in
           (case try_openat2 K fs unsupported root_fd clean_rel of
              (Inl e, u) \<Rightarrow> (Err e, u)
            | (Inr (Some fd), u) \<Rightarrow> (Ok fd, u)
            | (Inr None, u) \<Rightarrow> (openat_walk_from K fs root_fd clean_rel, u))))"

text \<open>The creation loop of \<open>ensure_dir_in_root\<close>: \<open>mkdirat\<close>, then \<open>openat\<close> without
  \<open>O_NOFOLLOW\<close>.\<close>

fun ensure_components ::
  "('fs, 'fd) kernel \<Rightarrow> 'fs \<Rightarrow> 'fd \<Rightarrow> component list \<Rightarrow> (path_error, 'fd) result \<times> 'fs" where
  "ensure_components K fs cur [] = (Ok cur, fs)"
| "ensure_components K fs cur (Normal name # cs) =
     (if \<not> c_string name then (Err NulByte, fs)
      else (case mkdirat K fs cur name of
          (MkdirFailed, fs') \<Rightarrow> (Err OsError, fs')
        | (_, fs') \<Rightarrow>
            (case open_dir_follow K fs' cur name of None \<Rightarrow> (Err OsError, fs')
             | Some next \<Rightarrow> ensure_components K fs' next cs)))"
| "ensure_components K fs cur (CurDir # cs) = ensure_components K fs cur cs"
| "ensure_components K fs cur (c # cs) = (Err UnexpectedComponent, fs)"

definition ensure_dir_in_root ::
  "('fs, 'fd) kernel \<Rightarrow> 'fs \<Rightarrow> bool \<Rightarrow> string \<Rightarrow> string
     \<Rightarrow> (path_error, 'fd) result \<times> 'fs \<times> bool" where
  "ensure_dir_in_root K fs unsupported root rel_path =
     (let clean_rel = path_string (clean_relative_path rel_path);
          (existing, u) = resolve_in_root K fs unsupported root clean_rel;
          create = (case open_root K fs root of None \<Rightarrow> (Err OsError, fs, u)
                    | Some fd \<Rightarrow> (case ensure_components K fs fd (path_components clean_rel) of
                        (r, fs') \<Rightarrow> (r, fs', u)))
      in (case existing of
            Inr fd \<Rightarrow> if fstat_dir K fs fd = Some True then (Ok fd, fs, u) else create
          | Inl _ \<Rightarrow> create))"

definition ensure_file_in_root ::
  "('fs, 'fd) kernel \<Rightarrow> 'fs \<Rightarrow> bool \<Rightarrow> string \<Rightarrow> string
     \<Rightarrow> (path_error, 'fd) result \<times> 'fs \<times> bool" where
  "ensure_file_in_root K fs unsupported root rel_path =
     (let clean = clean_relative_path rel_path in
      (case ensure_dir_in_root K fs unsupported root (path_string (butlast clean)) of
         (Inl e, fs1, u) \<Rightarrow> (Err e, fs1, u)
       | (Inr parent, fs1, u) \<Rightarrow>
           if clean = [] then (Err NoFileName, fs1, u)
           else if \<not> c_string (last clean) then (Err NulByte, fs1, u)
           else (case open_creat K fs1 parent (last clean) of
               (None, fs2) \<Rightarrow> (Err OsError, fs2, u)
             | (Some fd, fs2) \<Rightarrow> (Ok fd, fs2, u))))"

section \<open>What a walk may rely on\<close>

text \<open>A name that \<open>openat\<close> looks up in one directory.\<close>

definition plain_name :: "string \<Rightarrow> bool" where
  "plain_name n = (n \<noteq> [] \<and> n \<noteq> ''.'' \<and> n \<noteq> ''..'' \<and> CHR ''/'' \<notin> set n)"

text \<open>\<open>U\<close> is the set of descriptors of files at or beneath the root: a duplicate of the root
  is one; opening a plain name in one of them without following a link gives one; the parent
  of one that is not the root itself (by device and inode) is one; and \<open>openat2\<close> with
  \<open>RESOLVE_IN_ROOT\<close> gives one.\<close>

definition confines :: "('fs, 'fd) kernel \<Rightarrow> 'fs \<Rightarrow> 'fd \<Rightarrow> 'fd set \<Rightarrow> bool" where
  "confines K fs root U \<longleftrightarrow>
     (\<forall>d. dup_fd K fs root = Some d \<longrightarrow> d \<in> U)
   \<and> (\<forall>f \<in> U. \<forall>n b g. plain_name n \<longrightarrow> open_nofollow K fs f n b = Some g \<longrightarrow> g \<in> U)
   \<and> (\<forall>f \<in> U. \<forall>i g. fstat_id K fs f = Some i \<longrightarrow> fstat_id K fs root \<noteq> Some i
        \<longrightarrow> open_parent K fs f = Some g \<longrightarrow> g \<in> U)
   \<and> (\<forall>p fd. openat2 K fs root p = Opened fd \<longrightarrow> fd \<in> U)"


section \<open>Names that pass validation\<close>

lemma name_char_plain: "name_char c \<Longrightarrow> c \<noteq> CHR ''/'' \<and> c \<noteq> CHR 0x5C \<and> \<not> is_control c"
  by (auto simp: name_char_def is_alphanumeric_def is_digit_def is_lower_def is_upper_def is_control_def)

lemma alphanumeric_name_char: "is_alphanumeric c \<Longrightarrow> name_char c"
  by (simp add: name_char_def)

text \<open>\<open>validate_resource_name\<close> accepts exactly the names of the documented pattern
  \<open>[a-zA-Z0-9][a-zA-Z0-9_.-]*\<close>.\<close>

theorem resource_name_pattern:
  "validate_resource_name name = Ok () \<longleftrightarrow>
     (\<exists>c cs. name = c # cs \<and> is_alphanumeric c \<and> list_all name_char cs)"
proof (cases name)
  case Nil
  then show ?thesis by (simp add: validate_resource_name_def)
next
  case (Cons c cs)
  have "\<not> list_ex is_control name \<and> CHR ''/'' \<notin> set name \<and> CHR 0x5C \<notin> set name
      \<and> name \<noteq> ''.'' \<and> name \<noteq> ''..''"
    if "is_alphanumeric c" "list_all name_char cs"
  proof -
    have all: "x \<noteq> CHR ''/'' \<and> x \<noteq> CHR 0x5C \<and> \<not> is_control x" if "x \<in> set name" for x
      using that Cons name_char_plain alphanumeric_name_char \<open>is_alphanumeric c\<close> \<open>list_all name_char cs\<close>
      by (auto simp: list_all_iff)
    moreover have "c \<noteq> CHR ''.''"
      using \<open>is_alphanumeric c\<close>
      by (auto simp: is_alphanumeric_def is_digit_def is_lower_def is_upper_def)
    ultimately show ?thesis
      using Cons by (auto simp: list_ex_iff)
  qed
  moreover have "find (\<lambda>c. \<not> name_char c) cs = None \<longleftrightarrow> list_all name_char cs"
    by (auto simp: find_None_iff list_all_iff)
  ultimately show ?thesis
    using Cons by (auto simp: validate_resource_name_def split: option.splits)
qed

lemma valid_name_plain:
  assumes "validate_resource_name name = Ok ()"
  shows "plain_name name"
proof -
  obtain c cs where n: "name = c # cs" "is_alphanumeric c" "list_all name_char cs"
    using assms unfolding resource_name_pattern by blast
  then have "\<forall>x \<in> set name. x \<noteq> CHR ''/''"
    using name_char_plain alphanumeric_name_char by (auto simp: list_all_iff)
  moreover have "c \<noteq> CHR ''.''"
    using n(2) by (auto simp: is_alphanumeric_def is_digit_def is_lower_def is_upper_def)
  ultimately show ?thesis
    using n(1) by (auto simp: plain_name_def)
qed

section \<open>Cleaned paths\<close>

definition plain_component :: "component \<Rightarrow> bool" where
  "plain_component c = (case c of Normal n \<Rightarrow> plain_name n | _ \<Rightarrow> True)"

lemma path_components_plain: "c \<in> set (path_components s) \<Longrightarrow> plain_component c"
proof -
  assume "c \<in> set (path_components s)"
  then consider "c = Root" | "c = CurDir" | p where "p \<in> set (split_on (CHR ''/'') s)" "c \<in> set (piece_component p)"
    by (auto simp: path_components_def Let_def split: if_splits)
  then show ?thesis
  proof cases
    case 3
    with split_on_no_sep [OF 3(1)] show ?thesis
      by (auto simp: piece_component_def plain_component_def plain_name_def split: if_splits)
  qed (simp_all add: plain_component_def)
qed

lemma path_components_names:
  assumes "\<forall>n \<in> set names. plain_name n"
  shows "path_components (path_string names) = map Normal names"
proof (cases names)
  case Nil
  then show ?thesis
    by (simp add: path_string_def path_components_def piece_component_def starts_with_def)
next
  case (Cons n ns)
  have split: "split_on (CHR ''/'') (path_string names) = names"
    unfolding path_string_def using assms Cons by (intro split_on_join) (auto simp: plain_name_def)
  have pieces: "concat (map piece_component ms) = map Normal ms" if "\<forall>n \<in> set ms. plain_name n" for ms
    using that by (induction ms) (auto simp: piece_component_def plain_name_def)
  have "\<not> starts_with ''/'' (path_string names)"
  proof
    assume "starts_with ''/'' (path_string names)"
    then obtain t where "path_string names = CHR ''/'' # t"
      by (auto simp: starts_with_iff)
    then have "[] \<in> set names"
      using split by (metis list.set_intros(1) split_on.simps(2))
    with assms show False by (auto simp: plain_name_def)
  qed
  then show ?thesis
    using split pieces [OF assms] assms Cons
    by (auto simp: path_components_def Let_def plain_name_def)
qed

lemma clean_components_plain:
  "\<forall>n \<in> set out. plain_name n \<Longrightarrow> \<forall>c \<in> set cs. plain_component c \<Longrightarrow>
     \<forall>n \<in> set (clean_components out cs). plain_name n"
  by (induction out cs rule: clean_components.induct)
    (auto simp: plain_component_def dest: in_set_butlastD)

lemma clean_components_names: "clean_components out (map Normal names) = out @ names"
  by (induction names arbitrary: out) auto

lemma clean_relative_plain: "\<forall>n \<in> set (clean_relative_path path). plain_name n"
  unfolding clean_relative_path_def
  using path_components_plain by (intro clean_components_plain) auto

text \<open>A cleaned path has only plain components: no empty one, no \<open>.\<close> or \<open>..\<close>, none
  with a separator, so joining it to a directory stays beneath that directory; and cleaning
  is idempotent.\<close>

theorem clean_relative_path_confined:
  "list_all plain_name (clean_relative_path path)
   \<and> clean_relative_path (path_string (clean_relative_path path)) = clean_relative_path path"
proof
  show "list_all plain_name (clean_relative_path path)"
    using clean_relative_plain by (simp add: list_all_iff)
  show "clean_relative_path (path_string (clean_relative_path path)) = clean_relative_path path"
    using path_components_names [OF clean_relative_plain]
    by (simp add: clean_relative_path_def [of "path_string _"] clean_components_names)
qed

section \<open>The walk stays beneath the root\<close>

lemma confinesD:
  assumes "confines K fs root U"
  shows "dup_fd K fs root = Some d \<Longrightarrow> d \<in> U"
    and "f \<in> U \<Longrightarrow> plain_name n \<Longrightarrow> open_nofollow K fs f n b = Some g \<Longrightarrow> g \<in> U"
    and "f \<in> U \<Longrightarrow> fstat_id K fs f = Some i \<Longrightarrow> fstat_id K fs root \<noteq> Some i \<Longrightarrow>
      open_parent K fs f = Some g \<Longrightarrow> g \<in> U"
    and "openat2 K fs root p = Opened fd \<Longrightarrow> fd \<in> U"
  using assms unfolding confines_def by blast+

lemma openat_walk_confined:
  assumes conf: "confines K fs root U" and root: "fstat_id K fs root = Some dev_ino"
  shows "cur \<in> U \<Longrightarrow> \<forall>c \<in> set cs. plain_component c \<Longrightarrow>
     openat_walk K fs root dev_ino cur hops cs = Ok fd \<Longrightarrow> fd \<in> U"
  using conf root
proof (induction K fs root dev_ino cur hops cs rule: openat_walk.induct)
  case (1 K fs root dev_ino cur hops)
  then show ?case by simp
next
  case (2 K fs root dev_ino cur hops cs)
  then show ?case by (auto split: option.splits dest: confinesD(1))
next
  case (3 K fs root dev_ino cur hops cs)
  then show ?case by simp
next
  case (4 K fs root dev_ino cur hops cs)
  then show ?case by (auto split: option.splits if_splits dest: confinesD(3))
next
  case (5 K fs root dev_ino cur hops name cs)
  obtain nxt where o: "c_string name" "open_nofollow K fs cur name (cs = []) = Some nxt"
    using "5.prems"(3) by (auto split: if_splits option.splits)
  have nxt: "nxt \<in> U"
    using confinesD(2) [OF "5.prems"(4,1) _ o(2)] "5.prems"(2) by (simp add: plain_component_def)
  have rest: "\<forall>c \<in> set cs. plain_component c"
    using "5.prems"(2) by simp
  then have cs: "\<forall>c \<in> set (path_components t @ cs). plain_component c" for t
    using path_components_plain by auto
  show ?case
  proof (cases "fstat_link K fs nxt")
    case None
    with "5.prems"(3) o show ?thesis by simp
  next
    case (Some l)
    show ?thesis
    proof (cases l)
      case False
      with "5.prems"(3) o Some have "openat_walk K fs root dev_ino nxt hops cs = Ok fd" by simp
      then show ?thesis
        using "5.IH"(3) [OF _ o(2) _ _ nxt rest _ "5.prems"(4,5)] o Some False by simp
    next
      case True
      obtain t where t: "\<not> 40 < hops + 1" "read_link_fd K fs nxt = Some t" "\<not> starts_with ''/proc/'' t"
        using "5.prems"(3) o Some True by (auto split: if_splits option.splits)
      show ?thesis
      proof (cases "is_absolute t")
        case abs: True
        obtain d where d: "dup_fd K fs root = Some d"
          "openat_walk K fs root dev_ino d (hops + 1) (path_components t @ cs) = Ok fd"
          using "5.prems"(3) o Some True t abs by (auto split: option.splits)
        have "d \<in> U"
          using confinesD(1) [OF "5.prems"(4) d(1)] .
        then show ?thesis
          using "5.IH"(1) [OF _ o(2) _ _ t abs d(1) _ cs d(2) "5.prems"(4,5)] o Some True by simp
      next
        case rel: False
        have "openat_walk K fs root dev_ino cur (hops + 1) (path_components t @ cs) = Ok fd"
          using "5.prems"(3) o Some True t rel by simp
        then show ?thesis
          using "5.IH"(2) [OF _ o(2) _ _ t rel "5.prems"(1) cs _ "5.prems"(4,5)] o Some True by simp
      qed
    qed
  qed
qed

text \<open>Claim C6: Whatever the path and however symbolic links below the root point,
  \<open>resolve_in_root\<close> returns only descriptors of files at or beneath the root, both when
  \<open>openat2\<close> is available and in the component-walk fallback.\<close>

theorem resolve_in_root_confined:
  assumes "open_root K fs root = Some root_fd" "confines K fs root_fd U"
    and "resolve_in_root K fs unsupported root rel_path = (Ok fd, u)"
  shows "fd \<in> U"
proof -
  let ?rel = "path_string (clean_relative_path rel_path)"
  obtain r u' where r: "try_openat2 K fs unsupported root_fd ?rel = (r, u')"
    by (cases "try_openat2 K fs unsupported root_fd ?rel")
  have "r = Ok (Some fd) \<or> openat_walk_from K fs root_fd ?rel = Ok fd"
    using assms(1,3) r by (auto simp: resolve_in_root_def Let_def split: sum.splits option.splits)
  moreover have "\<exists>p. openat2 K fs root_fd p = Opened fd" if "r = Ok (Some fd)"
    using r that
    by (auto simp: try_openat2_def Let_def split: if_splits openat2_outcome.splits)
  ultimately consider (openat2) p where "openat2 K fs root_fd p = Opened fd"
    | (walk) "openat_walk_from K fs root_fd ?rel = Ok fd"
    by blast
  then show ?thesis
  proof cases
    case openat2
    with confinesD(4) [OF assms(2)] show ?thesis .
  next
    case walk
    then obtain i d where i: "fstat_id K fs root_fd = Some i" "dup_fd K fs root_fd = Some d"
      and w: "openat_walk K fs root_fd i d 0 (path_components ?rel) = Ok fd"
      by (auto simp: openat_walk_from_def split: option.splits)
    have "d \<in> U"
      using confinesD(1) [OF assms(2) i(2)] .
    with openat_walk_confined [OF assms(2) i(1)] w path_components_plain show ?thesis by blast
  qed
qed

text \<open>A small file system for the witnesses: descriptor 0 is the root, with a directory
  \<open>sub\<close> (1) and a link \<open>evil\<close> (2) to \<open>/etc\<close>; descriptor 9 is the host's \<open>/etc\<close>, outside.
  Following the link leads to the host's directory, as \<open>openat\<close> does.\<close>

definition demo_kernel :: "(nat, nat) kernel" where
  "demo_kernel = \<lparr>
     open_root = (\<lambda>fs r. Some 0), dup_fd = (\<lambda>fs f. Some f),
     fstat_id = (\<lambda>fs f. Some (0, f)), fstat_link = (\<lambda>fs f. Some (f = 2)),
     fstat_dir = (\<lambda>fs f. Some (f \<noteq> 2)),
     open_nofollow = (\<lambda>fs f n l. if f = 0 \<and> n = ''sub'' then Some 1
                              else if f = 0 \<and> n = ''evil'' then Some 2 else None),
     open_parent = (\<lambda>fs f. if f = 1 \<or> f = 2 then Some 0 else None),
     open_dir_follow = (\<lambda>fs f n. if f = 0 \<and> n = ''evil'' then Some 9
                              else if f = 0 \<and> n = ''sub'' then Some 1
                              else if f = 9 \<and> n = ''new'' then Some 10 else None),
     open_creat = (\<lambda>fs f n. (None, fs)),
     read_link_fd = (\<lambda>fs f. if f = 2 then Some ''/etc'' else None),
     mkdirat = (\<lambda>fs f n. if f = 0 then (MkdirExists, fs) else (MkdirDone, fs + 1)),
     openat2 = (\<lambda>fs f p. NoSys)\<rparr>"

lemma demo_confines: "confines demo_kernel fs 0 {0, 1, 2}"
  by (auto simp: confines_def demo_kernel_def split: if_splits)

theorem resolve_in_root_confined_witness:
  "resolve_in_root demo_kernel 0 False ''/r'' ''../sub/.'' = (Ok 1, True) \<and> 1 \<in> {0, 1, 2 :: nat}"
proof -
  have r: "resolve_in_root demo_kernel 0 False ''/r'' ''../sub/.'' = (Ok 1, True)"
    by code_simp
  have "open_root demo_kernel 0 ''/r'' = Some 0"
    by (simp add: demo_kernel_def)
  from r resolve_in_root_confined [OF this demo_confines r] show ?thesis by simp
qed

text \<open>\<open>ensure_dir_in_root\<close> does not give this guarantee. Its creation loop opens each
  component with \<open>openat\<close> but without \<open>O_NOFOLLOW\<close>: under a kernel for which
  \<open>resolve_in_root\<close> is confined, a link in the root that points to a host directory makes it
  create a directory in, and return a descriptor of, the host's tree.\<close>

theorem ensure_dir_in_root_escapes:
  "\<exists>(K :: (nat, nat) kernel) U root_fd fd fs.
     open_root K 0 ''/r'' = Some root_fd \<and> confines K 0 root_fd U
     \<and> ensure_dir_in_root K 0 False ''/r'' ''evil/new'' = (Ok fd, fs, True) \<and> fd \<notin> U \<and> fs \<noteq> 0"
proof (intro exI conjI)
  show "open_root demo_kernel 0 ''/r'' = Some 0"
    by (simp add: demo_kernel_def)
  show "confines demo_kernel 0 0 {0, 1, 2}"
    by (rule demo_confines)
  show "ensure_dir_in_root demo_kernel 0 False ''/r'' ''evil/new'' = (Ok 10, 1, True)"
    by code_simp
qed simp_all

end
