(* ===== verification/Privileges.thy ===== *)
theory Privileges
  imports Ingot_Prelude
begin

text \<open>
  What a container's process may do and as whom it runs: the capability tables and
  \<open>compute_keep\<close> of \<open>crates/runtime/src/child.rs\<close>, the numeric user fast path of
  \<open>crates/runtime/src/manager.rs\<close> and the resolution of users and groups against the container's
  own \<open>/etc/passwd\<close> and \<open>/etc/group\<close>. The \<open>caps\<close> crate is not part of the sources: its
  \<open>Capability::from_str\<close> and \<open>caps::all\<close> are parameters.
\<close>

named_theorems cap_simps \<open>evaluation of capability names\<close>

section \<open>Capabilities\<close>

definition DEFAULT_CAPS :: "string list" where
  "DEFAULT_CAPS = [''CHOWN'', ''DAC_OVERRIDE'', ''FSETID'', ''FOWNER'', ''NET_RAW'', ''SETGID'',
     ''SETUID'', ''SETFCAP'', ''SETPCAP'', ''NET_BIND_SERVICE'', ''SYS_CHROOT'', ''KILL'',
     ''AUDIT_WRITE'']"

definition ALL_CAPS :: "string list" where
  "ALL_CAPS = [''CHOWN'', ''DAC_OVERRIDE'', ''DAC_READ_SEARCH'', ''FOWNER'', ''FSETID'', ''KILL'',
     ''SETGID'', ''SETUID'', ''SETPCAP'', ''LINUX_IMMUTABLE'', ''NET_BIND_SERVICE'',
     ''NET_BROADCAST'', ''NET_ADMIN'', ''NET_RAW'', ''IPC_LOCK'', ''IPC_OWNER'', ''SYS_MODULE'',
     ''SYS_RAWIO'', ''SYS_CHROOT'', ''SYS_PTRACE'', ''SYS_PACCT'', ''SYS_ADMIN'', ''SYS_BOOT'',
     ''SYS_NICE'', ''SYS_RESOURCE'', ''SYS_TIME'', ''SYS_TTY_CONFIG'', ''MKNOD'', ''LEASE'',
     ''AUDIT_WRITE'', ''AUDIT_CONTROL'', ''SETFCAP'', ''MAC_OVERRIDE'', ''MAC_ADMIN'', ''SYSLOG'',
     ''WAKE_ALARM'', ''BLOCK_SUSPEND'', ''AUDIT_READ'', ''PERFMON'', ''BPF'',
     ''CHECKPOINT_RESTORE'']"

fun position :: "'a \<Rightarrow> 'a list \<Rightarrow> nat option" where
  "position a [] = None"
| "position a (x # xs) = (if x = a then Some 0 else map_option Suc (position a xs))"

definition cap_name_to_bit :: "string \<Rightarrow> nat option" where
  "cap_name_to_bit name =
     (let upper = to_uppercase (trim_start_matches ''CAP_'' (trim name)) in
      map_option (\<lambda>i. 2 ^ i) (position upper ALL_CAPS))"

definition drop_full_name :: "string \<Rightarrow> string" where
  "drop_full_name name = (if starts_with ''CAP_'' name then name else ''CAP_'' @ to_uppercase name)"

definition add_full_name :: "string \<Rightarrow> string" where
  "add_full_name name = (if starts_with ''CAP_'' name then to_uppercase name
                         else ''CAP_'' @ to_uppercase name)"

definition default_keep :: "(string \<Rightarrow> 'c option) \<Rightarrow> 'c set" where
  "default_keep from_str =
     fold (\<lambda>name keep. case from_str (''CAP_'' @ name) of None \<Rightarrow> keep | Some c \<Rightarrow> insert c keep)
       DEFAULT_CAPS {}"

fun drop_caps :: "(string \<Rightarrow> 'c option) \<Rightarrow> string list \<Rightarrow> 'c set \<Rightarrow> 'c set" where
  "drop_caps from_str [] keep = keep"
| "drop_caps from_str (name # names) keep =
     (if eq_ignore_ascii_case name ''ALL'' then drop_caps from_str names {}
      else case from_str (drop_full_name name) of
             None \<Rightarrow> drop_caps from_str names keep
           | Some c \<Rightarrow> drop_caps from_str names (keep - {c}))"

fun add_caps :: "(string \<Rightarrow> 'c option) \<Rightarrow> 'c set \<Rightarrow> string list \<Rightarrow> 'c set \<Rightarrow> 'c set" where
  "add_caps from_str all_caps [] keep = keep"
| "add_caps from_str all_caps (name # names) keep =
     (if eq_ignore_ascii_case name ''ALL'' then add_caps from_str all_caps names (keep \<union> all_caps)
      else case from_str (add_full_name name) of
             None \<Rightarrow> add_caps from_str all_caps names keep
           | Some c \<Rightarrow> add_caps from_str all_caps names (insert c keep))"

definition compute_keep ::
  "(string \<Rightarrow> 'c option) \<Rightarrow> 'c set \<Rightarrow> string list \<Rightarrow> string list \<Rightarrow> bool \<Rightarrow> 'c set option" where
  "compute_keep from_str all_caps cap_add cap_drop privileged =
     (if privileged then None
      else Some (add_caps from_str all_caps cap_add
                   (drop_caps from_str cap_drop (default_keep from_str))))"

text \<open>What the code relies on in the \<open>caps\<close> crate: the full upper-case name of a capability is
  parsed to a capability of its own, and nothing else is parsed.\<close>

definition caps_crate :: "(string \<Rightarrow> 'c option) \<Rightarrow> (string \<Rightarrow> 'c) \<Rightarrow> bool" where
  "caps_crate from_str cap \<longleftrightarrow>
     inj_on cap (set ALL_CAPS) \<and>
     (\<forall>s. from_str s = (case strip_prefix ''CAP_'' s of None \<Rightarrow> None
        | Some n \<Rightarrow> if n \<in> set ALL_CAPS then Some (cap n) else None))"

text \<open>The instance used by the witnesses: a capability is its name.\<close>

definition names_from_str :: "string \<Rightarrow> string option" where
  "names_from_str s = (case strip_prefix ''CAP_'' s of None \<Rightarrow> None
     | Some n \<Rightarrow> if n \<in> set ALL_CAPS then Some n else None)"

lemma names_caps_crate: "caps_crate names_from_str (\<lambda>n. n)"
  by (simp add: caps_crate_def names_from_str_def)

lemma caps_crate_known [cap_simps]:
  "caps_crate from_str cap \<Longrightarrow> n \<in> set ALL_CAPS \<Longrightarrow> from_str (''CAP_'' @ n) = Some (cap n)"
proof -
  assume "caps_crate from_str cap" "n \<in> set ALL_CAPS"
  moreover have "strip_prefix ''CAP_'' (''CAP_'' @ n) = Some n"
    by (simp only: strip_prefix_Some)
  ultimately show ?thesis by (simp only: caps_crate_def) simp
qed

lemma all_caps_upper: "n \<in> set ALL_CAPS \<Longrightarrow> to_uppercase n = n"
proof -
  have "list_all (\<lambda>n. to_uppercase n = n) ALL_CAPS" by code_simp
  then show "n \<in> set ALL_CAPS \<Longrightarrow> to_uppercase n = n" by (simp add: list_all_iff)
qed

lemma all_caps_unprefixed: "n \<in> set ALL_CAPS \<Longrightarrow> \<not> starts_with ''CAP_'' n"
proof -
  have "list_all (\<lambda>n. \<not> starts_with ''CAP_'' n) ALL_CAPS" by code_simp
  then show "n \<in> set ALL_CAPS \<Longrightarrow> \<not> starts_with ''CAP_'' n" by (simp add: list_all_iff)
qed

lemma all_caps_not_ALL: "n \<in> set ALL_CAPS \<Longrightarrow> \<not> eq_ignore_ascii_case n ''ALL''"
proof -
  have "list_all (\<lambda>n. \<not> eq_ignore_ascii_case n ''ALL'') ALL_CAPS" by code_simp
  then show "n \<in> set ALL_CAPS \<Longrightarrow> \<not> eq_ignore_ascii_case n ''ALL''" by (simp add: list_all_iff)
qed

lemma default_caps_known: "set DEFAULT_CAPS \<subseteq> set ALL_CAPS"
  by code_simp

lemma full_names_plain [cap_simps]:
  "n \<in> set ALL_CAPS \<Longrightarrow> drop_full_name n = ''CAP_'' @ n"
  "n \<in> set ALL_CAPS \<Longrightarrow> add_full_name n = ''CAP_'' @ n"
  by (simp_all add: drop_full_name_def add_full_name_def all_caps_unprefixed all_caps_upper)

lemma fold_insert_known:
  assumes "caps_crate from_str cap" and "set ns \<subseteq> set ALL_CAPS"
  shows "fold (\<lambda>name keep. case from_str (''CAP_'' @ name) of None \<Rightarrow> keep | Some c \<Rightarrow> insert c keep)
           ns keep = keep \<union> cap ` set ns"
  using assms(2)
proof (induction ns arbitrary: keep)
  case Nil
  then show ?case by simp
next
  case (Cons n ns)
  then have "from_str (''CAP_'' @ n) = Some (cap n)"
    using caps_crate_known[OF assms(1)] by simp
  then show ?case using Cons by simp
qed

lemma default_keep_eq: "caps_crate from_str cap \<Longrightarrow> default_keep from_str = cap ` set DEFAULT_CAPS"
  unfolding default_keep_def by (subst fold_insert_known) (auto simp: default_caps_known)

text \<open>A drop or add list that the validation accepts in canonical spelling: \<open>ALL\<close> or a known name.\<close>

definition canonical :: "string \<Rightarrow> bool" where
  "canonical n = (eq_ignore_ascii_case n ''ALL'' \<or> n \<in> set ALL_CAPS)"

definition names_all :: "string list \<Rightarrow> bool" where
  "names_all ns = list_ex (\<lambda>n. eq_ignore_ascii_case n ''ALL'') ns"

lemma drop_caps_canonical:
  assumes "caps_crate from_str cap" and "list_all canonical ns" and "keep \<subseteq> cap ` set ALL_CAPS"
  shows "drop_caps from_str ns keep =
           (if names_all ns then {} else keep - cap ` (set ns \<inter> set ALL_CAPS))"
  using assms(2,3)
proof (induction ns arbitrary: keep)
  case Nil
  then show ?case by (simp add: names_all_def)
next
  case (Cons n ns)
  show ?case
  proof (cases "eq_ignore_ascii_case n ''ALL''")
    case True
    then show ?thesis using Cons by (simp add: names_all_def)
  next
    case False
    then have n: "n \<in> set ALL_CAPS" using Cons.prems by (simp add: canonical_def)
    then have "from_str (drop_full_name n) = Some (cap n)"
      by (simp only: full_names_plain caps_crate_known[OF assms(1)])
    moreover have "keep - {cap n} \<subseteq> cap ` set ALL_CAPS" using Cons.prems by auto
    ultimately show ?thesis using False n Cons.IH[of "keep - {cap n}"] Cons.prems
      by (simp add: names_all_def) blast
  qed
qed

lemma add_caps_canonical:
  assumes "caps_crate from_str cap" and "list_all canonical ns"
  shows "add_caps from_str all_caps ns keep =
           keep \<union> cap ` (set ns \<inter> set ALL_CAPS) \<union> (if names_all ns then all_caps else {})"
  using assms(2)
proof (induction ns arbitrary: keep)
  case Nil
  then show ?case by (simp add: names_all_def)
next
  case (Cons n ns)
  show ?case
  proof (cases "eq_ignore_ascii_case n ''ALL''")
    case True
    then have "n \<notin> set ALL_CAPS" using all_caps_not_ALL by blast
    then show ?thesis using Cons True by (auto simp: names_all_def)
  next
    case False
    then have n: "n \<in> set ALL_CAPS" using Cons.prems by (simp add: canonical_def)
    then have "from_str (add_full_name n) = Some (cap n)"
      by (simp only: full_names_plain caps_crate_known[OF assms(1)])
    then show ?thesis using False n Cons by (auto simp: names_all_def)
  qed
qed

text \<open>Claim C30: For an unprivileged container whose capability lists use canonical names, the
  kept set is exactly the default set without the dropped capabilities (nothing of it if
  \<open>ALL\<close> is dropped) together with the added ones (every capability of the daemon if \<open>ALL\<close> is
  added): additions win over drops whatever the order of the lists.\<close>

theorem compute_keep_exact:
  assumes "caps_crate from_str cap" and "list_all canonical adds" and "list_all canonical drops"
  shows "compute_keep from_str all_caps adds drops False =
           Some ((if names_all drops then {} else cap ` (set DEFAULT_CAPS - set drops)) \<union>
                 cap ` (set adds \<inter> set ALL_CAPS) \<union> (if names_all adds then all_caps else {}))"
proof -
  have inj: "inj_on cap (set ALL_CAPS)" using assms(1) by (simp add: caps_crate_def)
  have "cap ` set DEFAULT_CAPS - cap ` (set drops \<inter> set ALL_CAPS) = cap ` (set DEFAULT_CAPS - set drops)"
    using inj default_caps_known by (force simp: inj_on_def)
  moreover have "cap ` set DEFAULT_CAPS \<subseteq> cap ` set ALL_CAPS"
    using default_caps_known by blast
  ultimately show ?thesis
    using assms by (simp add: compute_keep_def default_keep_eq drop_caps_canonical add_caps_canonical)
qed

theorem compute_keep_exact_witness:
  "compute_keep names_from_str {} [''MKNOD''] [''KILL''] False =
     Some ((set DEFAULT_CAPS - {''KILL''}) \<union> {''MKNOD''})"
proof -
  have "list_all canonical [''MKNOD'']" "list_all canonical [''KILL'']" by code_simp+
  moreover have "\<not> names_all [''MKNOD'']" "\<not> names_all [''KILL'']" by code_simp+
  moreover have "''MKNOD'' \<in> set ALL_CAPS" by code_simp
  ultimately show ?thesis
    using compute_keep_exact[OF names_caps_crate, of "[''MKNOD'']" "[''KILL'']" "{}"] by simp
qed

text \<open>A capability spelled with the prefix in upper case and the name in lower case, such
  as \<open>CAP_net_raw\<close>, passes the create-time validation (it has a bit) but dropping it has no
  effect: the container keeps \<open>NET_RAW\<close>, while adding a capability in that spelling works.\<close>

theorem mixed_case_drop_ignored:
  assumes "caps_crate from_str cap"
  shows "cap_name_to_bit ''CAP_net_raw'' \<noteq> None \<and>
         compute_keep from_str all_caps [] [''CAP_net_raw''] False = Some (cap ` set DEFAULT_CAPS) \<and>
         cap ''NET_RAW'' \<in> cap ` set DEFAULT_CAPS \<and>
         compute_keep from_str all_caps [''CAP_net_raw''] [''ALL''] False = Some {cap ''NET_RAW''}"
proof (intro conjI)
  have lower: "from_str ''CAP_net_raw'' = None"
  proof -
    have "strip_prefix ''CAP_'' ''CAP_net_raw'' = Some ''net_raw''" by code_simp
    moreover have "''net_raw'' \<notin> set ALL_CAPS" by code_simp
    ultimately show ?thesis using assms by (simp add: caps_crate_def)
  qed
  have names: "drop_full_name ''CAP_net_raw'' = ''CAP_net_raw''"
    "add_full_name ''CAP_net_raw'' = ''CAP_'' @ ''NET_RAW''"
    "eq_ignore_ascii_case ''ALL'' ''ALL''" "\<not> eq_ignore_ascii_case ''CAP_net_raw'' ''ALL''"
    "''NET_RAW'' \<in> set ALL_CAPS" by code_simp+
  show "cap_name_to_bit ''CAP_net_raw'' \<noteq> None" by code_simp
  show "compute_keep from_str all_caps [] [''CAP_net_raw''] False = Some (cap ` set DEFAULT_CAPS)"
    using names lower assms by (simp add: compute_keep_def default_keep_eq)
  show "cap ''NET_RAW'' \<in> cap ` set DEFAULT_CAPS"
    by (rule imageI) code_simp
  show "compute_keep from_str all_caps [''CAP_net_raw''] [''ALL''] False = Some {cap ''NET_RAW''}"
    using names caps_crate_known[OF assms, of "''NET_RAW''"] by (simp add: compute_keep_def)
qed

theorem mixed_case_drop_ignored_witness:
  "''NET_RAW'' \<in> the (compute_keep names_from_str {} [] [''CAP_net_raw''] False)"
proof -
  have "compute_keep names_from_str {} [] [''CAP_net_raw''] False = Some (set DEFAULT_CAPS)"
    "''NET_RAW'' \<in> set DEFAULT_CAPS"
    using mixed_case_drop_ignored[OF names_caps_crate, of "{}"] by simp_all
  then show ?thesis by simp
qed

section \<open>Users and groups\<close>

text \<open>User and group ids are \<open>u32\<close> values; \<open>u32::MAX\<close> marks an unresolved id.\<close>

definition id_max :: nat where
  "id_max = 4294967295"

definition user_miss :: "nat \<times> nat \<times> nat list" where
  "user_miss = (id_max, id_max, [])"

fun parse_gids :: "string list \<Rightarrow> nat list option" where
  "parse_gids [] = Some []"
| "parse_gids (g # gs) = (case parse_u32 g of None \<Rightarrow> None | Some x \<Rightarrow> map_option ((#) x) (parse_gids gs))"

definition parse_user_numeric :: "string \<Rightarrow> nat \<times> nat \<times> nat list" where
  "parse_user_numeric user =
     (if user = [] then user_miss
      else case split_once CHR '':'' user of
        None \<Rightarrow> user_miss
      | Some (u, groups) \<Rightarrow>
          (case parse_u32 u of
             None \<Rightarrow> user_miss
           | Some uid \<Rightarrow>
               (case split_on CHR '','' groups of
                  [] \<Rightarrow> user_miss
                | g # rest \<Rightarrow>
                    (case parse_u32 g of
                       None \<Rightarrow> user_miss
                     | Some gid \<Rightarrow>
                         (case parse_gids rest of None \<Rightarrow> user_miss | Some extra \<Rightarrow> (uid, gid, extra))))))"

text \<open>The lookup closure of \<open>parse_group_list\<close>: the first line of the group file with that name
  decides, also when its third field is not a number.\<close>

fun group_lookup :: "string list \<Rightarrow> string \<Rightarrow> nat option" where
  "group_lookup [] name = None"
| "group_lookup (line # rest) name =
     (let fields = split_on CHR '':'' line in
      if 3 \<le> length fields \<and> fields ! 0 = name then parse_u32 (fields ! 2)
      else group_lookup rest name)"

definition group_resolve :: "string \<Rightarrow> string \<Rightarrow> nat option" where
  "group_resolve group_db el =
     (case group_lookup (lines group_db) el of Some g \<Rightarrow> Some g | None \<Rightarrow> parse_u32 el)"

fun resolve_all :: "string \<Rightarrow> string list \<Rightarrow> nat list option" where
  "resolve_all group_db [] = Some []"
| "resolve_all group_db (g # gs) =
     (case group_resolve group_db g of None \<Rightarrow> None
      | Some x \<Rightarrow> map_option ((#) x) (resolve_all group_db gs))"

definition parse_group_list :: "string \<Rightarrow> string \<Rightarrow> nat \<Rightarrow> (nat \<times> nat list) option" where
  "parse_group_list group_db group_part fallback_gid =
     (case split_on CHR '','' group_part of
        [] \<Rightarrow> Some (fallback_gid, [])
      | first # rest \<Rightarrow>
          (case (if first = [] then Some fallback_gid else group_resolve group_db first) of
             None \<Rightarrow> None
           | Some primary \<Rightarrow> map_option (Pair primary) (resolve_all group_db rest)))"

text \<open>The scan of the password file. The code requires three fields and then reads the fourth:
  a line with exactly three aborts the child (\<open>PasswdPanic\<close>).\<close>

datatype passwd_entry = PasswdPanic | PasswdMiss | PasswdHit nat nat

fun passwd_lookup :: "string list \<Rightarrow> string \<Rightarrow> passwd_entry" where
  "passwd_lookup [] user = PasswdMiss"
| "passwd_lookup (line # rest) user =
     (let fields = split_on CHR '':'' line in
      if 3 \<le> length fields \<and> fields ! 0 = user then
        (if length fields \<le> 3 then PasswdPanic
         else PasswdHit (case parse_u32 (fields ! 2) of None \<Rightarrow> 0 | Some u \<Rightarrow> u)
                        (case parse_u32 (fields ! 3) of None \<Rightarrow> 0 | Some g \<Rightarrow> g))
      else passwd_lookup rest user)"

text \<open>\<open>resolve_user\<close>: the arguments \<open>uid\<close>, \<open>gid\<close>, \<open>extra\<close> and \<open>raw\<close> are the fields of the child
  context, \<open>passwd\<close> and \<open>group_db\<close> the contents of the two files. The result \<open>None\<close> is a panic.\<close>

definition resolve_user ::
  "nat \<Rightarrow> nat \<Rightarrow> nat list \<Rightarrow> string \<Rightarrow> string \<Rightarrow> string \<Rightarrow> (nat \<times> nat \<times> nat list) option" where
  "resolve_user uid gid extra raw passwd group_db =
     (if uid \<noteq> id_max then Some (uid, gid, extra)
      else if raw = [] then Some (0, 0, [])
      else let (user_part, group_part) = (case split_once CHR '':'' raw of None \<Rightarrow> (raw, []) | Some p \<Rightarrow> p) in
        case passwd_lookup (lines passwd) user_part of
          PasswdPanic \<Rightarrow> None
        | entry \<Rightarrow>
            (let base = (case entry of PasswdHit u g \<Rightarrow> (True, u, g)
                         | _ \<Rightarrow> (user_part = [] \<or> user_part = ''root'', 0, 0));
                 found0 = fst base; uid0 = fst (snd base); primary_gid = snd (snd base);
                 numeric = (if found0 then None else parse_u32 user_part);
                 found = (found0 \<or> numeric \<noteq> None);
                 uid' = (case numeric of None \<Rightarrow> uid0 | Some u \<Rightarrow> u) in
             case (if group_part = [] then Some (primary_gid, [])
                   else parse_group_list group_db group_part primary_gid) of
               None \<Rightarrow> Some user_miss
             | Some (g, ex) \<Rightarrow> Some (if found then (uid', g, ex) else user_miss)))"

lemma resolve_all_Some: "resolve_all db gs = Some xs \<longleftrightarrow> map (group_resolve db) gs = map Some xs"
proof (induction gs arbitrary: xs)
  case Nil
  then show ?case by auto
next
  case (Cons g gs)
  show ?case
    by (cases xs) (auto simp: Cons.IH split: option.splits)
qed

lemma resolve_all_None: "resolve_all db gs = None \<longleftrightarrow> (\<exists>g \<in> set gs. group_resolve db g = None)"
  by (induction gs) (auto split: option.splits)

text \<open>A group list is resolved completely or not at all: the result is the primary group
  followed by every further group in order, and the list is refused exactly if some element
  (other than an empty first one, which stands for the password file's group) is neither a
  known name nor a number.\<close>

theorem group_list_all_or_nothing:
  "parse_group_list db part fb =
     (let ps = split_on CHR '','' part;
          ids = map (\<lambda>p. group_resolve db p) ps;
          ids' = (if hd ps = [] then Some fb else hd ids) # tl ids in
      if None \<in> set ids' then None else Some (the (hd ids'), map the (tl ids')))"
proof -
  obtain first rest where ps: "split_on CHR '','' part = first # rest"
    by (cases "split_on CHR '','' part") auto
  define primary where "primary = (if first = [] then Some fb else group_resolve db first)"
  have rest: "resolve_all db rest =
      (if None \<in> set (map (group_resolve db) rest) then None else Some (map (the \<circ> group_resolve db) rest))"
  proof (cases "resolve_all db rest")
    case None
    then have "None \<in> set (map (group_resolve db) rest)" by (force simp: resolve_all_None)
    then show ?thesis using None by simp
  next
    case (Some xs)
    then have "map (group_resolve db) rest = map Some xs" by (simp add: resolve_all_Some)
    then have "map (the \<circ> group_resolve db) rest = map the (map Some xs)"
      and "None \<notin> set (map (group_resolve db) rest)"
      by (simp_all add: list.map_comp[symmetric] del: map_map set_map) auto
    then show ?thesis using Some by (simp add: comp_def)
  qed
  show ?thesis
    unfolding parse_group_list_def ps list.case primary_def[symmetric] Let_def rest
    by (cases primary) (auto simp: primary_def comp_def)
qed

text \<open>The resolution of a user fails closed for unknown names and unknown groups: if no
  line of the password file names the user, the name is neither empty, \<open>root\<close> nor a number, or a
  group of the list cannot be resolved, the result is the unresolved marker, never user 0.\<close>

theorem unknown_user_fails_closed:
  assumes "raw = user @ CHR '':'' # grp \<or> raw = user \<and> grp = []" and "CHR '':'' \<notin> set user"
    and "user \<noteq> []" and "passwd_lookup (lines passwd) user = PasswdMiss"
    and "user \<noteq> ''root'' \<and> parse_u32 user = None \<or>
         grp \<noteq> [] \<and> parse_group_list group_db grp 0 = None"
  shows "resolve_user id_max gid extra raw passwd group_db = Some user_miss"
proof -
  have split: "(case split_once CHR '':'' raw of None \<Rightarrow> (raw, []) | Some p \<Rightarrow> p) = (user, grp)"
  proof (cases "raw = user @ CHR '':'' # grp")
    case True
    then have "split_once CHR '':'' raw = Some (user, grp)"
      using assms(2) by (simp add: split_once_Some)
    then show ?thesis by simp
  next
    case False
    then have "raw = user" "grp = []" using assms(1) by auto
    moreover from this assms(2) have "split_once CHR '':'' raw = None" by (simp add: split_once_None)
    ultimately show ?thesis by simp
  qed
  have "raw \<noteq> []" using assms(1,3) by auto
  then show ?thesis
    using assms(3-5) unfolding resolve_user_def split
    by (auto split: option.splits simp: Let_def)
qed

theorem unknown_user_fails_closed_witness:
  "resolve_user id_max 0 [] ''nobody:staff'' ''root:x:0:0::/root:/bin/sh'' [] = Some user_miss"
  by (rule unknown_user_fails_closed[where user = "''nobody''" and grp = "''staff''"]) code_simp+

text \<open>A password line whose user id is not a number makes the named user root: the
  resolution yields user id 0 instead of the unresolved marker, and a line with three fields
  aborts the child.\<close>

theorem malformed_passwd_is_root:
  "resolve_user id_max id_max [] ''app'' ''app:x:uid:100'' [] = Some (0, 100, []) \<and>
   resolve_user id_max id_max [] ''app'' ''app:x:1000'' [] = None"
  by code_simp

end
