(* ===== verification/Log_Driver.thy ===== *)
theory Log_Driver
  imports Ingot_Prelude
begin

text \<open>
  The json-file log driver and the stream framing of \<open>crates/runtime/src/stdio.rs\<close>: parsing of the
  rotation options, rotation of the log files, appending of encoded lines, and the multiplexed
  frames of the attach protocol. The log directory is a map from file numbers to the lines each
  file holds: number 1 is the active log, number \<open>i\<close> the rotated file with extension \<open>log.i\<close>.
  Writes succeed; a rename or removal of a missing file is ignored, as in the code.
\<close>

section \<open>Rotation options\<close>

record log_rotation =
  max_bytes :: nat
  max_files :: nat

definition u64_max :: nat where
  "u64_max = 18446744073709551615"

definition strip_suffix_either :: "char \<Rightarrow> char \<Rightarrow> string \<Rightarrow> string option" where
  "strip_suffix_either a b s =
     (if s \<noteq> [] \<and> (last s = a \<or> last s = b) then Some (butlast s) else None)"

definition parse_max_size :: "string \<Rightarrow> nat option" where
  "parse_max_size s0 =
     (let s = trim s0 in
      if s = ''-1'' then None
      else let (num, mult) =
             (case strip_suffix_either CHR ''k'' CHR ''K'' s of
                Some n \<Rightarrow> (n, 1024)
              | None \<Rightarrow> (case strip_suffix_either CHR ''m'' CHR ''M'' s of
                  Some n \<Rightarrow> (n, 1024 * 1024)
                | None \<Rightarrow> (case strip_suffix_either CHR ''g'' CHR ''G'' s of
                    Some n \<Rightarrow> (n, 1024 * 1024 * 1024)
                  | None \<Rightarrow> (s, 1)))) in
           case parse_u64 num of
             None \<Rightarrow> None
           | Some n \<Rightarrow> if n * mult \<le> u64_max then Some (n * mult) else None)"

datatype log_opt_error = InvalidMaxSize string | InvalidMaxFile string

definition parse_log_rotation ::
  "(string, string) assoc \<Rightarrow> (log_opt_error, log_rotation option) result" where
  "parse_log_rotation config =
     (let size = (case assoc_get config ''max-size'' of None \<Rightarrow> [] | Some s \<Rightarrow> s);
          files = (case assoc_get config ''max-file'' of None \<Rightarrow> [] | Some s \<Rightarrow> s) in
      if size = [] \<and> files = [] then Ok None
      else and_then (if size = [] \<or> size = ''-1'' then Ok u64_max
                     else ok_or (InvalidMaxSize size) (parse_max_size size)) (\<lambda>mb.
           and_then (if files = [] then Ok 1
                     else ok_or (InvalidMaxFile files)
                            (case parse_u32 files of None \<Rightarrow> None
                             | Some n \<Rightarrow> if 1 \<le> n then Some n else None)) (\<lambda>mf.
           if mb = u64_max \<and> files = [] then Ok None
           else Ok (Some \<lparr>max_bytes = mb, max_files = mf\<rparr>))))"

definition rotation_from_config :: "(string, string) assoc \<Rightarrow> log_rotation option" where
  "rotation_from_config config = (case parse_log_rotation config of Inl _ \<Rightarrow> None | Inr r \<Rightarrow> r)"

section \<open>The log files\<close>

type_synonym line = "nat list"

record log_file =
  files :: "nat \<rightharpoonup> line list"
  written :: nat
  rotation :: "log_rotation option"

definition content :: "log_file \<Rightarrow> nat \<Rightarrow> line list" where
  "content log i = (case files log i of None \<Rightarrow> [] | Some ls \<Rightarrow> ls)"

definition byte_len :: "line list \<Rightarrow> nat" where
  "byte_len ls = sum_list (map length ls)"

definition sat_add :: "nat \<Rightarrow> nat \<Rightarrow> nat" where
  "sat_add a b = min u64_max (a + b)"

definition open_log :: "(nat \<rightharpoonup> line list) \<Rightarrow> (nat \<rightharpoonup> line list)" where
  "open_log fs = (case fs 1 of None \<Rightarrow> fs(1 \<mapsto> []) | Some _ \<Rightarrow> fs)"

definition with_rotation :: "(nat \<rightharpoonup> line list) \<Rightarrow> log_rotation option \<Rightarrow> log_file" where
  "with_rotation fs r =
     \<lparr>files = open_log fs, written = (case fs 1 of None \<Rightarrow> 0 | Some ls \<Rightarrow> byte_len ls), rotation = r\<rparr>"

definition rename :: "nat \<Rightarrow> nat \<Rightarrow> (nat \<rightharpoonup> line list) \<Rightarrow> (nat \<rightharpoonup> line list)" where
  "rename from to fs = (case fs from of None \<Rightarrow> fs | Some ls \<Rightarrow> (fs(from := None))(to \<mapsto> ls))"

text \<open>The loop \<open>for i in (1..keep).rev()\<close>: the file numbered \<open>i\<close> becomes number \<open>i + 1\<close>.\<close>

fun shift_files :: "nat \<Rightarrow> (nat \<rightharpoonup> line list) \<Rightarrow> (nat \<rightharpoonup> line list)" where
  "shift_files 0 fs = fs"
| "shift_files (Suc i) fs = shift_files i (rename (Suc i) (Suc (Suc i)) fs)"

definition rotate_locked :: "log_file \<Rightarrow> log_file" where
  "rotate_locked log =
     (case rotation log of
        None \<Rightarrow> log
      | Some rot \<Rightarrow>
          (let keep = max 1 (max_files rot);
               fs = (if 1 < keep then shift_files (keep - 1) ((files log)(keep := None)) else files log) in
           log\<lparr>files := open_log fs, written := 0\<rparr>))"

text \<open>\<open>append_log\<close>, for a line that is already encoded with its newline.\<close>

definition append_log :: "line \<Rightarrow> log_file \<Rightarrow> log_file" where
  "append_log buf log0 =
     (let log = (case rotation log0 of
                   None \<Rightarrow> log0
                 | Some rot \<Rightarrow> if max_bytes rot < sat_add (written log0) (length buf)
                               then rotate_locked log0 else log0) in
      log\<lparr>files := (files log)(1 \<mapsto> content log 1 @ [buf]),
          written := sat_add (written log) (length buf)\<rparr>)"

definition append_all :: "line list \<Rightarrow> log_file \<Rightarrow> log_file" where
  "append_all bufs log = fold append_log bufs log"

section \<open>Frames\<close>

definition to_be_bytes :: "u32 \<Rightarrow> u8 list" where
  "to_be_bytes w = (let n = unat w in
     [of_nat (n div 2 ^ 24), of_nat (n div 2 ^ 16 mod 256), of_nat (n div 2 ^ 8 mod 256), of_nat (n mod 256)])"

definition from_be_bytes :: "u8 \<Rightarrow> u8 \<Rightarrow> u8 \<Rightarrow> u8 \<Rightarrow> u32" where
  "from_be_bytes a b c d =
     of_nat (unat a * 2 ^ 24 + unat b * 2 ^ 16 + unat c * 2 ^ 8 + unat d)"

definition frame :: "u8 \<Rightarrow> u8 list \<Rightarrow> u8 list" where
  "frame stream data = [stream, 0, 0, 0] @ to_be_bytes (of_nat (length data)) @ data"

definition demux :: "u8 list \<Rightarrow> u8 \<times> u8 list" where
  "demux buf =
     (if length buf < 8 then (1, buf)
      else let len = unat (from_be_bytes (buf ! 4) (buf ! 5) (buf ! 6) (buf ! 7));
               e = min (8 + len) (length buf) in
           (buf ! 0, take (e - 8) (drop 8 buf)))"

section \<open>Frames round trip\<close>

lemma four_digits:
  fixes n :: nat
  shows "n div 2 ^ 24 * 2 ^ 24 + n div 2 ^ 16 mod 256 * 2 ^ 16 + n div 2 ^ 8 mod 256 * 2 ^ 8 + n mod 256 = n"
proof -
  define a b c where "a = n div 256" and "b = a div 256" and "c = b div 256"
  have "n div 2 ^ 8 = a" "n div 2 ^ 16 = b" "n div 2 ^ 24 = c"
    by (simp_all add: a_def b_def c_def div_mult2_eq[symmetric])
  moreover have "a * 256 + n mod 256 = n" "b * 256 + a mod 256 = a" "c * 256 + b mod 256 = b"
    by (simp_all add: a_def b_def c_def)
  ultimately show ?thesis by simp
qed

lemma be_bytes_roundtrip:
  "to_be_bytes w = [a, b, c, d] \<Longrightarrow> from_be_bytes a b c d = w"
proof -
  assume "to_be_bytes w = [a, b, c, d]"
  then have abcd: "a = of_nat (unat w div 2 ^ 24)" "b = of_nat (unat w div 2 ^ 16 mod 256)"
    "c = of_nat (unat w div 2 ^ 8 mod 256)" "d = of_nat (unat w mod 256)"
    by (auto simp: to_be_bytes_def Let_def)
  have lt: "unat w < 2 ^ 32" using unsigned_less[of w] by simp
  have "unat w div 2 ^ 24 < 256" using lt by simp
  then have "unat a * 2 ^ 24 + unat b * 2 ^ 16 + unat c * 2 ^ 8 + unat d =
     unat w div 2 ^ 24 * 2 ^ 24 + unat w div 2 ^ 16 mod 256 * 2 ^ 16 + unat w div 2 ^ 8 mod 256 * 2 ^ 8 + unat w mod 256"
    by (simp add: abcd unat_of_nat)
  also have "\<dots> = unat w" by (rule four_digits)
  finally show ?thesis by (simp only: from_be_bytes_def) simp
qed

text \<open>A frame is decoded to the stream and the data it was built from, also when more
  bytes follow it in the buffer.\<close>

theorem demux_frame:
  assumes "length data < 2 ^ 32"
  shows "demux (frame s data @ rest) = (s, data)"
proof -
  obtain a b c d where abcd: "to_be_bytes (of_nat (length data)) = [a, b, c, d]"
    by (simp add: to_be_bytes_def Let_def)
  then have "unat (from_be_bytes a b c d) = length data"
    using be_bytes_roundtrip[OF abcd] assms by (simp add: unat_of_nat)
  then show ?thesis by (simp add: demux_def frame_def abcd)
qed

theorem demux_frame_witness: "demux (frame 2 [104, 105] @ [1, 0]) = (2, [104, 105])"
  using demux_frame[of "[104, 105]" 2 "[1, 0]"] by simp

section \<open>Rotation\<close>

lemma rename_free:
  "fs (Suc i) = None \<Longrightarrow> rename i (Suc i) fs = (\<lambda>j. if j = i then None else if j = Suc i then fs i else fs j)"
  by (auto simp: rename_def fun_eq_iff split: option.splits)

lemma shift_files_eq:
  "fs (Suc n) = None \<Longrightarrow> 0 < n \<Longrightarrow>
   shift_files n fs = (\<lambda>j. if j = 1 then None else if 2 \<le> j \<and> j \<le> Suc n then fs (j - 1) else fs j)"
proof (induction n arbitrary: fs)
  case 0
  then show ?case by simp
next
  case (Suc n)
  define fs' where "fs' = rename (Suc n) (Suc (Suc n)) fs"
  have fs': "fs' = (\<lambda>j. if j = Suc n then None else if j = Suc (Suc n) then fs (Suc n) else fs j)"
    unfolding fs'_def using Suc.prems by (intro rename_free) simp
  show ?case
  proof (cases n)
    case 0
    then show ?thesis using fs' fs'_def by (auto simp: fun_eq_iff)
  next
    case (Suc m)
    have "fs' (Suc n) = None" by (simp add: fs')
    then have IH: "shift_files n fs' =
        (\<lambda>j. if j = 1 then None else if 2 \<le> j \<and> j \<le> Suc n then fs' (j - 1) else fs' j)"
      using Suc Suc.IH by simp
    show ?thesis
    proof
      fix j
      show "shift_files (Suc n) fs j =
          (if j = 1 then None else if 2 \<le> j \<and> j \<le> Suc (Suc n) then fs (j - 1) else fs j)"
        by (simp only: shift_files.simps fs'_def[symmetric] IH)
          (cases "j = Suc (Suc n)"; auto simp: fs')
    qed
  qed
qed

lemma rotate_files:
  assumes "rotation log = Some rot" and "2 \<le> max_files rot"
  shows "files (rotate_locked log) =
    (\<lambda>j. if j = 1 then Some [] else if 2 \<le> j \<and> j \<le> max_files rot then files log (j - 1) else files log j)"
proof -
  obtain n where n: "max_files rot = Suc n" "0 < n" using assms(2) by (cases "max_files rot") auto
  define fs where "fs = (files log)(Suc n := None)"
  have sh: "shift_files n fs = (\<lambda>j. if j = 1 then None else if 2 \<le> j \<and> j \<le> Suc n then fs (j - 1) else fs j)"
    by (rule shift_files_eq) (simp_all add: fs_def n)
  have "files (rotate_locked log) = open_log (shift_files n fs)"
    using assms n by (simp add: rotate_locked_def fs_def max_def)
  also have "\<dots> = (\<lambda>j. if j = 1 then Some [] else if 2 \<le> j \<and> j \<le> Suc n then files log (j - 1) else files log j)"
  proof
    fix j
    show "open_log (shift_files n fs) j =
        (if j = 1 then Some [] else if 2 \<le> j \<and> j \<le> Suc n then files log (j - 1) else files log j)"
      using n(2) by (simp add: open_log_def sh) (auto simp: fs_def)
  qed
  finally show ?thesis by (simp only: n(1))
qed

text \<open>The lines that are still on disk, from the oldest to the newest.\<close>

fun kept_upto :: "nat \<Rightarrow> log_file \<Rightarrow> line list" where
  "kept_upto 0 log = []"
| "kept_upto (Suc n) log = content log (Suc n) @ kept_upto n log"

definition log_ok :: "log_rotation \<Rightarrow> log_file \<Rightarrow> bool" where
  "log_ok rot log \<longleftrightarrow> rotation log = Some rot \<and> written log = byte_len (content log 1) \<and>
     dom (files log) \<subseteq> {1..max_files rot} \<and>
     (\<forall>i. byte_len (content log i) \<le> max_bytes rot \<or> length (content log i) \<le> 1)"

lemma rotate_content:
  assumes "rotation log = Some rot" and "2 \<le> max_files rot"
  shows "content (rotate_locked log) j =
    (if j = 1 then [] else if 2 \<le> j \<and> j \<le> max_files rot then content log (j - 1) else content log j)"
  by (simp add: content_def rotate_files[OF assms])

lemma kept_rotate:
  assumes "rotation log = Some rot" and "2 \<le> max_files rot" and "Suc n \<le> max_files rot"
  shows "kept_upto (Suc n) (rotate_locked log) = kept_upto n log"
  using assms(3)
proof (induction n)
  case 0
  then show ?case by (simp add: rotate_content[OF assms(1,2)])
next
  case (Suc n)
  then show ?case by (simp add: rotate_content[OF assms(1,2)])
qed

lemma kept_append:
  assumes "0 < n"
  shows "kept_upto n (log\<lparr>files := (files log)(1 \<mapsto> content log 1 @ [buf]), written := w\<rparr>) =
         kept_upto n log @ [buf]"
  using assms
proof (induction n)
  case 0
  then show ?case by simp
next
  case (Suc n)
  then show ?case by (cases n) (simp_all add: content_def)
qed

lemma rotation_rotate [simp]: "rotation (rotate_locked log) = rotation log"
  by (simp add: rotate_locked_def Let_def split: option.splits)

lemma rotate_ok:
  assumes "log_ok rot log" and "2 \<le> max_files rot"
  shows "log_ok rot (rotate_locked log)" and "written (rotate_locked log) = 0"
    and "content (rotate_locked log) 1 = []"
proof -
  have rot: "rotation log = Some rot" using assms by (simp add: log_ok_def)
  show w: "written (rotate_locked log) = 0"
    by (simp add: rotate_locked_def rot Let_def)
  show c: "content (rotate_locked log) 1 = []"
    by (simp add: rotate_content[OF rot assms(2)])
  have "dom (files (rotate_locked log)) \<subseteq> {1..max_files rot}"
    using assms by (auto simp: rotate_files[OF rot assms(2)] log_ok_def dom_def split: if_splits)
  moreover have "byte_len (content (rotate_locked log) i) \<le> max_bytes rot \<or>
      length (content (rotate_locked log) i) \<le> 1" for i
    using assms(1) by (simp add: rotate_content[OF rot assms(2)] log_ok_def byte_len_def)
  ultimately show "log_ok rot (rotate_locked log)"
    using w c rot by (simp add: log_ok_def byte_len_def)
qed

lemma append_ok:
  assumes ok: "log_ok rot log" and keep: "2 \<le> max_files rot"
    and bound: "max_bytes rot < u64_max" and len: "length buf \<le> u64_max"
  shows "log_ok rot (append_log buf log)"
proof -
  define log' where "log' = (if max_bytes rot < sat_add (written log) (length buf) then rotate_locked log else log)"
  have ok': "log_ok rot log'"
    using rotate_ok(1)[OF ok keep] ok by (simp add: log'_def)
  have app: "append_log buf log = log'\<lparr>files := (files log')(1 \<mapsto> content log' 1 @ [buf]),
      written := sat_add (written log') (length buf)\<rparr>"
    using ok by (simp add: append_log_def log'_def log_ok_def Let_def)
  have step: "content log' 1 = [] \<and> written log' = 0 \<or>
      sat_add (written log') (length buf) \<le> max_bytes rot"
    using rotate_ok(2,3)[OF ok keep] by (auto simp: log'_def)
  have cont: "content (append_log buf log) i = (if i = 1 then content log' 1 @ [buf] else content log' i)" for i
    by (simp add: app content_def)
  have w: "sat_add (written log') (length buf) = written log' + length buf"
    using step bound len by (auto simp: sat_add_def)
  have "byte_len (content log' 1 @ [buf]) = written log' + length buf"
    using ok' by (simp add: log_ok_def byte_len_def)
  moreover have "byte_len (content log' 1 @ [buf]) \<le> max_bytes rot \<or> length (content log' 1 @ [buf]) \<le> 1"
    using step w calculation by auto
  moreover have "dom (files (append_log buf log)) \<subseteq> {1..max_files rot}"
    using ok' keep by (auto simp: app log_ok_def)
  ultimately show ?thesis
    using ok' w cont unfolding log_ok_def by (auto simp: app)
qed

lemma append_kept:
  assumes "log_ok rot log" and "2 \<le> max_files rot"
  shows "\<exists>dropped. kept_upto (max_files rot) log @ [buf] =
                   dropped @ kept_upto (max_files rot) (append_log buf log)"
proof -
  have rot: "rotation log = Some rot" using assms(1) by (simp add: log_ok_def)
  obtain n where n: "max_files rot = Suc n" using assms(2) by (cases "max_files rot") auto
  show ?thesis
  proof (cases "max_bytes rot < sat_add (written log) (length buf)")
    case True
    then have "kept_upto (Suc n) (append_log buf log) = kept_upto (Suc n) (rotate_locked log) @ [buf]"
      using rot by (simp add: append_log_def Let_def kept_append[unfolded One_nat_def] del: kept_upto.simps)
    then show ?thesis using kept_rotate[OF rot assms(2), of n] n by simp
  next
    case False
    then have "kept_upto (Suc n) (append_log buf log) = kept_upto (Suc n) log @ [buf]"
      using rot by (simp add: append_log_def Let_def kept_append[unfolded One_nat_def] del: kept_upto.simps)
    then show ?thesis using n by simp
  qed
qed

lemma append_all_ok:
  assumes "log_ok rot log" and "2 \<le> max_files rot" and "max_bytes rot < u64_max"
    and "\<forall>b \<in> set bufs. length b \<le> u64_max"
  shows "log_ok rot (append_all bufs log) \<and>
         (\<exists>dropped. kept_upto (max_files rot) log @ bufs =
                    dropped @ kept_upto (max_files rot) (append_all bufs log))"
  using assms(1,4)
proof (induction bufs arbitrary: log)
  case Nil
  then show ?case by (simp add: append_all_def)
next
  case (Cons b bufs)
  have ok: "log_ok rot (append_log b log)"
    using append_ok[OF Cons.prems(1) assms(2,3)] Cons.prems(2) by simp
  obtain d where d: "kept_upto (max_files rot) log @ [b] =
      d @ kept_upto (max_files rot) (append_log b log)"
    using append_kept[OF Cons.prems(1) assms(2)] by blast
  obtain d' where d': "kept_upto (max_files rot) (append_log b log) @ bufs =
      d' @ kept_upto (max_files rot) (append_all bufs (append_log b log))"
    and ok': "log_ok rot (append_all bufs (append_log b log))"
    using Cons.IH[OF ok] Cons.prems(2) by auto
  have "kept_upto (max_files rot) log @ b # bufs =
      (d @ d') @ kept_upto (max_files rot) (append_all bufs (append_log b log))"
    using arg_cong[OF d, of "\<lambda>xs. xs @ bufs"] d' by simp
  then show ?case using ok' by (auto simp: append_all_def)
qed

lemma kept_empty: "kept_upto n (with_rotation Map.empty r) = []"
  by (induction n) (auto simp: with_rotation_def content_def open_log_def)

lemma fresh_log_ok: "1 \<le> max_files rot \<Longrightarrow> log_ok rot (with_rotation Map.empty (Some rot))"
  by (auto simp: log_ok_def with_rotation_def open_log_def content_def byte_len_def)

text \<open>Claim C14: With a rotation policy that keeps at least two files, after any sequence of
  lines at most that many files exist, each holds at most the allowed number of bytes (or one
  single longer line), and together they hold, in order, an uninterrupted run of the lines up
  to the newest: rotation only ever drops the oldest lines.\<close>

theorem rotation_keeps_newest:
  assumes "2 \<le> max_files rot" and "max_bytes rot < u64_max" and "\<forall>b \<in> set bufs. length b \<le> u64_max"
  shows "let log = append_all bufs (with_rotation Map.empty (Some rot)) in
     dom (files log) \<subseteq> {1..max_files rot} \<and>
     (\<forall>i. byte_len (content log i) \<le> max_bytes rot \<or> length (content log i) \<le> 1) \<and>
     suffix (kept_upto (max_files rot) log) bufs"
proof -
  have fresh: "log_ok rot (with_rotation Map.empty (Some rot))"
    using assms(1) by (intro fresh_log_ok) simp
  show ?thesis
    using append_all_ok[OF fresh assms]
    by (auto simp: Let_def log_ok_def kept_empty suffix_def)
qed

theorem rotation_keeps_newest_witness:
  "suffix (kept_upto 2 (append_all [[1, 2], [3], [4, 5]] (with_rotation Map.empty (Some \<lparr>max_bytes = 3, max_files = 2\<rparr>))))
     [[1, 2], [3], [4, 5]]"
  using rotation_keeps_newest[of "\<lparr>max_bytes = 3, max_files = 2\<rparr>" "[[1, 2], [3], [4, 5]]"]
  by (simp add: Let_def u64_max_def)

lemma append_single_file:
  assumes "rotation log = Some rot" and "max_files rot = 1" and "files log 1 = Some ls"
  shows "files (append_log buf log) 1 = Some (ls @ [buf])" and "rotation (append_log buf log) = Some rot"
  using assms
  by (auto simp: append_log_def rotate_locked_def open_log_def content_def Let_def)

lemma append_all_single_file:
  assumes "rotation log = Some rot" and "max_files rot = 1" and "files log 1 = Some ls"
  shows "files (append_all bufs log) 1 = Some (ls @ bufs)"
  using assms
proof (induction bufs arbitrary: log ls)
  case Nil
  then show ?case by (simp add: append_all_def)
next
  case (Cons b bufs)
  then show ?case
    using append_single_file[OF Cons.prems] Cons.IH[of "append_log b log" "ls @ [b]"]
    by (simp add: append_all_def)
qed

text \<open>When only \<open>max-size\<close> is given, one file is kept and rotation never takes a byte
  away from it: the active log holds every line ever written, whatever the limit.\<close>

theorem max_size_alone_unbounded:
  assumes "parse_log_rotation [(''max-size'', sz)] = Ok (Some rot)"
  shows "content (append_all bufs (with_rotation Map.empty (Some rot))) 1 = bufs"
proof -
  have "max_files rot = 1"
    using assms
    by (auto simp: parse_log_rotation_def Let_def assoc_get_def and_then_iffs split: if_splits)
  then have "files (append_all bufs (with_rotation Map.empty (Some rot))) 1 = Some ([] @ bufs)"
    by (intro append_all_single_file) (simp_all add: with_rotation_def open_log_def)
  then show ?thesis by (simp add: content_def)
qed

theorem max_size_alone_unbounded_witness:
  "content (append_all [[1, 2, 3], [4, 5, 6]] (with_rotation Map.empty (Some \<lparr>max_bytes = 2, max_files = 1\<rparr>))) 1
     = [[1, 2, 3], [4, 5, 6]]"
proof -
  have "parse_log_rotation [(''max-size'', ''2'')] = Ok (Some \<lparr>max_bytes = 2, max_files = 1\<rparr>)"
    by code_simp
  from max_size_alone_unbounded[OF this, of "[[1, 2, 3], [4, 5, 6]]"] show ?thesis .
qed

end
