(* ===== verification/Api_Types.thy ===== *)
theory Api_Types
  imports Ingot_Prelude
begin

text \<open>
  The wire and on-disk types shared by the runtime components: the Engine API bodies of
  \<open>crates/api/src/container.rs\<close> and the container record of \<open>crates/runtime/src/record.rs\<close>.
  Every field is kept; the field names carry a short prefix because HOL record selectors are
  global. \<open>i64\<close> fields are integers: the code compares, clamps and divides them and increments
  two counters, so wrap-around never matters. JSON values are a datatype, hash maps association lists.
\<close>

datatype json =
    JNull
  | JBool bool
  | JInt int
  | JFloat string
  | JStr string
  | JArr "json list"
  | JObj "(string, json) assoc"

text \<open>\<open>serde_json::Value::get\<close>, \<open>as_str\<close> and \<open>as_i64\<close>.\<close>

definition json_get :: "string \<Rightarrow> json \<Rightarrow> json option" where
  "json_get k v = (case v of JObj m \<Rightarrow> assoc_get m k | _ \<Rightarrow> None)"

definition json_str :: "json \<Rightarrow> string option" where
  "json_str v = (case v of JStr s \<Rightarrow> Some s | _ \<Rightarrow> None)"

definition json_i64 :: "json \<Rightarrow> int option" where
  "json_i64 v = (case v of
     JInt i \<Rightarrow> if - (2 ^ 63) \<le> i \<and> i < 2 ^ 63 then Some i else None | _ \<Rightarrow> None)"

section \<open>Engine API bodies\<close>

record port_binding =
  HostIp :: string
  HostPort :: string

record health_config =
  hc_Test :: "string list"
  hc_Interval :: "int option"
  hc_Timeout :: "int option"
  hc_Retries :: "int option"
  hc_StartPeriod :: "int option"
  hc_StartInterval :: "int option"

record container_config =
  c_Hostname :: string
  c_Domainname :: string
  c_User :: string
  c_AttachStdin :: bool
  c_AttachStdout :: bool
  c_AttachStderr :: bool
  c_ExposedPorts :: "(string, json) assoc option"
  c_Tty :: bool
  c_OpenStdin :: bool
  c_StdinOnce :: bool
  c_Env :: "string list"
  c_Cmd :: "string list"
  c_Healthcheck :: "health_config option"
  c_ArgsEscaped :: bool
  c_Image :: string
  c_Volumes :: "(string, json) assoc option"
  c_WorkingDir :: string
  c_Entrypoint :: "string list option"
  c_OnBuild :: "string list option"
  c_Labels :: "(string, string) assoc"
  c_StopSignal :: string
  c_StopTimeout :: "int option"
  c_Shell :: "string list option"

record log_config =
  lc_typ :: string
  lc_config :: "(string, string) assoc"

record restart_policy =
  rp_Name :: string
  rp_MaximumRetryCount :: int

record mount_request =
  mr_typ :: string
  mr_Source :: string
  mr_Target :: string
  mr_read_only :: bool
  mr_bind :: "json option"
  mr_volume_options :: "json option"
  mr_tmpfs_options :: "json option"

record host_config =
  Binds :: "string list"
  ContainerIDFile :: string
  LogConfig :: log_config
  NetworkMode :: string
  PortBindings :: "(string, port_binding list) assoc"
  RestartPolicy :: restart_policy
  AutoRemove :: bool
  VolumeDriver :: string
  VolumesFrom :: "string list"
  CapAdd :: "string list"
  CapDrop :: "string list"
  Dns :: "string list"
  DnsOptions :: "string list"
  DnsSearch :: "string list"
  ExtraHosts :: "string list"
  GroupAdd :: "string list"
  IpcMode :: string
  hc_Cgroup :: string
  hc_Links :: "string list"
  OomScoreAdj :: int
  Privileged :: bool
  PublishAllPorts :: bool
  ReadonlyRootfs :: bool
  SecurityOpt :: "string list"
  UTSMode :: string
  UsernsMode :: string
  ShmSize :: int
  hc_Runtime :: string
  Isolation :: string
  CpuShares :: int
  Memory :: int
  MemorySwap :: int
  NanoCpus :: int
  CgroupParent :: string
  BlkioWeight :: nat
  CpuPeriod :: int
  CpuQuota :: int
  CpusetCpus :: string
  CpusetMems :: string
  Devices :: "json list"
  PidsLimit :: int
  Ulimits :: "json list"
  Tmpfs :: "(string, string) assoc"
  Mounts :: "mount_request list"
  hc_Init :: "bool option"
  Sysctls :: "(string, string) assoc"

record endpoint_ipam_config =
  IPv4Address :: string

record endpoint_settings =
  es_IPAMConfig :: "endpoint_ipam_config option"
  es_Links :: "string list"
  es_Aliases :: "string list"
  es_NetworkID :: string
  es_EndpointID :: string
  es_Gateway :: string
  es_IPAddress :: string
  es_IPPrefixLen :: "int option"
  es_MacAddress :: string
  es_DriverOpts :: "(string, string) assoc option"

record networking_config =
  EndpointsConfig :: "(string, endpoint_settings) assoc"

record container_create_body =
  b_Hostname :: string
  b_Domainname :: string
  b_User :: string
  b_AttachStdin :: bool
  b_AttachStdout :: bool
  b_AttachStderr :: bool
  b_ExposedPorts :: "(string, json) assoc option"
  b_Tty :: bool
  b_OpenStdin :: bool
  b_StdinOnce :: bool
  b_Env :: "string list"
  b_Cmd :: "string list"
  b_Healthcheck :: "health_config option"
  b_ArgsEscaped :: bool
  b_Image :: string
  b_Volumes :: "(string, json) assoc option"
  b_WorkingDir :: string
  b_Entrypoint :: "string list option"
  b_OnBuild :: "string list option"
  b_Labels :: "(string, string) assoc"
  b_StopSignal :: string
  b_StopTimeout :: "int option"
  b_Shell :: "string list option"
  b_HostConfig :: host_config
  b_NetworkingConfig :: "networking_config option"

definition into_container_config :: "container_create_body \<Rightarrow> container_config" where
  "into_container_config b = \<lparr>
     c_Hostname = b_Hostname b, c_Domainname = b_Domainname b, c_User = b_User b,
     c_AttachStdin = b_AttachStdin b, c_AttachStdout = b_AttachStdout b,
     c_AttachStderr = b_AttachStderr b, c_ExposedPorts = b_ExposedPorts b, c_Tty = b_Tty b,
     c_OpenStdin = b_OpenStdin b, c_StdinOnce = b_StdinOnce b, c_Env = b_Env b, c_Cmd = b_Cmd b,
     c_Healthcheck = b_Healthcheck b, c_ArgsEscaped = b_ArgsEscaped b, c_Image = b_Image b,
     c_Volumes = b_Volumes b, c_WorkingDir = b_WorkingDir b, c_Entrypoint = b_Entrypoint b,
     c_OnBuild = b_OnBuild b, c_Labels = b_Labels b, c_StopSignal = b_StopSignal b,
     c_StopTimeout = b_StopTimeout b, c_Shell = b_Shell b\<rparr>"

text \<open>The \<open>Default\<close> values that \<open>serde(default)\<close> uses for missing fields.\<close>

definition default_restart_policy :: restart_policy where
  "default_restart_policy = \<lparr>rp_Name = [], rp_MaximumRetryCount = 0\<rparr>"

definition default_host_config :: host_config where
  "default_host_config = \<lparr>
     Binds = [], ContainerIDFile = [], LogConfig = \<lparr>lc_typ = [], lc_config = []\<rparr>,
     NetworkMode = [], PortBindings = [], RestartPolicy = default_restart_policy,
     AutoRemove = False, VolumeDriver = [], VolumesFrom = [], CapAdd = [], CapDrop = [],
     Dns = [], DnsOptions = [], DnsSearch = [], ExtraHosts = [], GroupAdd = [], IpcMode = [],
     hc_Cgroup = [], hc_Links = [], OomScoreAdj = 0, Privileged = False,
     PublishAllPorts = False, ReadonlyRootfs = False, SecurityOpt = [], UTSMode = [],
     UsernsMode = [], ShmSize = 0, hc_Runtime = [], Isolation = [], CpuShares = 0, Memory = 0,
     MemorySwap = 0, NanoCpus = 0, CgroupParent = [], BlkioWeight = 0, CpuPeriod = 0,
     CpuQuota = 0, CpusetCpus = [], CpusetMems = [], Devices = [], PidsLimit = 0, Ulimits = [],
     Tmpfs = [], Mounts = [], hc_Init = None, Sysctls = []\<rparr>"

definition default_create_body :: container_create_body where
  "default_create_body = \<lparr>
     b_Hostname = [], b_Domainname = [], b_User = [], b_AttachStdin = False,
     b_AttachStdout = False, b_AttachStderr = False, b_ExposedPorts = None, b_Tty = False,
     b_OpenStdin = False, b_StdinOnce = False, b_Env = [], b_Cmd = [], b_Healthcheck = None,
     b_ArgsEscaped = False, b_Image = [], b_Volumes = None, b_WorkingDir = [],
     b_Entrypoint = None, b_OnBuild = None, b_Labels = [], b_StopSignal = [],
     b_StopTimeout = None, b_Shell = None, b_HostConfig = default_host_config,
     b_NetworkingConfig = None\<rparr>"

definition default_container_config :: container_config where
  "default_container_config = into_container_config default_create_body"

definition default_endpoint_settings :: endpoint_settings where
  "default_endpoint_settings = \<lparr>
     es_IPAMConfig = None, es_Links = [], es_Aliases = [], es_NetworkID = [], es_EndpointID = [],
     es_Gateway = [], es_IPAddress = [], es_IPPrefixLen = None, es_MacAddress = [],
     es_DriverOpts = None\<rparr>"

section \<open>The container record\<close>

record health_log_entry =
  hl_Start :: string
  hl_End :: string
  hl_ExitCode :: int
  hl_Output :: string

record health_state =
  hs_Status :: string
  hs_FailingStreak :: int
  hs_Log :: "health_log_entry list"

datatype state_status =
  Created | Running | Paused | Restarting | Removing | Exited | Dead

record container_state =
  status :: state_status
  pid :: int
  exit_code :: int
  st_error :: string
  oom_killed :: bool
  started_at :: string
  finished_at :: string
  restart_count :: int
  health :: "health_state option"

definition default_container_state :: container_state where
  "default_container_state = \<lparr>status = Created, pid = 0, exit_code = 0, st_error = [],
     oom_killed = False, started_at = [], finished_at = [], restart_count = 0, health = None\<rparr>"

record endpoint_record =
  ep_network_id :: string
  ep_network_name :: string
  ep_ip :: string
  ep_gateway :: string
  ep_mac :: string
  ep_aliases :: "string list"
  ep_requested_ip :: "string option"

record mount_record =
  m_typ :: string
  m_name :: string
  m_source :: string
  m_destination :: string
  m_read_only :: bool
  m_is_anonymous :: bool

record container_record =
  cr_id :: string
  cr_name :: string
  cr_created :: string
  cr_image_id :: string
  cr_image_name :: string
  cr_config :: container_config
  cr_hostconfig :: host_config
  cr_cmd_display :: string
  cr_endpoints :: "endpoint_record list"
  cr_wired_once :: bool
  cr_mounts :: "mount_record list"

definition as_str :: "state_status \<Rightarrow> string" where
  "as_str s = (case s of Created \<Rightarrow> ''created'' | Running \<Rightarrow> ''running'' | Paused \<Rightarrow> ''paused''
     | Restarting \<Rightarrow> ''restarting'' | Removing \<Rightarrow> ''removing'' | Exited \<Rightarrow> ''exited'' | Dead \<Rightarrow> ''dead'')"

definition argv :: "container_record \<Rightarrow> string list" where
  "argv r = (let ep = (case c_Entrypoint (cr_config r) of None \<Rightarrow> [] | Some e \<Rightarrow> e);
                 cmd = c_Cmd (cr_config r) in
             if ep = [] then cmd else ep @ cmd)"

text \<open>Signal numbers are those of Linux; \<open>stop_signal\<close> returns the number of the \<open>Signal\<close>.\<close>

definition stop_signal :: "container_record \<Rightarrow> nat" where
  "stop_signal r = (let s = c_StopSignal (cr_config r) in
     if s \<in> {''SIGINT'', ''INT''} then 2
     else if s \<in> {''SIGKILL'', ''KILL''} then 9
     else if s \<in> {''SIGHUP'', ''HUP''} then 1
     else if s \<in> {''SIGQUIT'', ''QUIT''} then 3
     else if s \<in> {''SIGUSR1'', ''USR1''} then 10
     else if s \<in> {''SIGUSR2'', ''USR2''} then 12
     else 15)"

definition stop_timeout :: "container_record \<Rightarrow> int" where
  "stop_timeout r = (case c_StopTimeout (cr_config r) of None \<Rightarrow> 10 | Some t \<Rightarrow> t)"

lemma as_str_inj: "as_str a = as_str b \<longleftrightarrow> a = b"
  by (cases a; cases b) (simp_all add: as_str_def)

end
