(* ===== verification/Create_Validation.thy ===== *)
theory Create_Validation
  imports Net_Addr Paths Privileges Log_Driver Api_Types
begin

text \<open>
  The create-time validation of \<open>crates/runtime/src/error.rs\<close>: every check of the source in its
  order, so that the first violated one determines the error. An error keeps the variant and the
  option it names; the prose of the message is left out.
\<close>

named_theorems checks \<open>evaluation of sequences of checks\<close>

datatype create_error =
    Conflict string
  | NotFound string
  | BadRequest string
  | Unsupported string
  | Internal
  | Io

type_synonym check = "(create_error, unit) result"

definition reject :: "bool \<Rightarrow> create_error \<Rightarrow> check" where
  "reject c e = (if c then Err e else Ok ())"

text \<open>A sequence of statements each of which may return early with an error, and a loop whose
  body may.\<close>

fun in_order :: "check list \<Rightarrow> check" where
  "in_order [] = Ok ()"
| "in_order (c # cs) = and_then c (\<lambda>_. in_order cs)"

definition for_each :: "'a list \<Rightarrow> ('a \<Rightarrow> check) \<Rightarrow> check" where
  "for_each xs body = in_order (map body xs)"

lemma reject_Ok [simp, checks]: "reject c e = Ok () \<longleftrightarrow> \<not> c"
  by (simp add: reject_def)

lemma in_order_Ok [checks]: "in_order cs = Ok () \<longleftrightarrow> (\<forall>c \<in> set cs. c = Ok ())"
  by (induction cs) (auto simp: and_then_iffs)

declare in_order.simps [simp del]

lemma for_each_Ok [checks]: "for_each xs body = Ok () \<longleftrightarrow> (\<forall>x \<in> set xs. body x = Ok ())"
  by (simp add: for_each_def in_order_Ok)

lemma and_then_unit_Ok [checks]: "and_then c (\<lambda>_. d) = Ok () \<longleftrightarrow> c = Ok () \<and> d = Ok ()"
  by (auto simp: and_then_iffs)

section \<open>Values\<close>

definition parse_i32 :: "string \<Rightarrow> int option" where
  "parse_i32 s = (case parse_i64 s of None \<Rightarrow> None
     | Some i \<Rightarrow> if - 2147483648 \<le> i \<and> i \<le> 2147483647 then Some i else None)"

definition signal_names :: "string list" where
  "signal_names = [''HUP'', ''INT'', ''QUIT'', ''ILL'', ''TRAP'', ''ABRT'', ''BUS'', ''FPE'', ''KILL'',
     ''USR1'', ''SEGV'', ''USR2'', ''PIPE'', ''ALRM'', ''TERM'', ''STKFLT'', ''CHLD'', ''CONT'',
     ''STOP'', ''TSTP'', ''TTIN'', ''TTOU'', ''URG'', ''XCPU'', ''XFSZ'', ''VTALRM'', ''PROF'',
     ''WINCH'', ''IO'', ''PWR'', ''SYS'']"

definition parse_signal :: "string \<Rightarrow> nat option" where
  "parse_signal s =
     (case parse_i32 (trim s) of
        Some n \<Rightarrow> if 1 \<le> n \<and> n \<le> 64 then Some (nat n) else None
      | None \<Rightarrow>
          (let upper = to_uppercase (trim s);
               name = (case strip_prefix ''SIG'' upper of None \<Rightarrow> upper | Some n \<Rightarrow> n) in
           map_option Suc (position name signal_names)))"

definition valid_signal :: "string \<Rightarrow> bool" where
  "valid_signal s = (parse_signal s \<noteq> None)"

definition valid_port :: "string \<Rightarrow> bool" where
  "valid_port p = (case parse_u16 p of None \<Rightarrow> False | Some n \<Rightarrow> 0 < n)"

definition valid_cpuset :: "string \<Rightarrow> bool" where
  "valid_cpuset s = (s \<noteq> [] \<and> list_all (\<lambda>item.
     case split_once CHR ''-'' item of
       Some (lo, hi) \<Rightarrow> (case (parse_u32 lo, parse_u32 hi) of (Some l, Some h) \<Rightarrow> l \<le> h | _ \<Rightarrow> False)
     | None \<Rightarrow> parse_u32 item \<noteq> None) (split_on CHR '','' s))"

definition split_exposed_key :: "string \<Rightarrow> (nat \<times> string) option" where
  "split_exposed_key k =
     (let (port_str, proto) = (case split_once CHR ''/'' k of Some (p, t) \<Rightarrow> (p, t) | None \<Rightarrow> (k, ''tcp'')) in
      if proto \<noteq> ''tcp'' \<and> proto \<noteq> ''udp'' then None
      else case parse_u16 port_str of None \<Rightarrow> None
           | Some p \<Rightarrow> if p \<noteq> 0 then Some (p, proto) else None)"

definition is_graphic :: "char \<Rightarrow> bool" where
  "is_graphic c = (33 \<le> (of_char c :: nat) \<and> (of_char c :: nat) \<le> 126)"

definition valid_resolv_token :: "string \<Rightarrow> bool" where
  "valid_resolv_token s = (s \<noteq> [] \<and> length s \<le> 253 \<and> list_all (\<lambda>c. is_graphic c \<and> \<not> is_ws c) s)"

definition valid_ip :: "string \<Rightarrow> bool" where
  "valid_ip s = (parse_ipv4 s \<noteq> None \<or> parse_ipv6 s \<noteq> None)"

definition valid_name :: "string \<Rightarrow> bool" where
  "valid_name n = is_ok (validate_container_name n)"

definition has_dotdot :: "string \<Rightarrow> bool" where
  "has_dotdot p = (''..'' \<in> set (split_on CHR ''/'' p))"

section \<open>The checks\<close>

definition SUPPORTED_RLIMITS :: "string list" where
  "SUPPORTED_RLIMITS = [''core'', ''nofile'', ''nproc'', ''stack'', ''as'', ''memlock'']"

definition ulimit_name :: "json \<Rightarrow> string" where
  "ulimit_name v =
     (case (case json_get ''Name'' v of Some n \<Rightarrow> Some n | None \<Rightarrow> json_get ''name'' v) of
        None \<Rightarrow> [] | Some n \<Rightarrow> (case json_str n of None \<Rightarrow> [] | Some s \<Rightarrow> s))"

definition ulimit_num :: "string \<Rightarrow> json \<Rightarrow> (create_error, int) result" where
  "ulimit_num k v = ok_or (BadRequest ''ulimit'')
     (case json_get k v of None \<Rightarrow> None | Some x \<Rightarrow> json_i64 x)"

definition parse_ulimit :: "json \<Rightarrow> (create_error, string \<times> int \<times> int) result" where
  "parse_ulimit v =
     (let name = ulimit_name v in
      if name \<notin> set SUPPORTED_RLIMITS then Err (Unsupported ''ulimit'')
      else and_then (ulimit_num ''Soft'' v) (\<lambda>soft.
           and_then (ulimit_num ''Hard'' v) (\<lambda>hard.
           if soft < -1 \<or> hard < -1 then Err (BadRequest ''ulimit'')
           else if hard \<noteq> -1 \<and> hard < soft then Err (BadRequest ''ulimit'')
           else Ok (name, soft, hard))))"

fun parse_ulimit_list :: "json list \<Rightarrow> (create_error, (string \<times> int \<times> int) list) result" where
  "parse_ulimit_list [] = Ok []"
| "parse_ulimit_list (v # vs) =
     and_then (parse_ulimit v) (\<lambda>u. and_then (parse_ulimit_list vs) (\<lambda>us. Ok (u # us)))"

definition parse_ulimits :: "host_config \<Rightarrow> (create_error, (string \<times> int \<times> int) list) result" where
  "parse_ulimits hc = parse_ulimit_list (Ulimits hc)"

definition validate_binding :: "port_binding \<Rightarrow> check" where
  "validate_binding b = in_order [
     reject (HostPort b \<noteq> [] \<and> \<not> valid_port (HostPort b)) (BadRequest ''port binding''),
     (if HostIp b = [] then Ok ()
      else if parse_ipv4 (HostIp b) \<noteq> None then Ok ()
      else Err (BadRequest ''port binding''))]"

definition validate_ports :: "host_config \<Rightarrow> check" where
  "validate_ports hc = for_each (PortBindings hc) (\<lambda>(key, bindings).
     let (port, proto) = (case split_once CHR ''/'' key of Some (p, t) \<Rightarrow> (p, t) | None \<Rightarrow> (key, ''tcp'')) in
     in_order [
       reject (\<not> valid_port port) (BadRequest ''port binding''),
       reject (proto \<noteq> ''tcp'' \<and> proto \<noteq> ''udp'') (BadRequest ''port binding''),
       for_each bindings validate_binding])"

definition validate_bind :: "string \<Rightarrow> check" where
  "validate_bind bind =
     (case split_on CHR '':'' bind of
        [dst] \<Rightarrow> in_order [
          reject (\<not> starts_with ''/'' dst) (BadRequest ''bind''),
          reject (has_dotdot dst) (BadRequest ''bind'')]
      | src # dst # mode \<Rightarrow> in_order [
          reject (1 < length mode \<or> dst = []) (BadRequest ''bind''),
          reject (\<not> starts_with ''/'' dst \<or> has_dotdot dst) (BadRequest ''bind''),
          reject (\<not> starts_with ''/'' src \<and> \<not> is_ok (validate_resource_name src)) (BadRequest ''volume name''),
          reject (mode \<noteq> [] \<and> map to_lower (hd mode) \<noteq> ''ro'' \<and> map to_lower (hd mode) \<noteq> ''rw'')
            (BadRequest ''bind'')]
      | [] \<Rightarrow> Ok ())"

definition validate_binds :: "host_config \<Rightarrow> check" where
  "validate_binds hc = for_each (Binds hc) validate_bind"

definition mount_type :: "mount_request \<Rightarrow> string" where
  "mount_type m = (if mr_typ m = [] then ''volume'' else mr_typ m)"

definition validate_mount :: "mount_request \<Rightarrow> check" where
  "validate_mount m = in_order [
     reject (mount_type m \<notin> {''bind'', ''volume'', ''tmpfs''}) (Unsupported ''mount type''),
     reject (mr_Target m = [] \<or> \<not> starts_with ''/'' (mr_Target m) \<or> has_dotdot (mr_Target m)) (BadRequest ''mount''),
     reject (mount_type m = ''bind'' \<and> \<not> starts_with ''/'' (mr_Source m)) (BadRequest ''mount''),
     reject (mount_type m = ''volume'' \<and> mr_Source m \<noteq> [] \<and> \<not> starts_with ''/'' (mr_Source m)
        \<and> \<not> is_ok (validate_resource_name (mr_Source m))) (BadRequest ''volume name'')]"

definition validate_mounts :: "host_config \<Rightarrow> check" where
  "validate_mounts hc = for_each (Mounts hc) validate_mount"

definition validate_net_opts :: "host_config \<Rightarrow> check" where
  "validate_net_opts hc = in_order [
     for_each (Dns hc) (\<lambda>d. reject (\<not> valid_ip d) (BadRequest ''DNS server'')),
     for_each (DnsSearch hc) (\<lambda>d. reject (\<not> valid_resolv_token d) (BadRequest ''DNS search domain'')),
     for_each (DnsOptions hc) (\<lambda>d. reject (\<not> valid_resolv_token d) (BadRequest ''DNS option'')),
     for_each (ExtraHosts hc) (\<lambda>entry. case split_once CHR '':'' entry of
        Some (host, ip) \<Rightarrow> reject (host = [] \<or> \<not> valid_ip ip) (BadRequest ''extra host'')
      | None \<Rightarrow> Err (BadRequest ''extra host''))]"

definition unknown_caps :: "host_config \<Rightarrow> string list" where
  "unknown_caps hc = filter (\<lambda>n. \<not> eq_ignore_ascii_case n ''ALL'' \<and> cap_name_to_bit n = None)
     (CapAdd hc @ CapDrop hc)"

definition validate_hostconfig :: "host_config \<Rightarrow> check" where
  "validate_hostconfig hc = in_order [
     reject (Memory hc < 0) (BadRequest ''memory''),
     reject (NanoCpus hc < 0) (BadRequest ''nano CPUs''),
     reject (CpuShares hc < 0) (BadRequest ''CPU shares''),
     reject (MemorySwap hc < -1) (BadRequest ''memory swap''),
     reject (0 < MemorySwap hc \<and> 0 < Memory hc \<and> MemorySwap hc < Memory hc) (BadRequest ''memory swap''),
     reject (CpusetCpus hc \<noteq> [] \<and> \<not> valid_cpuset (CpusetCpus hc)) (BadRequest ''cpuset CPUs''),
     reject (Devices hc \<noteq> []) (Unsupported ''HostConfig.Devices''),
     reject (unknown_caps hc \<noteq> []) (BadRequest ''capability''),
     reject (ShmSize hc < 0) (BadRequest ''shm size''),
     for_each (assoc_keys (Tmpfs hc)) (\<lambda>dest. reject (\<not> starts_with ''/'' dest) (BadRequest ''tmpfs'')),
     for_each (assoc_keys (Sysctls hc)) (\<lambda>key. reject (\<not> starts_with ''net.'' key) (Unsupported ''sysctl'')),
     and_then (parse_ulimits hc) (\<lambda>_. Ok ()),
     reject (rp_Name (RestartPolicy hc) \<notin> {[], ''no'', ''always'', ''unless-stopped'', ''on-failure''})
       (BadRequest ''restart policy''),
     reject (rp_MaximumRetryCount (RestartPolicy hc) < 0) (BadRequest ''restart policy''),
     for_each (SecurityOpt hc) (\<lambda>opt. reject
       (opt \<notin> {''seccomp=unconfined'', ''seccomp:unconfined'', ''seccomp=default'', ''seccomp:default''})
       (Unsupported ''SecurityOpt'')),
     reject (VolumeDriver hc \<noteq> [] \<and> VolumeDriver hc \<noteq> ''local'') (Unsupported ''volume driver''),
     reject (VolumesFrom hc \<noteq> []) (Unsupported ''HostConfig.VolumesFrom''),
     reject (GroupAdd hc \<noteq> []) (Unsupported ''HostConfig.GroupAdd''),
     reject (ContainerIDFile hc \<noteq> []) (Unsupported ''HostConfig.ContainerIDFile''),
     reject (lc_typ (LogConfig hc) \<noteq> [] \<and> lc_typ (LogConfig hc) \<noteq> ''json-file'') (Unsupported ''log driver''),
     for_each (assoc_keys (lc_config (LogConfig hc))) (\<lambda>key.
       reject (key \<noteq> ''max-size'' \<and> key \<noteq> ''max-file'') (Unsupported ''log opt'')),
     reject (\<not> is_ok (parse_log_rotation (lc_config (LogConfig hc)))) (BadRequest ''log opt''),
     reject (IpcMode hc \<noteq> [] \<and> IpcMode hc \<noteq> ''private'' \<and> IpcMode hc \<noteq> ''shareable'') (Unsupported ''IpcMode''),
     reject (hc_Cgroup hc \<noteq> []) (Unsupported ''HostConfig.Cgroup''),
     reject (hc_Links hc \<noteq> []) (Unsupported ''HostConfig.Links''),
     reject (OomScoreAdj hc \<noteq> 0) (Unsupported ''HostConfig.OomScoreAdj''),
     reject (UTSMode hc \<noteq> [] \<and> UTSMode hc \<noteq> ''private'') (Unsupported ''UTSMode''),
     reject (UsernsMode hc \<noteq> []) (Unsupported ''HostConfig.UsernsMode''),
     reject (hc_Runtime hc \<noteq> [] \<and> hc_Runtime hc \<noteq> ''runc'') (Unsupported ''Runtime''),
     reject (Isolation hc \<noteq> [] \<and> Isolation hc \<noteq> ''default'') (Unsupported ''Isolation''),
     reject (CgroupParent hc \<noteq> []) (Unsupported ''HostConfig.CgroupParent''),
     reject (BlkioWeight hc \<noteq> 0) (Unsupported ''HostConfig.BlkioWeight''),
     reject (CpuPeriod hc < 0) (BadRequest ''CPU period''),
     reject (CpuQuota hc < 0) (BadRequest ''CPU quota''),
     reject (CpusetMems hc \<noteq> []) (Unsupported ''HostConfig.CpusetMems''),
     reject (hc_Init hc = Some True) (Unsupported ''HostConfig.Init'')]"

definition validate_networking_config :: "container_create_body \<Rightarrow> check" where
  "validate_networking_config body =
     (case b_NetworkingConfig body of
        None \<Rightarrow> Ok ()
      | Some nc \<Rightarrow>
          if EndpointsConfig nc = [] then Ok ()
          else in_order [
            reject (NetworkMode (b_HostConfig body) \<in> {''none'', ''host''}) (BadRequest ''networking config''),
            for_each (EndpointsConfig nc) (\<lambda>(net, ep).
              case es_IPAMConfig ep of None \<Rightarrow> Ok ()
              | Some ipam \<Rightarrow> reject (IPv4Address ipam \<noteq> [] \<and> parse_ipv4 (IPv4Address ipam) = None)
                               (BadRequest ''IPAMConfig.IPv4Address''))])"

definition validate_config :: "container_create_body \<Rightarrow> check" where
  "validate_config body = in_order [
     reject (CHR 0x00 \<in> set (b_User body)) (BadRequest ''user''),
     reject (b_WorkingDir body \<noteq> [] \<and> \<not> starts_with ''/'' (b_WorkingDir body)) (BadRequest ''working directory''),
     reject (b_StopSignal body \<noteq> [] \<and> \<not> valid_signal (b_StopSignal body)) (BadRequest ''stop signal''),
     (case b_StopTimeout body of None \<Rightarrow> Ok () | Some t \<Rightarrow> reject (t < 0) (BadRequest ''stop timeout'')),
     validate_ports (b_HostConfig body),
     validate_binds (b_HostConfig body),
     validate_mounts (b_HostConfig body),
     validate_net_opts (b_HostConfig body),
     (case b_ExposedPorts body of None \<Rightarrow> Ok ()
      | Some exposed \<Rightarrow> for_each (assoc_keys exposed) (\<lambda>k.
          reject (split_exposed_key k = None) (BadRequest ''exposed ports''))),
     reject (b_Domainname body \<noteq> []) (Unsupported ''Domainname''),
     reject (b_ArgsEscaped body) (Unsupported ''ArgsEscaped''),
     reject (b_OnBuild body \<noteq> None \<and> b_OnBuild body \<noteq> Some []) (Unsupported ''OnBuild''),
     reject (b_Shell body \<noteq> None \<and> b_Shell body \<noteq> Some []) (Unsupported ''Shell'')]"

definition validate_create :: "container_create_body \<Rightarrow> string option \<Rightarrow> string option \<Rightarrow> check" where
  "validate_create body name platform = in_order [
     (case platform of None \<Rightarrow> Ok ()
      | Some p \<Rightarrow> let clean = map to_lower (trim p) in
          reject (clean \<noteq> [] \<and> clean \<noteq> ''linux/amd64'' \<and> clean \<noteq> ''linux'') (BadRequest ''platform'')),
     (case name of None \<Rightarrow> Ok () | Some n \<Rightarrow> reject (\<not> valid_name n) (BadRequest ''container name'')),
     reject (trim (b_Image body) = []) (BadRequest ''image''),
     validate_hostconfig (b_HostConfig body),
     validate_networking_config body,
     validate_config body]"

text \<open>\<open>apply_rlimit\<close> of \<open>crates/runtime/src/child.rs\<close> up to the system call: the resource number and
  the two limits handed to \<open>setrlimit\<close>, where \<open>RLIM_INFINITY\<close> is the largest \<open>u64\<close>.\<close>

definition apply_rlimit :: "string \<Rightarrow> int \<Rightarrow> int \<Rightarrow> (nat \<times> nat \<times> nat) option" where
  "apply_rlimit name soft hard =
     (let resource = (if name = ''core'' then Some 4 else if name = ''nofile'' then Some 7
        else if name = ''nproc'' then Some 6 else if name = ''stack'' then Some 3
        else if name = ''as'' then Some 9 else if name = ''memlock'' then Some 8 else None);
        lim = (\<lambda>v. if v < 0 then u64_max else nat v) in
      map_option (\<lambda>r. (r, lim soft, lim hard)) resource)"

section \<open>Signals\<close>

lemma position_Some: "position a xs = Some i \<Longrightarrow> i < length xs \<and> xs ! i = a"
  by (induction xs arbitrary: i) (auto split: if_splits)

lemma signal_name_cases:
  "i < length signal_names \<Longrightarrow>
   parse_signal (signal_names ! i) = Some (Suc i) \<and>
   parse_signal (''SIG'' @ signal_names ! i) = Some (Suc i) \<and>
   parse_signal (map to_lower (signal_names ! i)) = Some (Suc i)"
proof -
  have "list_all (\<lambda>i. parse_signal (signal_names ! i) = Some (Suc i) \<and>
      parse_signal (''SIG'' @ signal_names ! i) = Some (Suc i) \<and>
      parse_signal (map to_lower (signal_names ! i)) = Some (Suc i)) [0..<31]" by code_simp
  moreover have "length signal_names = 31" by code_simp
  ultimately show "i < length signal_names \<Longrightarrow> ?thesis" by (simp add: list_all_iff)
qed

text \<open>The signal parser only yields signal numbers 1 to 64, and every signal of the table
  is recognised by its name, its name with the prefix \<open>SIG\<close> and its name in lower case, with the
  number the kernel gives it.\<close>

theorem parse_signal_correct:
  "(\<forall>s n. parse_signal s = Some n \<longrightarrow> 1 \<le> n \<and> n \<le> 64) \<and>
   (\<forall>i < length signal_names.
      parse_signal (signal_names ! i) = Some (Suc i) \<and>
      parse_signal (''SIG'' @ signal_names ! i) = Some (Suc i) \<and>
      parse_signal (map to_lower (signal_names ! i)) = Some (Suc i))"
proof (intro conjI allI impI)
  fix s n
  assume p: "parse_signal s = Some n"
  have len: "length signal_names = 31" by code_simp
  show "1 \<le> n" using p by (auto simp: parse_signal_def Let_def split: option.splits if_splits)
  show "n \<le> 64" using p len
    by (auto simp: parse_signal_def Let_def split: option.splits if_splits dest!: position_Some)
next
  fix i
  assume i: "i < length signal_names"
  show "parse_signal (signal_names ! i) = Some (Suc i)" using signal_name_cases[OF i] by blast
  show "parse_signal (''SIG'' @ signal_names ! i) = Some (Suc i)" using signal_name_cases[OF i] by blast
  show "parse_signal (map to_lower (signal_names ! i)) = Some (Suc i)" using signal_name_cases[OF i] by blast
qed

theorem parse_signal_correct_witness: "parse_signal ''SIGKILL'' = Some 9"
proof -
  have "8 < length signal_names" "signal_names ! 8 = ''KILL''" by code_simp+
  then show ?thesis using parse_signal_correct by (metis append_Cons append_Nil numeral_eq_Suc eval_nat_numeral)
qed

section \<open>Resource limits\<close>

lemma parse_ulimit_Ok:
  assumes "parse_ulimit v = Ok (n, soft, hard)"
  shows "n \<in> set SUPPORTED_RLIMITS \<and> -1 \<le> soft \<and> -1 \<le> hard \<and> (hard = -1 \<or> soft \<le> hard)
    \<and> soft < 2 ^ 63 \<and> hard < 2 ^ 63"
  using assms
  by (auto simp: parse_ulimit_def ulimit_num_def json_i64_def Let_def and_then_iffs
      split: if_splits option.splits json.splits)

lemma parse_ulimit_list_mem:
  "parse_ulimit_list vs = Ok us \<Longrightarrow> u \<in> set us \<Longrightarrow> \<exists>v. parse_ulimit v = Ok u"
  by (induction vs arbitrary: us) (auto simp: and_then_iffs)

lemma apply_rlimit_known: "n \<in> set SUPPORTED_RLIMITS \<Longrightarrow> apply_rlimit n soft hard \<noteq> None"
  by (auto simp: SUPPORTED_RLIMITS_def apply_rlimit_def)

text \<open>Every accepted resource limit has a resource number and, with one exception, a soft
  limit that does not exceed the hard limit when they reach the kernel. The exception is the
  pair of an unlimited soft limit and a finite hard limit, which the validation accepts and
  \<open>setrlimit\<close> refuses, so that the container can be created but never started.\<close>

theorem accepted_ulimit_settable_iff:
  assumes "parse_ulimits hc = Ok us" and "(n, soft, hard) \<in> set us"
  shows "\<exists>r cur mx. apply_rlimit n soft hard = Some (r, cur, mx) \<and>
           (cur \<le> mx \<longleftrightarrow> soft \<noteq> -1 \<or> hard = -1)"
proof -
  obtain v where "parse_ulimit v = Ok (n, soft, hard)"
    using parse_ulimit_list_mem assms by (metis parse_ulimits_def)
  note facts = parse_ulimit_Ok[OF this]
  obtain r cur mx where app: "apply_rlimit n soft hard = Some (r, cur, mx)"
    using apply_rlimit_known[of n soft hard] facts by auto
  then have "cur = (if soft < 0 then u64_max else nat soft)" "mx = (if hard < 0 then u64_max else nat hard)"
    by (auto simp: apply_rlimit_def Let_def)
  then have "cur \<le> mx \<longleftrightarrow> soft \<noteq> -1 \<or> hard = -1"
    using facts by (auto simp: u64_max_def)
  then show ?thesis using app by blast
qed

definition soft_unlimited :: host_config where
  "soft_unlimited = default_host_config\<lparr>Ulimits :=
     [JObj [(''Name'', JStr ''nofile''), (''Soft'', JInt (-1)), (''Hard'', JInt 100)]]\<rparr>"

theorem accepted_ulimit_settable_iff_witness:
  "validate_hostconfig soft_unlimited = Ok () \<and>
   (\<exists>r cur mx. apply_rlimit ''nofile'' (-1) 100 = Some (r, cur, mx) \<and> \<not> cur \<le> mx)"
proof
  show "validate_hostconfig soft_unlimited = Ok ()" by code_simp
  have "parse_ulimits soft_unlimited = Ok [(''nofile'', -1, 100)]" by code_simp
  then show "\<exists>r cur mx. apply_rlimit ''nofile'' (-1) 100 = Some (r, cur, mx) \<and> \<not> cur \<le> mx"
    using accepted_ulimit_settable_iff[of soft_unlimited "[(''nofile'', -1, 100)]" "''nofile''" "-1" 100]
    by auto
qed

end
