(* ===== verification/Container_Files.thy ===== *)
theory Container_Files
  imports Create_Validation
begin

text \<open>
  The files the manager writes into a container: \<open>resolv.conf\<close> and \<open>hosts\<close>, by the functions
  \<open>build_resolv\<close>, \<open>default_resolv\<close> and \<open>default_hosts\<close> of \<open>crates/runtime/src/manager.rs\<close>. The host's
  own \<open>/etc/resolv.conf\<close> is an argument (\<open>None\<close> if it cannot be read). The main theorem ties them
  to the create-time validation: options that were accepted cannot add or break a line.
\<close>

abbreviation newline :: char where "newline \<equiv> CHR 0x0A"
abbreviation tab :: char where "tab \<equiv> CHR 0x09"

definition is_loopback_line :: "string \<Rightarrow> bool" where
  "is_loopback_line line =
     (starts_with ''nameserver'' (trim_start line) \<and>
      (case split_whitespace line of
         _ # ns # _ \<Rightarrow> starts_with ''127.'' ns \<or> ns = ''::1''
       | _ \<Rightarrow> False))"

definition text_of_lines :: "string list \<Rightarrow> string" where
  "text_of_lines ls = concat (map (\<lambda>l. l @ [newline]) ls)"

definition default_resolv :: "string option \<Rightarrow> string" where
  "default_resolv host =
     (case host of
        None \<Rightarrow> ''nameserver 8.8.8.8'' @ [newline]
      | Some cont \<Rightarrow>
          (let out = text_of_lines (filter (\<lambda>l. \<not> is_loopback_line l) (lines cont)) in
           if out = [] then ''nameserver 8.8.8.8'' @ [newline] else out))"

definition nameserver_lines :: "string list \<Rightarrow> string" where
  "nameserver_lines ds = concat (map (\<lambda>d. ''nameserver '' @ d @ [newline]) ds)"

definition build_resolv :: "host_config \<Rightarrow> string list \<Rightarrow> string option \<Rightarrow> string" where
  "build_resolv hc user_gateways host =
     (if Dns hc \<noteq> [] then nameserver_lines (Dns hc)
      else if user_gateways \<noteq> [] then nameserver_lines user_gateways
      else default_resolv host) @
     (if DnsSearch hc \<noteq> [] then ''search '' @ join_with '' '' (DnsSearch hc) @ [newline] else []) @
     (if DnsOptions hc \<noteq> [] then ''options '' @ join_with '' '' (DnsOptions hc) @ [newline] else [])"

definition hosts_header :: string where
  "hosts_header =
     ''127.0.0.1'' @ [tab] @ ''localhost'' @ [newline] @
     ''::1'' @ [tab] @ ''localhost ip6-localhost ip6-loopback'' @ [newline] @
     ''fe00::0'' @ [tab] @ ''ip6-localnet'' @ [newline] @
     ''ff00::0'' @ [tab] @ ''ip6-mcastprefix'' @ [newline] @
     ''ff02::1'' @ [tab] @ ''ip6-allnodes'' @ [newline] @
     ''ff02::2'' @ [tab] @ ''ip6-allrouters'' @ [newline]"

definition hosts_line :: "string \<Rightarrow> string \<Rightarrow> string" where
  "hosts_line ip name = ip @ [tab] @ name @ [newline]"

definition default_hosts :: "container_record \<Rightarrow> string \<Rightarrow> string" where
  "default_hosts record ip =
     hosts_header @
     (if ip \<noteq> [] then
        concat (map (\<lambda>e. concat (map (\<lambda>alias. hosts_line (ep_ip e) alias) (ep_aliases e))) (cr_endpoints record)) @
        hosts_line ip (c_Hostname (cr_config record))
      else hosts_line ''127.0.0.1'' (c_Hostname (cr_config record))) @
     concat (map (\<lambda>extra. case split_once CHR '':'' extra of None \<Rightarrow> [] | Some (host, a) \<Rightarrow> hosts_line a host)
       (ExtraHosts (cr_hostconfig record)))"

section \<open>Lines\<close>

definition clean_line :: "string \<Rightarrow> bool" where
  "clean_line l \<longleftrightarrow> newline \<notin> set l \<and> CHR 0x0D \<notin> set l"

lemma strip_cr_clean: "clean_line l \<Longrightarrow> strip_cr l = l"
  by (auto simp: strip_cr_def clean_line_def strip_suffix_Some split: option.splits)

lemma split_text_of_lines:
  "\<forall>l \<in> set ls. newline \<notin> set l \<Longrightarrow> split_on newline (text_of_lines ls) = ls @ [[]]"
  by (induction ls) (simp_all add: text_of_lines_def split_on_append)

lemma lines_text_of_lines: "\<forall>l \<in> set ls. clean_line l \<Longrightarrow> lines (text_of_lines ls) = ls"
proof -
  assume clean: "\<forall>l \<in> set ls. clean_line l"
  then have "map strip_cr ls = ls" by (simp add: map_idI strip_cr_clean)
  then show ?thesis
    using clean by (simp add: lines_def split_text_of_lines clean_line_def Let_def)
qed

lemma text_of_lines_append: "text_of_lines (as @ bs) = text_of_lines as @ text_of_lines bs"
  by (simp add: text_of_lines_def)

section \<open>Accepted addresses and tokens are clean\<close>

definition addr_char :: "char \<Rightarrow> bool" where
  "addr_char c = (is_hex c \<or> c = CHR '':'' \<or> c = CHR ''.'')"

lemma addr_char_clean: "\<forall>c \<in> set l. addr_char c \<Longrightarrow> clean_line l"
proof -
  have "\<not> addr_char newline" "\<not> addr_char (CHR 0x0D)" by code_simp+
  then show "\<forall>c \<in> set l. addr_char c \<Longrightarrow> clean_line l" by (auto simp: clean_line_def)
qed

lemma digit_addr_char: "is_digit c \<Longrightarrow> addr_char c"
  by (simp add: addr_char_def is_hex_def)

lemma set_split_on: "set s \<subseteq> insert c (\<Union> (set ` set (split_on c s)))"
proof -
  have "set (join_with [c] (split_on c s)) \<subseteq> insert c (\<Union> (set ` set (split_on c s)))"
    using set_join_with[of "[c]" "split_on c s"] by auto
  then show ?thesis by (simp add: join_split_on)
qed

lemma parse_octet_digits: "parse_octet s = Some n \<Longrightarrow> \<forall>c \<in> set s. is_digit c"
  by (auto simp: parse_octet_def list_all_iff split: if_splits)

lemma parse_ipv4_chars: "parse_ipv4 s = Some w \<Longrightarrow> \<forall>c \<in> set s. addr_char c"
proof
  fix c
  assume p: "parse_ipv4 s = Some w" and c: "c \<in> set s"
  have "\<forall>o' \<in> set (split_on CHR ''.'' s). \<forall>c \<in> set o'. is_digit c"
    using p by (auto simp: parse_ipv4_def dest: parse_octet_digits split: list.splits option.splits)
  moreover have "c = CHR ''.'' \<or> (\<exists>o' \<in> set (split_on CHR ''.'' s). c \<in> set o')"
    using c set_split_on[of s "CHR ''.''"] by auto
  ultimately show "addr_char c" by (auto intro: digit_addr_char simp: addr_char_def is_hex_def)
qed

text \<open>The readers of the IPv6 parser consume address characters only.\<close>

definition consumes :: "string \<Rightarrow> string \<Rightarrow> bool" where
  "consumes s rest \<longleftrightarrow> (\<exists>p. s = p @ rest \<and> (\<forall>c \<in> set p. addr_char c))"

lemma consumes_refl [simp]: "consumes s s"
  by (simp add: consumes_def)

lemma consumes_trans: "consumes a b \<Longrightarrow> consumes b c \<Longrightarrow> consumes a c"
proof -
  assume "consumes a b" "consumes b c"
  then obtain p q where "a = p @ b" "\<forall>c \<in> set p. addr_char c" "b = q @ c" "\<forall>c \<in> set q. addr_char c"
    by (auto simp: consumes_def)
  then show ?thesis by (auto simp: consumes_def intro!: exI[of _ "p @ q"])
qed

lemma consumes_Nil: "consumes s [] \<Longrightarrow> \<forall>c \<in> set s. addr_char c"
  by (auto simp: consumes_def)

lemma consumes_read_octet: "read_octet s = Some (n, r) \<Longrightarrow> consumes s r"
proof -
  assume "read_octet s = Some (n, r)"
  then have "r = dropWhile is_digit s" by (auto simp: read_octet_def split: option.splits)
  then show ?thesis
    by (auto simp: consumes_def digit_addr_char dest: set_takeWhileD intro!: exI[of _ "takeWhile is_digit s"])
qed

lemma consumes_read_char: "read_char c s = Some r \<Longrightarrow> c = CHR ''.'' \<or> c = CHR '':'' \<Longrightarrow> consumes s r"
  by (auto simp: consumes_def read_char_def strip_prefix_Some addr_char_def intro!: exI[of _ "[c]"])

lemma consumes_read_dot_octet: "read_dot_octet s = Some (n, r) \<Longrightarrow> consumes s r"
  by (auto simp: read_dot_octet_def split: option.splits
      intro: consumes_trans[OF consumes_read_char consumes_read_octet])

lemma consumes_read_ipv4: "read_ipv4_addr s = Some (q, r) \<Longrightarrow> consumes s r"
  by (auto simp: read_ipv4_addr_def split: option.splits
      dest!: consumes_read_octet consumes_read_dot_octet) (blast intro: consumes_trans)

lemma consumes_read_hex: "read_hex_group s = Some (g, r) \<Longrightarrow> consumes s r"
  by (auto simp: consumes_def read_hex_group_def Let_def addr_char_def dest: set_takeWhileD
      split: if_splits intro!: exI[of _ "takeWhile is_hex s"])

lemma consumes_read_sep: "read_sep i s = Some r \<Longrightarrow> consumes s r"
  by (auto simp: read_sep_def intro: consumes_read_char split: if_splits)

lemma consumes_read_groups: "read_groups n i s = (gs, v4, r) \<Longrightarrow> consumes s r"
proof (induction n i s arbitrary: gs v4 r rule: read_groups.induct)
  case (1 i s)
  then show ?case by simp
next
  case (2 n i s)
  show ?case
  proof (cases "if n = 0 then None else Option.bind (read_sep i s) read_ipv4_addr")
    case (Some q)
    then obtain a b c d rest where q: "q = ((a, b, c, d), rest)" by (metis prod.exhaust)
    then have "r = rest" using "2.prems" Some by simp
    moreover have "consumes s rest" using Some q
      by (auto simp: bind_eq_Some_conv split: if_splits
          intro: consumes_trans[OF consumes_read_sep consumes_read_ipv4])
    ultimately show ?thesis by simp
  next
    case None
    show ?thesis
    proof (cases "Option.bind (read_sep i s) read_hex_group")
      case None': None
      then show ?thesis using "2.prems" None by simp
    next
      case (Some p)
      then obtain g rest where p: "p = (g, rest)" by (cases p)
      obtain gs' where "read_groups n (Suc i) rest = (gs', v4, r)"
        using "2.prems" None Some p by (auto split: prod.splits)
      then have "consumes rest r" using "2.IH"[OF None Some] p by simp
      moreover have "consumes s rest" using Some p
        by (auto simp: bind_eq_Some_conv intro: consumes_trans[OF consumes_read_sep consumes_read_hex])
      ultimately show ?thesis by (rule consumes_trans[rotated])
    qed
  qed
qed

lemma parse_ipv6_chars: "parse_ipv6 s = Some w \<Longrightarrow> \<forall>c \<in> set s. addr_char c"
proof -
  assume p: "parse_ipv6 s = Some w"
  obtain head v4 rest where h: "read_groups 8 0 s = (head, v4, rest)" by (metis prod.exhaust)
  have c1: "consumes s rest" using h by (rule consumes_read_groups)
  show ?thesis
  proof (cases "length head = 8")
    case True
    then have "rest = []" using p h by (auto simp: parse_ipv6_def split: if_splits)
    then show ?thesis using c1 consumes_Nil by blast
  next
    case False
    then obtain rest1 where r1: "strip_prefix ''::'' rest = Some rest1"
      using p h by (auto simp: parse_ipv6_def split: if_splits option.splits)
    obtain tl' v4' rest2 where t: "read_groups (8 - (length head + 1)) 0 rest1 = (tl', v4', rest2)"
      by (metis prod.exhaust)
    have "rest2 = []" using p h False r1 t by (auto simp: parse_ipv6_def split: if_splits)
    moreover have "consumes rest1 rest2" using t by (rule consumes_read_groups)
    moreover have "consumes rest rest1" using r1
      by (auto simp: consumes_def strip_prefix_Some addr_char_def intro!: exI[of _ "''::''"])
    ultimately show ?thesis using c1 consumes_trans consumes_Nil by blast
  qed
qed

lemma valid_ip_clean: "valid_ip d \<Longrightarrow> clean_line d"
  using parse_ipv4_chars parse_ipv6_chars addr_char_clean by (auto simp: valid_ip_def)

lemma resolv_token_clean: "valid_resolv_token d \<Longrightarrow> clean_line d"
proof -
  have "\<not> is_graphic newline" "\<not> is_graphic (CHR 0x0D)" by code_simp+
  then show "valid_resolv_token d \<Longrightarrow> clean_line d"
    by (auto simp: valid_resolv_token_def clean_line_def list_all_iff)
qed

lemma clean_line_prefix: "clean_line p \<Longrightarrow> clean_line d \<Longrightarrow> clean_line (p @ d)"
  by (auto simp: clean_line_def)

lemma clean_line_join: "\<forall>d \<in> set ds. clean_line d \<Longrightarrow> clean_line (join_with '' '' ds)"
  using set_join_with[of "'' ''" ds] by (auto simp: clean_line_def)

text \<open>The lines \<open>resolv.conf\<close> should have.\<close>

definition resolv_lines :: "host_config \<Rightarrow> string list \<Rightarrow> string list \<Rightarrow> string list" where
  "resolv_lines hc gateways host_lines =
     (if Dns hc \<noteq> [] then map (\<lambda>d. ''nameserver '' @ d) (Dns hc)
      else if gateways \<noteq> [] then map (\<lambda>d. ''nameserver '' @ d) gateways
      else if filter (\<lambda>l. \<not> is_loopback_line l) host_lines = [] then [''nameserver 8.8.8.8'']
      else filter (\<lambda>l. \<not> is_loopback_line l) host_lines) @
     (if DnsSearch hc \<noteq> [] then [''search '' @ join_with '' '' (DnsSearch hc)] else []) @
     (if DnsOptions hc \<noteq> [] then [''options '' @ join_with '' '' (DnsOptions hc)] else [])"

lemma build_resolv_text:
  "build_resolv hc gws (Some h) = text_of_lines (resolv_lines hc gws (lines h))"
proof -
  have ns: "nameserver_lines ds = text_of_lines (map (\<lambda>d. ''nameserver '' @ d) ds)" for ds
    by (simp add: nameserver_lines_def text_of_lines_def comp_def)
  have Nil: "text_of_lines ls = [] \<longleftrightarrow> ls = []" for ls
    by (cases ls) (simp_all add: text_of_lines_def)
  show ?thesis
    unfolding build_resolv_def resolv_lines_def text_of_lines_append ns
    by (simp add: default_resolv_def Let_def Nil) (simp add: text_of_lines_def)
qed

text \<open>Claim C29: For accepted network options, \<open>resolv.conf\<close> has exactly the intended lines: one
  \<open>nameserver\<close> line per DNS server (the explicit servers, else the gateways of the attached
  networks, else the host's lines without loopback servers), then at most one \<open>search\<close> and one
  \<open>options\<close> line. No accepted value can add a line or break one.\<close>

theorem resolv_conf_no_injection:
  assumes "validate_net_opts hc = Ok ()" and "\<forall>g \<in> set gws. valid_ip g"
    and "\<forall>l \<in> set (lines h). clean_line l"
  shows "lines (build_resolv hc gws (Some h)) = resolv_lines hc gws (lines h)"
proof -
  have acc: "\<forall>d \<in> set (Dns hc). valid_ip d" "\<forall>d \<in> set (DnsSearch hc). valid_resolv_token d"
    "\<forall>d \<in> set (DnsOptions hc). valid_resolv_token d"
    using assms(1) by (simp_all add: validate_net_opts_def checks)
  have pre: "clean_line ''nameserver ''" "clean_line ''search ''" "clean_line ''options ''"
    "clean_line ''nameserver 8.8.8.8''" by code_simp+
  have "\<forall>l \<in> set (resolv_lines hc gws (lines h)). clean_line l"
    using acc assms(2,3) pre unfolding resolv_lines_def
    by (auto intro!: clean_line_prefix clean_line_join intro: valid_ip_clean resolv_token_clean
        simp del: append_Cons)
  then show ?thesis by (simp add: build_resolv_text lines_text_of_lines)
qed

theorem resolv_conf_no_injection_witness:
  "lines (build_resolv (default_host_config\<lparr>DnsSearch := [''svc'', ''local'']\<rparr>) [''10.89.0.1''] (Some [])) =
     [''nameserver 10.89.0.1'', ''search svc local'']"
proof -
  let ?hc = "default_host_config\<lparr>DnsSearch := [''svc'', ''local'']\<rparr>"
  have "validate_net_opts ?hc = Ok ()" "\<forall>g \<in> set [''10.89.0.1'']. valid_ip g"
    "\<forall>l \<in> set (lines []). clean_line l" by code_simp+
  from resolv_conf_no_injection[OF this]
  have "lines (build_resolv ?hc [''10.89.0.1''] (Some [])) = resolv_lines ?hc [''10.89.0.1''] (lines [])" .
  also have "\<dots> = [''nameserver 10.89.0.1'', ''search svc local'']" by code_simp
  finally show ?thesis .
qed

end
