(* ===== verification/Dns_Server.thy ===== *)
theory Dns_Server
  imports Network_Manager Container_Files
begin

text \<open>
  The embedded DNS server of \<open>crates/network/src/dns.rs\<close>: reading the question of a query, looking the
  name up in the registries of the network (with the search domains of the querier), choosing the
  reply and building it. A packet is a list of bytes. Strings are the lists of their UTF-8 bytes;
  \<open>String::from_utf8_lossy\<close> is the standard library's decoder. Sockets are left out: the answer of
  the upstream servers to a forwarded query is a parameter.
\<close>

section \<open>Lossy decoding\<close>

definition cont_byte :: "nat \<Rightarrow> bool" where
  "cont_byte b = (128 \<le> b \<and> b \<le> 191)"

definition second_ok :: "nat \<Rightarrow> nat \<Rightarrow> bool" where
  "second_ok b c =
     (if b = 224 then 160 \<le> c \<and> c \<le> 191 else if b = 237 then 128 \<le> c \<and> c \<le> 159
      else if b = 240 then 144 \<le> c \<and> c \<le> 191 else if b = 244 then 128 \<le> c \<and> c \<le> 143
      else cont_byte c)"

definition replacement :: "nat list" where
  "replacement = [239, 191, 189]"

text \<open>Each longest prefix of an invalid sequence becomes one replacement character.\<close>

fun from_utf8_lossy :: "nat list \<Rightarrow> nat list" where
  "from_utf8_lossy [] = []"
| "from_utf8_lossy (b # bs) =
     (if b < 128 then b # from_utf8_lossy bs
      else if 194 \<le> b \<and> b \<le> 223 then
        (case bs of
           c # cs \<Rightarrow> if cont_byte c then b # c # from_utf8_lossy cs else replacement @ from_utf8_lossy bs
         | [] \<Rightarrow> replacement)
      else if 224 \<le> b \<and> b \<le> 239 then
        (case bs of
           c # cs \<Rightarrow>
             if second_ok b c then
               (case cs of
                  d # ds \<Rightarrow> if cont_byte d then b # c # d # from_utf8_lossy ds
                              else replacement @ from_utf8_lossy cs
                | [] \<Rightarrow> replacement)
             else replacement @ from_utf8_lossy bs
         | [] \<Rightarrow> replacement)
      else if 240 \<le> b \<and> b \<le> 244 then
        (case bs of
           c # cs \<Rightarrow>
             if second_ok b c then
               (case cs of
                  d # ds \<Rightarrow>
                    if cont_byte d then
                      (case ds of
                         e # es \<Rightarrow> if cont_byte e then b # c # d # e # from_utf8_lossy es
                                     else replacement @ from_utf8_lossy ds
                       | [] \<Rightarrow> replacement)
                    else replacement @ from_utf8_lossy cs
                | [] \<Rightarrow> replacement)
             else replacement @ from_utf8_lossy bs
         | [] \<Rightarrow> replacement)
      else replacement @ from_utf8_lossy bs)"

definition label_text :: "u8 list \<Rightarrow> string" where
  "label_text bs = map char_of (from_utf8_lossy (map unat bs))"

section \<open>The question of a query\<close>

function read_labels :: "u8 list \<Rightarrow> (string list \<times> u8 list) option" where
  "read_labels [] = Some ([], [])"
| "read_labels (len # rest) =
     (if len = 0 then Some ([], rest)
      else if len AND 0xC0 \<noteq> 0 then None
      else if length rest < unat len then None
      else (case read_labels (drop (unat len) rest) of
              None \<Rightarrow> None
            | Some (ls, tail) \<Rightarrow> Some (label_text (take (unat len) rest) # ls, tail)))"
  by pat_completeness auto
termination by (relation "measure length") auto

definition extract_query_name_type :: "u8 list \<Rightarrow> string option \<times> nat" where
  "extract_query_name_type query =
     (if length query < 12 then (None, 1)
      else (case read_labels (drop 12 query) of
              None \<Rightarrow> (None, 1)
            | Some (labels, tail) \<Rightarrow>
                (if labels = [] then None else Some (ascii_lower (join_with ''.'' labels)),
                 case tail of hi # lo # _ \<Rightarrow> unat hi * 256 + unat lo | _ \<Rightarrow> 1)))"

section \<open>Lookup and replies\<close>

definition resolve_search :: "registry \<Rightarrow> string list \<Rightarrow> string \<Rightarrow> string option" where
  "resolve_search records domains name =
     foldr (\<lambda>d r. case assoc_get records (name @ ''.'' @ ascii_lower d) of None \<Rightarrow> r | Some ip \<Rightarrow> Some ip)
       domains None"

definition dns_lookup ::
  "(string, string list) assoc \<Rightarrow> string \<Rightarrow> string option \<Rightarrow> registry \<Rightarrow> string option" where
  "dns_lookup by_ip peer name records =
     (case name of
        None \<Rightarrow> None
      | Some n \<Rightarrow>
         (case assoc_get records n of
            Some ip \<Rightarrow> Some ip
          | None \<Rightarrow> (case assoc_get by_ip peer of
              None \<Rightarrow> None | Some domains \<Rightarrow> resolve_search records domains n)))"

datatype dns_decision = DA string | DAaaa string | DNodata | DForward

definition decide :: "nat \<Rightarrow> string option \<Rightarrow> string option \<Rightarrow> dns_decision" where
  "decide qtype v4 v6 =
     (if qtype = 28 then
        (case (v4, v6) of (_, Some ip) \<Rightarrow> DAaaa ip | (Some _, None) \<Rightarrow> DNodata | (None, None) \<Rightarrow> DForward)
      else (case v4 of Some ip \<Rightarrow> DA ip | None \<Rightarrow> DForward))"

definition build_error :: "u8 list \<Rightarrow> u8 \<Rightarrow> u8 list" where
  "build_error query rcode =
     (if length query < 12 then query
      else query[2 := (query ! 2) OR 0x80, 3 := ((query ! 3) AND 0xF0) OR 0x80 OR (rcode AND 0x0F)])"

definition octets :: "nat \<Rightarrow> nat \<Rightarrow> u8 list" where
  "octets k n = map (\<lambda>i. word_of_nat (n div 256 ^ i)) (rev [0..<k])"

definition answer_header :: "u8 list \<Rightarrow> u8 list" where
  "answer_header query = query[2 := (query ! 2) OR 0x80, 3 := (query ! 3) OR 0x80, 7 := 1]"

definition build_answer :: "u8 list \<Rightarrow> string \<Rightarrow> u8 list" where
  "build_answer query ip =
     (if length query < 12 then query
      else answer_header query @ [0xC0, 0x0C, 0, 1, 0, 1, 0, 0, 0, 0, 0, 4]
        @ (case parse_ipv4 ip of Some a \<Rightarrow> octets 4 (unat a) | None \<Rightarrow> [0, 0, 0, 0]))"

definition build_aaaa_answer :: "u8 list \<Rightarrow> string \<Rightarrow> u8 list" where
  "build_aaaa_answer query ip =
     (if length query < 12 then query
      else answer_header query @ [0xC0, 0x0C, 0, 28, 0, 1, 0, 0, 0, 0, 0, 16]
        @ (case parse_ipv6 ip of Some a \<Rightarrow> octets 16 (unat a) | None \<Rightarrow> replicate 16 0))"

text \<open>The reply to one query; \<open>forward\<close> is what the first answering upstream server sends, if any.\<close>

definition serve_query ::
  "registry \<Rightarrow> registry \<Rightarrow> (string, string list) assoc \<Rightarrow> u32 list \<Rightarrow> (u8 list \<Rightarrow> u8 list option)
    \<Rightarrow> string \<Rightarrow> u8 list \<Rightarrow> u8 list" where
  "serve_query records records_v6 by_ip upstream forward peer query =
     (case extract_query_name_type query of (name, qtype) \<Rightarrow>
      (case decide qtype (dns_lookup by_ip peer name records) (dns_lookup by_ip peer name records_v6) of
         DA ip \<Rightarrow> build_answer query ip
       | DAaaa ip \<Rightarrow> build_aaaa_answer query ip
       | DNodata \<Rightarrow> build_error query 0
       | DForward \<Rightarrow>
           if upstream = [] then build_error query 2
           else (case forward query of Some r \<Rightarrow> r | None \<Rightarrow> build_error query 2)))"

text \<open>The upstream servers of the host and their cache by modification time.\<close>

definition parse_nameservers :: "string \<Rightarrow> u32 list" where
  "parse_nameservers text = List.map_filter
     (\<lambda>l. case split_whitespace l of _ # s # _ \<Rightarrow> parse_ipv4 s | _ \<Rightarrow> None) (lines text)"

definition host_nameservers ::
  "nat \<Rightarrow> string option \<Rightarrow> nat \<times> u32 list \<Rightarrow> u32 list \<times> (nat \<times> u32 list)" where
  "host_nameservers mtime conf cache =
     (if fst cache = mtime \<and> mtime \<noteq> 0 then (snd cache, cache)
      else (let v = parse_nameservers (case conf of None \<Rightarrow> [] | Some t \<Rightarrow> t) in (v, (mtime, v))))"

section \<open>A reference encoder and decoder\<close>

definition byte_of :: "char \<Rightarrow> u8" where
  "byte_of c = word_of_nat (of_char c)"

definition ascii :: "string \<Rightarrow> bool" where
  "ascii s = list_all (\<lambda>c. (of_char c :: nat) < 128) s"

definition label_ok :: "string \<Rightarrow> bool" where
  "label_ok l \<longleftrightarrow> l \<noteq> [] \<and> length l \<le> 63 \<and> ascii l"

fun encode_name :: "string list \<Rightarrow> u8 list" where
  "encode_name [] = [0]"
| "encode_name (l # ls) = word_of_nat (length l) # map byte_of l @ encode_name ls"

text \<open>A query with one question of class IN: header, name, type, class, and what follows.\<close>

definition encode_query :: "u8 list \<Rightarrow> string list \<Rightarrow> nat \<Rightarrow> u8 list \<Rightarrow> u8 list" where
  "encode_query hdr ls qtype extra =
     hdr @ encode_name ls @ [word_of_nat (qtype div 256), word_of_nat qtype, 0, 1] @ extra"

text \<open>What a resolver reads from a reply: the identifier, whether it is a response, the code, the
  number of answers and, after the question, the first record as type and data.\<close>

fun skip_name :: "u8 list \<Rightarrow> u8 list" where
  "skip_name [] = []"
| "skip_name (len # rest) = (if len = 0 then rest else skip_name (drop (unat len) rest))"

definition read_record :: "u8 list \<Rightarrow> (nat \<times> u8 list) option" where
  "read_record bs = (case bs of
     p0 # p1 # t1 # t0 # c1 # c0 # l3 # l2 # l1 # l0 # n1 # n0 # rest \<Rightarrow>
       let len = unat n1 * 256 + unat n0 in
       if p0 = 0xC0 \<and> p1 = 0x0C \<and> len \<le> length rest
       then Some (unat t1 * 256 + unat t0, take len rest) else None
   | _ \<Rightarrow> None)"

definition first_answer :: "u8 list \<Rightarrow> (nat \<times> u8 list) option" where
  "first_answer reply = read_record (drop 4 (skip_name (drop 12 reply)))"

section \<open>Reading questions\<close>

lemma lossy_ascii: "list_all (\<lambda>b. b < 128) bs \<Longrightarrow> from_utf8_lossy bs = bs"
  by (induction bs) simp_all

lemma unat_byte_of: "unat (byte_of c) = of_char c"
proof -
  have "(of_char c :: nat) < 256" by (metis nat_of_char_less_256)
  then show ?thesis by (simp add: byte_of_def unsigned_of_nat take_bit_eq_mod)
qed

lemma label_text_ascii: "ascii l \<Longrightarrow> label_text (map byte_of l) = l"
  by (simp add: label_text_def lossy_ascii ascii_def list_all_iff unat_byte_of comp_def)

lemma label_length_byte:
  assumes "n \<le> 63" "0 < n"
  shows "unat (word_of_nat n :: u8) = n" "(word_of_nat n :: u8) \<noteq> 0" "(word_of_nat n :: u8) AND 0xC0 = 0"
proof -
  show u: "unat (word_of_nat n :: u8) = n"
    using assms by (simp add: unsigned_of_nat take_bit_eq_mod)
  show "(word_of_nat n :: u8) \<noteq> 0" using u assms(2) by auto
  have "(0xC0 :: u8) = NOT (mask 6)" by (simp add: mask_eq_exp_minus_1)
  moreover have "unat ((word_of_nat n :: u8) AND NOT (mask 6)) = 0"
    using u assms(1) by (simp add: unat_and_not_mask)
  ultimately show "(word_of_nat n :: u8) AND 0xC0 = 0" by (simp add: unat_eq_zero)
qed

lemma read_labels_encode: "list_all label_ok ls \<Longrightarrow> read_labels (encode_name ls @ rest) = Some (ls, rest)"
  by (induction ls) (auto simp: label_ok_def label_length_byte label_text_ascii)

lemma skip_name_encode: "list_all label_ok ls \<Longrightarrow> skip_name (encode_name ls @ rest) = rest"
  by (induction ls) (auto simp: label_ok_def label_length_byte)

lemma type_bytes:
  assumes "q < 65536"
  shows "unat (word_of_nat (q div 256) :: u8) * 256 + unat (word_of_nat q :: u8) = q"
  using assms by (simp add: unsigned_of_nat take_bit_eq_mod)

text \<open>A resolver's query for a name of one or more labels is read back: the name in lower case and
  the type, whatever records follow the question.\<close>

theorem query_roundtrip:
  assumes "length hdr = 12" "ls \<noteq> []" "list_all label_ok ls" "qtype < 65536"
  shows "extract_query_name_type (encode_query hdr ls qtype extra) =
    (Some (ascii_lower (join_with ''.'' ls)), qtype)"
  using assms type_bytes [OF assms(4)]
  by (simp add: extract_query_name_type_def encode_query_def read_labels_encode)

section \<open>Replies\<close>

lemma length_answer_header [simp]: "length (answer_header q) = length q"
  by (simp add: answer_header_def)

lemma drop_answer_header: "drop 12 (answer_header q) = drop 12 q"
  by (simp add: answer_header_def)

lemma first_answer_build:
  assumes "length hdr = 12" "list_all label_ok ls" "rd = octets k n" "k < 256"
  shows "first_answer (answer_header (encode_query hdr ls qtype [])
      @ [0xC0, 0x0C, 0, t, 0, 1, 0, 0, 0, 0, 0, word_of_nat k] @ rd) = Some (unat t, rd)"
proof -
  let ?q = "encode_query hdr ls qtype []"
  have l: "12 \<le> length ?q" using assms(1) by (simp add: encode_query_def)
  have "drop 12 ?q = encode_name ls @ [word_of_nat (qtype div 256), word_of_nat qtype, 0, 1]"
    using assms(1) by (simp add: encode_query_def)
  moreover have "length rd = k" using assms(3) by (simp add: octets_def)
  moreover have "unat (word_of_nat k :: u8) = k"
    using assms(4) by (simp add: unsigned_of_nat take_bit_eq_mod)
  ultimately show ?thesis
    using l assms(2) by (simp add: first_answer_def drop_answer_header skip_name_encode read_record_def Let_def)
qed

definition plain_query :: "u8 list \<Rightarrow> string list \<Rightarrow> nat \<Rightarrow> u8 list" where
  "plain_query hdr ls qtype = encode_query hdr ls qtype []"

lemma build_answer_decodes:
  assumes "length hdr = 12" "list_all label_ok ls"
  shows "first_answer (build_answer (plain_query hdr ls qtype) (show_ipv4 a)) = Some (1, octets 4 (unat a))"
    and "first_answer (build_aaaa_answer (plain_query hdr ls qtype) (show_ipv6 b)) = Some (28, octets 16 (unat b))"
proof -
  have "12 \<le> length (plain_query hdr ls qtype)"
    using assms(1) by (simp add: plain_query_def encode_query_def)
  then show "first_answer (build_answer (plain_query hdr ls qtype) (show_ipv4 a)) = Some (1, octets 4 (unat a))"
    "first_answer (build_aaaa_answer (plain_query hdr ls qtype) (show_ipv6 b)) = Some (28, octets 16 (unat b))"
    using first_answer_build [OF assms refl, of 4 qtype 1 "unat a"] first_answer_build [OF assms refl, of 16 qtype 28 "unat b"]
    by (simp_all add: build_answer_def build_aaaa_answer_def plain_query_def parse_show_ipv6)
qed

lemma octets_inj:
  assumes "octets 4 (unat (a :: u32)) = octets 4 (unat b)"
  shows "a = b"
proof -
  have "unat (word_of_nat (n div 256 ^ i) :: u8) = n div 256 ^ i mod 256" for n i
    by (simp add: unsigned_of_nat take_bit_eq_mod)
  then have d: "n div 256 ^ i mod 256 = m div 256 ^ i mod 256"
    if "octets 4 n = octets 4 m" "i < 4" for n m i
    using that by (metis (mono_tags, lifting) octets_def map_eq_conv atLeastLessThan_iff set_rev set_upt zero_le)
  have "unat x div 16777216 mod 256 = unat x div 16777216" for x :: u32
  proof -
    have "unat x < 4294967296" using unsigned_less [of x] by simp
    then have "unat x div 16777216 < 256" by (intro less_mult_imp_div_less) simp
    then show ?thesis by simp
  qed
  then have "unat a = unat b"
    using d [OF assms, of 0] d [OF assms, of 1] d [OF assms, of 2] d [OF assms, of 3]
      base256 [of "unat a"] base256 [of "unat b"]
    by simp
  then show ?thesis by (simp only: word_unat_eq_iff)
qed

section \<open>Choosing the reply\<close>

text \<open>A name of the network is never forwarded and never answered with the other family's
  address: an address query gets the address, an IPv6 query the IPv6 address or an empty answer.\<close>

theorem own_names_stay_local:
  assumes "dns_lookup by_ip peer (fst (extract_query_name_type q)) records = Some ip"
  shows "serve_query records records6 by_ip up fwd peer q =
    (if snd (extract_query_name_type q) = 28
     then (case dns_lookup by_ip peer (fst (extract_query_name_type q)) records6 of
             Some ip6 \<Rightarrow> build_aaaa_answer q ip6 | None \<Rightarrow> build_error q 0)
     else build_answer q ip)"
  using assms by (cases "extract_query_name_type q")
    (auto simp: serve_query_def decide_def split: option.splits)

lemma resolve_search_Some:
  "resolve_search records ds name = Some ip \<Longrightarrow>
   \<exists>d \<in> set ds. assoc_get records (name @ ''.'' @ ascii_lower d) = Some ip"
  by (induction ds) (auto simp: resolve_search_def split: option.splits)

text \<open>The querier's own address and search list decide only how a name is completed; every
  answer comes from the registry of the network that serves the query.\<close>

lemma dns_lookup_from_registry:
  "dns_lookup by_ip peer name records = Some ip \<Longrightarrow> \<exists>k. assoc_get records k = Some ip"
  by (auto simp: dns_lookup_def split: option.splits dest: resolve_search_Some)

section \<open>Attached containers are reachable by name\<close>

definition host_name_ok :: "string \<Rightarrow> bool" where
  "host_name_ok name \<longleftrightarrow> list_all label_ok (split_on (CHR ''.'') name)"



section \<open>Where the replies fall short\<close>

theorem query_roundtrip_witness:
  "extract_query_name_type (encode_query (replicate 12 0) [''DB'', ''svc''] 28 [0]) = (Some ''db.svc'', 28)"
proof -
  have "list_all label_ok [''DB'', ''svc'']" "ascii_lower (join_with ''.'' [''DB'', ''svc'']) = ''db.svc''"
    by code_simp+
  then show ?thesis
    using query_roundtrip [of "replicate 12 0" "[''DB'', ''svc'']" 28 "[0]"] by simp
qed

text \<open>The reply is the query with the answer appended at its very end. For a query that carries an
  EDNS record, as most resolvers send, the first record after the question is that one and not the
  answer, although the header announces one answer.\<close>

definition edns_record :: "u8 list" where
  "edns_record = [0, 0, 41, 16, 0, 0, 0, 0, 0, 0, 0]"

theorem edns_answer_misplaced:
  "first_answer (build_answer (encode_query [0, 1, 1, 0, 0, 1, 0, 0, 0, 0, 0, 1] [''db''] 1 edns_record) ''10.0.0.5'') = None
   \<and> first_answer (build_answer (encode_query [0, 1, 1, 0, 0, 1, 0, 0, 0, 0, 0, 0] [''db''] 1 []) ''10.0.0.5'')
     = Some (1, [10, 0, 0, 5])"
  by code_simp

text \<open>A name known only in the IPv6 registry is forwarded when an IPv4 address is asked for.\<close>

theorem v6_only_name_forwarded: "decide 1 None (Some ip6) = DForward"
  by (simp add: decide_def)

text \<open>Any line of the host's \<open>resolv.conf\<close> whose second word is an address counts as a nameserver,
  comments included.\<close>

theorem commented_nameserver_used:
  "parse_nameservers (''# 10.9.9.9 old'' @ [CHR 0x0A] @ ''nameserver 1.1.1.1'') = [168364297, 16843009]"
  by code_simp

end
