(* ===== verification/Cgroup.thy ===== *)
theory Cgroup
  imports Api_Types
begin

text \<open>
  The control-group limits of \<open>crates/runtime/src/cgroup.rs\<close>. A control group is the map from the
  names of its interface files to their contents; which writes the kernel accepts is a parameter.
  The conversions from the API's units to the kernel's are the arithmetic of the source; the
  integers are \<open>i64\<close> values for which no step overflows.
\<close>

record cgroup_limits =
  memory_bytes :: int
  memory_swap_bytes :: int
  nano_cpus :: int
  cpu_quota :: int
  cpu_period :: int
  cpu_shares :: int
  pids_limit :: int
  cpuset_cpus :: string

type_synonym cgroup = "string \<rightharpoonup> string"

definition cpu_max_value :: "int \<Rightarrow> int \<Rightarrow> int \<Rightarrow> string option" where
  "cpu_max_value nano quota period =
     (if 0 < nano then
        (let q = nano div 100000 in
         Some (if 100000000 \<le> q then ''max 100000'' else show_int q @ '' 100000''))
      else if 0 < quota then
        (let p = (if 0 < period then period else 100000) in
         Some (show_int quota @ '' '' @ show_int p))
      else None)"

definition swap_max_value :: "int \<Rightarrow> int \<Rightarrow> string" where
  "swap_max_value mem swap =
     (if swap = -1 then ''max'' else if 0 < swap then show_int swap else show_int mem)"

definition shares_to_weight :: "int \<Rightarrow> int" where
  "shares_to_weight shares =
     (if shares \<le> 0 then 100
      else let clamped = min 262144 (max 2 shares) in 1 + ((clamped - 2) * 9999) div 262142)"

definition cg_write :: "(string \<Rightarrow> bool) \<Rightarrow> string \<Rightarrow> string \<Rightarrow> cgroup \<Rightarrow> cgroup \<times> bool" where
  "cg_write accepts f v cg = (if accepts f then (cg(f \<mapsto> v), True) else (cg, False))"

fun cg_writes :: "(string \<Rightarrow> bool) \<Rightarrow> (string \<times> string) list \<Rightarrow> cgroup \<Rightarrow> cgroup \<times> bool" where
  "cg_writes accepts [] cg = (cg, True)"
| "cg_writes accepts ((f, v) # ws) cg =
     (case cg_write accepts f v cg of (cg', ok) \<Rightarrow> if ok then cg_writes accepts ws cg' else (cg', False))"

text \<open>The writes of \<open>Cgroup::apply\<close>, in the order of the code; the first one that fails ends it.\<close>

definition limit_writes :: "cgroup_limits \<Rightarrow> (string \<times> string) list" where
  "limit_writes lim =
     (if 0 < memory_bytes lim then
        [(''memory.max'', show_int (memory_bytes lim)),
         (''memory.swap.max'', swap_max_value (memory_bytes lim) (memory_swap_bytes lim))]
      else if 0 < memory_swap_bytes lim then
        [(''memory.swap.max'', show_int (memory_swap_bytes lim))]
      else []) @
     (case cpu_max_value (nano_cpus lim) (cpu_quota lim) (cpu_period lim) of
        Some v \<Rightarrow> [(''cpu.max'', v)]
      | None \<Rightarrow> if 0 < cpu_shares lim
                then [(''cpu.weight'', show_int (shares_to_weight (cpu_shares lim)))] else []) @
     (if 0 < pids_limit lim then [(''pids.max'', show_int (pids_limit lim))] else []) @
     (if cpuset_cpus lim \<noteq> [] then [(''cpuset.cpus'', cpuset_cpus lim)] else [])"

definition cg_apply :: "(string \<Rightarrow> bool) \<Rightarrow> cgroup_limits \<Rightarrow> cgroup \<Rightarrow> cgroup \<times> bool" where
  "cg_apply accepts lim cg = cg_writes accepts (limit_writes lim) cg"

definition limits_of :: "host_config \<Rightarrow> cgroup_limits" where
  "limits_of hc = \<lparr>memory_bytes = Memory hc, memory_swap_bytes = MemorySwap hc,
     nano_cpus = NanoCpus hc, cpu_quota = CpuQuota hc, cpu_period = CpuPeriod hc,
     cpu_shares = CpuShares hc, pids_limit = PidsLimit hc, cpuset_cpus = CpusetCpus hc\<rparr>"

definition add_pid :: "(string \<Rightarrow> bool) \<Rightarrow> int \<Rightarrow> cgroup \<Rightarrow> cgroup \<times> bool" where
  "add_pid accepts p = cg_write accepts ''cgroup.procs'' (show_int p)"

definition freeze :: "(string \<Rightarrow> bool) \<Rightarrow> bool \<Rightarrow> cgroup \<Rightarrow> cgroup \<times> bool" where
  "freeze accepts on = cg_write accepts ''cgroup.freeze'' (if on then ''1'' else ''0'')"

definition kill_all :: "(string \<Rightarrow> bool) \<Rightarrow> cgroup \<Rightarrow> cgroup \<times> bool" where
  "kill_all accepts = cg_write accepts ''cgroup.kill'' ''1''"

text \<open>The readers. A file that cannot be read counts as empty, as does a missing line.\<close>

definition read_lines :: "cgroup \<Rightarrow> string \<Rightarrow> string list" where
  "read_lines cg f = (case cg f of None \<Rightarrow> [] | Some s \<Rightarrow> lines s)"

definition current_pids :: "cgroup \<Rightarrow> int list" where
  "current_pids cg = List.map_filter parse_i64 (read_lines cg ''cgroup.procs'')"

definition parse_first_u64 :: "cgroup \<Rightarrow> string \<Rightarrow> nat" where
  "parse_first_u64 cg f = (case read_lines cg f of [] \<Rightarrow> 0
     | l # _ \<Rightarrow> (case parse_u64 (trim l) of None \<Rightarrow> 0 | Some n \<Rightarrow> n))"

fun parse_oom_kills :: "string list \<Rightarrow> nat option" where
  "parse_oom_kills [] = None"
| "parse_oom_kills (l # ls) =
     (case strip_prefix ''oom_kill '' l of
        None \<Rightarrow> parse_oom_kills ls
      | Some v \<Rightarrow> (case parse_u64 (trim v) of None \<Rightarrow> parse_oom_kills ls | Some n \<Rightarrow> Some n))"

definition oom_kills :: "cgroup \<Rightarrow> nat" where
  "oom_kills cg = (case parse_oom_kills (read_lines cg ''memory.events'') of None \<Rightarrow> 0 | Some n \<Rightarrow> n)"

definition cpu_usage :: "cgroup \<Rightarrow> nat" where
  "cpu_usage cg = fold (\<lambda>l usage. case strip_prefix ''usage_usec '' l of None \<Rightarrow> usage
     | Some v \<Rightarrow> (case parse_u64 (trim v) of None \<Rightarrow> 0 | Some n \<Rightarrow> n)) (read_lines cg ''cpu.stat'') 0"

section \<open>Correctness\<close>

lemma cg_writes_ok:
  "list_all (\<lambda>w. accepts (fst w)) ws \<Longrightarrow> cg_writes accepts ws cg = (cg ++ map_of (rev ws), True)"
  by (induction ws arbitrary: cg) (auto simp: cg_write_def map_add_def fun_eq_iff split: option.splits)

lemma cg_writes_fails:
  "snd (cg_writes accepts ws cg) \<longleftrightarrow> list_all (\<lambda>w. accepts (fst w)) ws"
  by (induction ws arbitrary: cg) (auto simp: cg_write_def split: if_splits)

lemma limit_writes_distinct: "distinct (map fst (limit_writes lim))"
  by (simp add: limit_writes_def split: option.split)

lemma cg_apply_lookup:
  assumes "snd (cg_apply accepts lim cg)"
  shows "fst (cg_apply accepts lim cg) f =
           (case map_of (limit_writes lim) f of None \<Rightarrow> cg f | Some v \<Rightarrow> Some v)"
proof -
  have "list_all (\<lambda>w. accepts (fst w)) (limit_writes lim)"
    using assms by (simp add: cg_apply_def cg_writes_fails)
  moreover have "map_of (rev (limit_writes lim)) = map_of (limit_writes lim)"
    using limit_writes_distinct[of lim] by (simp add: map_of_inject_set rev_map[symmetric])
  ultimately show ?thesis
    by (simp add: cg_apply_def cg_writes_ok map_add_def)
qed

text \<open>When every write succeeds, the control group holds exactly the limits that were
  asked for: the memory limit if positive, the CPU weight only if no CPU bandwidth was asked
  for, the process limit if positive and the CPU set if given; a file without a request keeps
  its value.\<close>

theorem apply_sets_requested_limits:
  assumes "snd (cg_apply accepts lim cg)"
  shows "let cg' = fst (cg_apply accepts lim cg) in
     cg' ''memory.max'' = (if 0 < memory_bytes lim then Some (show_int (memory_bytes lim)) else cg ''memory.max'') \<and>
     cg' ''pids.max'' = (if 0 < pids_limit lim then Some (show_int (pids_limit lim)) else cg ''pids.max'') \<and>
     cg' ''cpuset.cpus'' = (if cpuset_cpus lim \<noteq> [] then Some (cpuset_cpus lim) else cg ''cpuset.cpus'') \<and>
     cg' ''cpu.weight'' = (if nano_cpus lim \<le> 0 \<and> cpu_quota lim \<le> 0 \<and> 0 < cpu_shares lim
        then Some (show_int (shares_to_weight (cpu_shares lim))) else cg ''cpu.weight'')"
  unfolding Let_def cg_apply_lookup[OF assms]
  by (intro conjI; simp add: limit_writes_def cpu_max_value_def Let_def)

theorem apply_sets_requested_limits_witness:
  "fst (cg_apply (\<lambda>_. True) (limits_of (default_host_config\<lparr>Memory := 1024, CpuShares := 1024\<rparr>)) Map.empty)
     ''memory.max'' = Some ''1024''"
proof -
  let ?lim = "limits_of (default_host_config\<lparr>Memory := 1024, CpuShares := 1024\<rparr>)"
  have "snd (cg_apply (\<lambda>_. True) ?lim Map.empty)" "memory_bytes ?lim = 1024"
    by (simp_all add: cg_apply_def cg_writes_fails list_all_iff limits_of_def)
  moreover have "show_int 1024 = ''1024''" by code_simp
  ultimately show ?thesis
    using apply_sets_requested_limits[of "\<lambda>_. True" ?lim Map.empty] by (simp add: Let_def)
qed

text \<open>The CPU weight stays within the kernel's range 1 to 10000 and grows with the shares.\<close>

theorem shares_to_weight_range:
  "1 \<le> shares_to_weight s \<and> shares_to_weight s \<le> 10000 \<and>
   (0 < s \<longrightarrow> s \<le> t \<longrightarrow> shares_to_weight s \<le> shares_to_weight t)"
proof (intro conjI impI)
  show "1 \<le> shares_to_weight s" by (auto simp: shares_to_weight_def Let_def)
  have "((min 262144 (max 2 s) - 2) * 9999) div 262142 \<le> (262142 * 9999) div (262142::int)"
    by (intro zdiv_mono1) auto
  then show "shares_to_weight s \<le> 10000"
    by (simp add: shares_to_weight_def Let_def)
next
  assume "0 < s" "s \<le> t"
  then have "((min 262144 (max 2 s) - 2) * 9999) div 262142 \<le> ((min 262144 (max 2 t) - 2) * 9999) div (262142::int)"
    by (intro zdiv_mono1) auto
  then show "shares_to_weight s \<le> shares_to_weight t"
    using \<open>0 < s\<close> \<open>s \<le> t\<close> by (simp add: shares_to_weight_def Let_def)
qed

theorem shares_to_weight_range_witness: "shares_to_weight 2 \<le> shares_to_weight 1024"
  using shares_to_weight_range[of 2 1024] by simp

text \<open>A container that asks for \<open>n\<close> thousand-millionths of a CPU (\<open>--cpus\<close>) gets at most a
  tenth of it: the quota written for the period of 100000 microseconds is \<open>n / 100000\<close>, where
  \<open>n / 10000\<close> microseconds would grant the request. One whole CPU becomes a tenth of a CPU.\<close>

theorem nano_cpus_tenfold_throttle:
  assumes "0 < n" and "n < 10000000000000"
  shows "\<exists>q. cpu_max_value n quota period = Some (show_int q @ '' 100000'') \<and>
             10 * (q * 1000000000) \<le> n * 100000 \<and> q = n div 100000"
proof -
  have "n div 100000 < 100000000" using assms by simp
  moreover have "n div 100000 * 100000 \<le> n" by simp
  ultimately show ?thesis
    using assms by (intro exI[of _ "n div 100000"]) (simp add: cpu_max_value_def Let_def)
qed

theorem nano_cpus_tenfold_throttle_witness:
  "cpu_max_value 1000000000 0 0 = Some ''10000 100000''"
proof -
  obtain q where "cpu_max_value 1000000000 0 0 = Some (show_int q @ '' 100000'')"
    and "q = (1000000000::int) div 100000"
    using nano_cpus_tenfold_throttle[of 1000000000 0 0] by auto
  moreover have "show_int 10000 = ''10000''" by code_simp
  ultimately show ?thesis by simp
qed

text \<open>With a memory limit and a positive swap allowance, the kernel's swap limit is set
  to the whole allowance, although the allowance is the total of memory and swap: memory and
  swap together may exceed it by the memory limit.\<close>

theorem swap_allowance_not_total:
  assumes "0 < memory_bytes lim" and "memory_bytes lim \<le> memory_swap_bytes lim"
    and "snd (cg_apply accepts lim cg)"
  shows "fst (cg_apply accepts lim cg) ''memory.max'' = Some (show_int (memory_bytes lim)) \<and>
         fst (cg_apply accepts lim cg) ''memory.swap.max'' = Some (show_int (memory_swap_bytes lim)) \<and>
         memory_swap_bytes lim < memory_bytes lim + memory_swap_bytes lim"
  unfolding cg_apply_lookup[OF assms(3)] using assms(1,2)
  by (auto simp: limit_writes_def swap_max_value_def)

theorem swap_allowance_not_total_witness:
  "fst (cg_apply (\<lambda>_. True) (limits_of (default_host_config\<lparr>Memory := 100, MemorySwap := 100\<rparr>)) Map.empty)
     ''memory.swap.max'' = Some ''100''"
proof -
  let ?lim = "limits_of (default_host_config\<lparr>Memory := 100, MemorySwap := 100\<rparr>)"
  have "snd (cg_apply (\<lambda>_. True) ?lim Map.empty)" "memory_bytes ?lim = 100" "memory_swap_bytes ?lim = 100"
    by (simp_all add: cg_apply_def cg_writes_fails list_all_iff limits_of_def)
  moreover have "show_int 100 = ''100''" by code_simp
  ultimately show ?thesis
    using swap_allowance_not_total[of ?lim "\<lambda>_. True" Map.empty] by simp
qed

end
