(* ===== verification/Container_Create.thy ===== *)
theory Container_Create
  imports Container_Files
begin

text \<open>
  Creation of a container in \<open>crates/runtime/src/manager.rs\<close>: the resolution of binds, mounts and
  volumes, the merge of the image's configuration into the request, the endpoints seeded from
  the networking configuration, and the record that is persisted. Identifiers come from a supply
  (\<open>new_id\<close> is random), directory creation may fail, and the images are a lookup function.
\<close>

section \<open>Mounts\<close>

record mount_env =
  volumes_dir :: string
  mkdir_ok :: "string \<Rightarrow> bool"

record mount_acc =
  out :: "mount_record list"
  anon_vols :: "string list"
  made_dirs :: "string list"
  ids :: "string list"

text \<open>\<open>Path::join\<close>: an absolute argument replaces the base.\<close>

definition path_join :: "string \<Rightarrow> string \<Rightarrow> string" where
  "path_join base p = (if starts_with ''/'' p then p else base @ ''/'' @ p)"

definition volume_record :: "mount_env \<Rightarrow> string \<Rightarrow> string \<Rightarrow> bool \<Rightarrow> bool \<Rightarrow> mount_record" where
  "volume_record env name dest ro anon = \<lparr>m_typ = ''volume'', m_name = name,
     m_source = path_join (volumes_dir env) name, m_destination = dest, m_read_only = ro, m_is_anonymous = anon\<rparr>"

text \<open>Create the directory of a volume and add its record; a failure ends the resolution with what
  was done so far.\<close>

definition add_volume ::
  "mount_env \<Rightarrow> string \<Rightarrow> string \<Rightarrow> bool \<Rightarrow> bool \<Rightarrow> mount_acc \<Rightarrow> (mount_acc, mount_acc) result" where
  "add_volume env name dest ro anon acc =
     (let dir = path_join (volumes_dir env) name in
      if \<not> mkdir_ok env dir then Err acc
      else Ok (acc\<lparr>made_dirs := made_dirs acc @ [dir],
                   anon_vols := anon_vols acc @ (if anon then [name] else []),
                   out := out acc @ [volume_record env name dest ro anon]\<rparr>))"

definition add_anonymous ::
  "mount_env \<Rightarrow> string \<Rightarrow> bool \<Rightarrow> mount_acc \<Rightarrow> (mount_acc, mount_acc) result" where
  "add_anonymous env dest ro acc =
     add_volume env (take 32 (hd (ids acc))) dest ro True (acc\<lparr>ids := tl (ids acc)\<rparr>)"

definition resolve_bind :: "mount_env \<Rightarrow> string \<Rightarrow> mount_acc \<Rightarrow> (mount_acc, mount_acc) result" where
  "resolve_bind env bind acc =
     (let (spec, ro) = (case strip_suffix '':ro'' bind of Some s \<Rightarrow> (s, True) | None \<Rightarrow> (bind, False)) in
      case split_once CHR '':'' spec of
        Some (source, dest) \<Rightarrow>
          if starts_with ''/'' source \<or> starts_with ''.'' source then
            Ok (acc\<lparr>out := out acc @ [\<lparr>m_typ = ''bind'', m_name = [], m_source = source,
                  m_destination = dest, m_read_only = ro, m_is_anonymous = False\<rparr>]\<rparr>)
          else add_volume env source dest ro False acc
      | None \<Rightarrow> add_anonymous env spec ro acc)"

definition resolve_mount :: "mount_env \<Rightarrow> mount_request \<Rightarrow> mount_acc \<Rightarrow> (mount_acc, mount_acc) result" where
  "resolve_mount env m acc =
     (if mount_type m = ''volume'' then
        (if mr_Source m = [] then add_anonymous env (mr_Target m) (mr_read_only m) acc
         else add_volume env (mr_Source m) (mr_Target m) (mr_read_only m) False acc)
      else Ok (acc\<lparr>out := out acc @ [\<lparr>m_typ = mount_type m, m_name = [], m_source = mr_Source m,
             m_destination = mr_Target m, m_read_only = mr_read_only m, m_is_anonymous = False\<rparr>]\<rparr>))"

definition resolve_volume_dest :: "mount_env \<Rightarrow> string \<Rightarrow> mount_acc \<Rightarrow> (mount_acc, mount_acc) result" where
  "resolve_volume_dest env dest acc =
     (if dest \<in> set (map m_destination (out acc)) then Ok acc else add_anonymous env dest False acc)"

fun for_all :: "('a \<Rightarrow> 's \<Rightarrow> ('s, 's) result) \<Rightarrow> 'a list \<Rightarrow> 's \<Rightarrow> ('s, 's) result" where
  "for_all body [] acc = Ok acc"
| "for_all body (x # xs) acc = and_then (body x acc) (for_all body xs)"

definition volume_keys :: "(string, json) assoc option \<Rightarrow> string list" where
  "volume_keys v = (case v of None \<Rightarrow> [] | Some m \<Rightarrow> assoc_keys m)"

definition resolve_mounts ::
  "mount_env \<Rightarrow> host_config \<Rightarrow> container_config \<Rightarrow> (string, json) assoc option \<Rightarrow> string list
     \<Rightarrow> (mount_acc, mount_acc) result" where
  "resolve_mounts env hc image_config body_volumes supply =
     (let acc = \<lparr>out = [], anon_vols = [], made_dirs = [], ids = supply\<rparr> in
      and_then (for_all (resolve_bind env) (Binds hc) acc) (\<lambda>acc.
      and_then (for_all (resolve_mount env) (Mounts hc) acc) (\<lambda>acc.
      and_then (for_all (resolve_volume_dest env) (volume_keys (c_Volumes image_config)) acc)
        (for_all (resolve_volume_dest env) (volume_keys body_volumes)))))"

section \<open>The configuration\<close>

record image =
  im_id :: string
  im_config :: container_config
  im_diff_ids :: "string list"

text \<open>\<open>entry(k).or_insert(v)\<close> for every pair of a second map.\<close>

definition or_insert_all :: "('k, 'v) assoc \<Rightarrow> ('k, 'v) assoc \<Rightarrow> ('k, 'v) assoc" where
  "or_insert_all into from = fold (\<lambda>(k, v) m. if has_key m k then m else assoc_put m k v) from into"

definition inherit_image_config :: "container_config \<Rightarrow> container_config \<Rightarrow> container_config" where
  "inherit_image_config config image_config =
     (let c1 = (if c_StopSignal config = [] then config\<lparr>c_StopSignal := c_StopSignal image_config\<rparr> else config) in
      if c_Healthcheck c1 = None then c1\<lparr>c_Healthcheck := c_Healthcheck image_config\<rparr> else c1)"

definition merge_body :: "image \<Rightarrow> container_create_body \<Rightarrow> container_create_body" where
  "merge_body im body =
     (let ic = im_config im in
      body\<lparr>b_Image := ''sha256:'' @ im_id im,
           b_Cmd := [],
           b_Env := c_Env ic @ b_Env body,
           b_ExposedPorts := (case c_ExposedPorts ic of
              None \<Rightarrow> b_ExposedPorts body
            | Some image_exposed \<Rightarrow>
                Some (or_insert_all (case b_ExposedPorts body of None \<Rightarrow> [] | Some e \<Rightarrow> e) image_exposed)),
           b_WorkingDir := (if b_WorkingDir body = [] then c_WorkingDir ic else b_WorkingDir body),
           b_User := (if b_User body = [] then c_User ic else b_User body),
           b_Labels := or_insert_all (b_Labels body) (c_Labels ic)\<rparr>)"

definition create_config :: "string \<Rightarrow> image \<Rightarrow> container_create_body \<Rightarrow> container_config" where
  "create_config cid im body =
     (let merged = merge_body im body;
          user_cmd = (if b_Cmd body = [] then None else Some (b_Cmd body));
          hostname = (if b_Hostname merged = [] then take 12 cid else b_Hostname merged) in
      inherit_image_config
        ((into_container_config merged)\<lparr>
           c_Hostname := hostname,
           c_Image := ''sha256:'' @ im_id im,
           c_Entrypoint := b_Entrypoint body,
           c_Cmd := (case user_cmd of None \<Rightarrow> c_Cmd (im_config im) | Some c \<Rightarrow> c),
           c_Env := b_Env merged\<rparr>) (im_config im))"

definition cmd_display :: "container_config \<Rightarrow> string" where
  "cmd_display config =
     (let ep = (case c_Entrypoint config of None \<Rightarrow> [] | Some e \<Rightarrow> e);
          args = (if ep = [] then c_Cmd config else ep @ c_Cmd config) in
      [CHR 0x22] @ join_with '' '' args @ [CHR 0x22])"

section \<open>Endpoints\<close>

definition seed_endpoint :: "string \<Rightarrow> nat \<times> string \<times> endpoint_settings \<Rightarrow> endpoint_record" where
  "seed_endpoint name = (\<lambda>(i, net, settings).
     \<lparr>ep_network_id = [], ep_network_name = net, ep_ip = [], ep_gateway = [], ep_mac = [],
      ep_aliases = (if i = 0 \<and> es_Aliases settings = [] then [name] else es_Aliases settings),
      ep_requested_ip = (case es_IPAMConfig settings of None \<Rightarrow> None
        | Some c \<Rightarrow> if IPv4Address c = [] then None else Some (IPv4Address c))\<rparr>)"

definition ordered_endpoints ::
  "string \<Rightarrow> (string, endpoint_settings) assoc \<Rightarrow> (string \<times> endpoint_settings) list" where
  "ordered_endpoints mode eps =
     (let rest = sort_by (\<lambda>a b. str_le (fst a) (fst b)) (filter (\<lambda>p. fst p \<noteq> mode) eps);
          primary = (case assoc_get eps mode of
             Some settings \<Rightarrow> [(mode, settings)]
           | None \<Rightarrow> if mode \<noteq> [] \<and> mode \<noteq> ''none'' \<and> mode \<noteq> ''host''
                     then [(mode, default_endpoint_settings)] else []) in
      primary @ rest)"

definition seed_endpoints :: "string \<Rightarrow> container_create_body \<Rightarrow> endpoint_record list" where
  "seed_endpoints name body =
     (case b_NetworkingConfig body of
        None \<Rightarrow> []
      | Some nc \<Rightarrow>
          if EndpointsConfig nc = [] then []
          else map (seed_endpoint name)
                 (enumerate 0 (ordered_endpoints (NetworkMode (b_HostConfig body)) (EndpointsConfig nc))))"

definition create_record ::
  "string \<Rightarrow> string \<Rightarrow> string \<Rightarrow> string \<Rightarrow> image \<Rightarrow> container_create_body \<Rightarrow> mount_record list \<Rightarrow> container_record" where
  "create_record cid name created image_name im body mounts =
     (let config = create_config cid im body in
      \<lparr>cr_id = cid, cr_name = name, cr_created = created, cr_image_id = ''sha256:'' @ im_id im,
       cr_image_name = image_name, cr_config = config, cr_hostconfig = b_HostConfig body,
       cr_cmd_display = cmd_display config, cr_endpoints = seed_endpoints name body,
       cr_wired_once = False, cr_mounts = mounts\<rparr>)"

section \<open>What the accepted mounts become\<close>

lemma for_all_induct:
  assumes "for_all body xs acc = Ok acc'" and "P acc"
    and "\<And>x a a'. x \<in> set xs \<Longrightarrow> P a \<Longrightarrow> body x a = Ok a' \<Longrightarrow> P a'"
  shows "P acc'"
  using assms
proof (induction xs arbitrary: acc)
  case Nil
  then show ?case by simp
next
  case (Cons x xs)
  then obtain a where a: "body x acc = Ok a" "for_all body xs a = Ok acc'"
    by (auto simp: and_then_iffs)
  have "P a" by (rule Cons.prems(3)[OF _ Cons.prems(2) a(1)]) simp
  show ?case by (rule Cons.IH[OF a(2) \<open>P a\<close>]) (use Cons.prems(3) in auto)
qed

lemma resolve_mounts_stages:
  assumes "resolve_mounts env hc ic bv supply = Ok acc"
  obtains a1 a2 a3 where
    "for_all (resolve_bind env) (Binds hc) \<lparr>out = [], anon_vols = [], made_dirs = [], ids = supply\<rparr> = Ok a1"
    "for_all (resolve_mount env) (Mounts hc) a1 = Ok a2"
    "for_all (resolve_volume_dest env) (volume_keys (c_Volumes ic)) a2 = Ok a3"
    "for_all (resolve_volume_dest env) (volume_keys bv) a3 = Ok acc"
  using assms by (auto simp: resolve_mounts_def Let_def and_then_iffs)

lemma add_volume_Ok:
  "add_volume env name dest ro anon acc = Ok acc' \<Longrightarrow>
     out acc' = out acc @ [volume_record env name dest ro anon] \<and>
     anon_vols acc' = anon_vols acc @ (if anon then [name] else [])"
  by (auto simp: add_volume_def Let_def split: if_splits)

lemma add_anonymous_Ok:
  "add_anonymous env dest ro acc = Ok acc' \<Longrightarrow>
     \<exists>name. out acc' = out acc @ [volume_record env name dest ro True] \<and> anon_vols acc' = anon_vols acc @ [name]"
  unfolding add_anonymous_def by (auto dest!: add_volume_Ok)

text \<open>The destination that a bind stands for once the optional suffix \<open>:ro\<close> is removed.\<close>

definition bind_dest :: "string \<Rightarrow> string" where
  "bind_dest bind =
     (let spec = (case strip_suffix '':ro'' bind of Some s \<Rightarrow> s | None \<Rightarrow> bind) in
      case split_once CHR '':'' spec of Some (source, dest) \<Rightarrow> dest | None \<Rightarrow> spec)"

lemma resolve_bind_Ok:
  assumes "resolve_bind env bind acc = Ok acc'"
  shows "\<exists>m. out acc' = out acc @ [m] \<and> m_destination m = bind_dest bind \<and>
             m_read_only m = (strip_suffix '':ro'' bind \<noteq> None) \<and>
             anon_vols acc' = anon_vols acc @ (if m_is_anonymous m then [m_name m] else [])"
  using assms
  by (cases "strip_suffix '':ro'' bind")
    (auto simp: resolve_bind_def bind_dest_def volume_record_def Let_def
      split: option.splits if_splits prod.splits dest!: add_volume_Ok add_anonymous_Ok)

lemma resolve_mount_Ok:
  assumes "resolve_mount env m acc = Ok acc'"
  shows "\<exists>r. out acc' = out acc @ [r] \<and> m_destination r = mr_Target m \<and>
             anon_vols acc' = anon_vols acc @ (if m_is_anonymous r then [m_name r] else [])"
  using assms
  by (auto simp: resolve_mount_def volume_record_def split: if_splits
      dest!: add_volume_Ok add_anonymous_Ok)

lemma resolve_volume_dest_Ok:
  assumes "resolve_volume_dest env dest acc = Ok acc'"
  shows "\<exists>rs. out acc' = out acc @ rs \<and> (\<forall>r \<in> set rs. m_destination r = dest) \<and>
              dest \<in> set (map m_destination (out acc')) \<and>
              anon_vols acc' = anon_vols acc @ map m_name (filter m_is_anonymous rs)"
proof (cases "dest \<in> set (map m_destination (out acc))")
  case True
  then show ?thesis using assms by (intro exI[of _ "[]"]) (simp add: resolve_volume_dest_def)
next
  case False
  then have "add_anonymous env dest False acc = Ok acc'"
    using assms by (simp add: resolve_volume_dest_def del: set_map)
  then obtain name where "out acc' = out acc @ [volume_record env name dest False True]"
    "anon_vols acc' = anon_vols acc @ [name]"
    using add_anonymous_Ok by blast
  then show ?thesis
    by (intro exI[of _ "[volume_record env name dest False True]"]) (simp add: volume_record_def)
qed

subsection \<open>Destinations\<close>

lemma split_on_two: "split_on c s = [a, b] \<Longrightarrow> s = a @ c # b \<and> c \<notin> set a \<and> c \<notin> set b"
  using join_split_on[of c s] split_on_no_sep[of _ c s] by auto

lemma split_on_three:
  "split_on c s = [a, b, d] \<Longrightarrow> s = a @ c # b @ c # d \<and> c \<notin> set a \<and> c \<notin> set b \<and> c \<notin> set d"
  using join_split_on[of c s] split_on_no_sep[of _ c s] by auto

lemma split_on_one: "split_on c s = [a] \<Longrightarrow> s = a \<and> c \<notin> set a"
  using join_split_on[of c s] split_on_no_sep[of _ c s] by auto

lemma split_once_first: "c \<notin> set a \<Longrightarrow> split_once c (a @ c # b) = Some (a, b)"
  by (simp add: split_once_Some)

lemma bind_dest_one: "CHR '':'' \<notin> set d \<Longrightarrow> bind_dest d = d"
proof -
  assume d: "CHR '':'' \<notin> set d"
  have "strip_suffix '':ro'' d = None"
  proof (cases "strip_suffix '':ro'' d")
    case (Some t)
    then show ?thesis using d by (simp add: strip_suffix_Some)
  qed simp
  then show ?thesis using d by (simp add: bind_dest_def split_once_None[THEN iffD2])
qed

lemma bind_dest_two:
  assumes "CHR '':'' \<notin> set a" and "CHR '':'' \<notin> set b" and "starts_with ''/'' b"
  shows "bind_dest (a @ CHR '':'' # b) = b"
proof -
  have "strip_suffix '':ro'' (a @ CHR '':'' # b) = None"
  proof (cases "strip_suffix '':ro'' (a @ CHR '':'' # b)")
    case (Some t)
    then have "a @ CHR '':'' # b = t @ CHR '':'' # ''ro''" by (simp add: strip_suffix_Some)
    then have "rsplit_once CHR '':'' (a @ CHR '':'' # b) = Some (t, ''ro'')"
      by (subst rsplit_once_Some) simp
    moreover have "rsplit_once CHR '':'' (a @ CHR '':'' # b) = Some (a, b)"
      using assms by (simp add: rsplit_once_Some)
    ultimately have "b = ''ro''" by simp
    then show ?thesis using assms(3) by (simp add: starts_with_iff)
  qed simp
  then show ?thesis using assms(1) by (simp add: bind_dest_def split_once_first)
qed

lemma bind_dest_three:
  assumes "CHR '':'' \<notin> set a" and "CHR '':'' \<notin> set b" and "CHR '':'' \<notin> set m"
  shows "bind_dest (a @ CHR '':'' # b @ CHR '':'' # m) = (if m = ''ro'' then b else b @ CHR '':'' # m)"
    and "strip_suffix '':ro'' (a @ CHR '':'' # b @ CHR '':'' # m) \<noteq> None \<longleftrightarrow> m = ''ro''"
proof -
  let ?s = "a @ CHR '':'' # b @ CHR '':'' # m"
  have rs: "rsplit_once CHR '':'' ?s = Some (a @ CHR '':'' # b, m)"
    using assms(3) by (simp add: rsplit_once_Some)
  have strip: "strip_suffix '':ro'' ?s = (if m = ''ro'' then Some (a @ CHR '':'' # b) else None)"
  proof (cases "strip_suffix '':ro'' ?s")
    case None
    moreover have "strip_suffix '':ro'' ?s = Some (a @ CHR '':'' # b)" if "m = ''ro''"
      using that by (simp add: strip_suffix_Some)
    ultimately show ?thesis by auto
  next
    case (Some t)
    then have "?s = t @ CHR '':'' # ''ro''" by (simp add: strip_suffix_Some)
    then have "rsplit_once CHR '':'' ?s = Some (t, ''ro'')" by (subst rsplit_once_Some) simp
    then show ?thesis using rs Some by simp
  qed
  show "bind_dest ?s = (if m = ''ro'' then b else b @ CHR '':'' # m)"
    using strip assms(1) by (simp add: bind_dest_def split_once_first)
  show "strip_suffix '':ro'' ?s \<noteq> None \<longleftrightarrow> m = ''ro''" using strip by simp
qed

definition good_dest :: "string \<Rightarrow> bool" where
  "good_dest d = (starts_with ''/'' d \<and> \<not> has_dotdot d)"

lemma has_dotdot_mode:
  assumes "has_dotdot (b @ CHR '':'' # m)" and "CHR ''/'' \<notin> set m"
  shows "has_dotdot b"
proof -
  have "split_on c (b @ x # m) = butlast (split_on c b) @ [last (split_on c b) @ x # m]"
    if "c \<noteq> x" "c \<notin> set m" for c x
    using that by (induction b) (auto simp: split_on_single split: list.splits)
  from this[of "CHR ''/''" "CHR '':''"] assms(2)
  have "split_on CHR ''/'' (b @ CHR '':'' # m) =
      butlast (split_on CHR ''/'' b) @ [last (split_on CHR ''/'' b) @ CHR '':'' # m]" by simp
  moreover have "last (split_on CHR ''/'' b) @ CHR '':'' # m \<noteq> ''..''"
    by (cases "last (split_on CHR ''/'' b)") (auto simp: append_eq_Cons_conv Cons_eq_append_conv)
  ultimately have "''..'' \<in> set (butlast (split_on CHR ''/'' b))"
    using assms(1) by (auto simp: has_dotdot_def)
  then show ?thesis by (auto simp: has_dotdot_def dest: in_set_butlastD)
qed

lemma to_lower_slash [simp]: "to_lower CHR ''/'' = CHR ''/''"
  by code_simp

lemma mode_no_slash: "map to_lower m = ''ro'' \<or> map to_lower m = ''rw'' \<Longrightarrow> CHR ''/'' \<notin> set m"
  by (auto simp: map_eq_Cons_conv)

lemma accepted_bind_cases:
  assumes "validate_bind bind = Ok ()"
  obtains (anon) "CHR '':'' \<notin> set bind" "good_dest bind"
  | (plain) src dst where "bind = src @ CHR '':'' # dst" "CHR '':'' \<notin> set src" "CHR '':'' \<notin> set dst" "good_dest dst"
  | (moded) src dst m where "bind = src @ CHR '':'' # dst @ CHR '':'' # m" "CHR '':'' \<notin> set src"
      "CHR '':'' \<notin> set dst" "CHR '':'' \<notin> set m" "good_dest dst" "map to_lower m = ''ro'' \<or> map to_lower m = ''rw''"
proof -
  obtain p ps where ps: "split_on CHR '':'' bind = p # ps" by (cases "split_on CHR '':'' bind") auto
  consider "ps = []" | dst where "ps = [dst]" | dst m where "ps = [dst, m]"
    | dst m x xs where "ps = dst # m # x # xs"
    by (metis list.exhaust)
  then show ?thesis
  proof cases
    case 1
    then have "split_on CHR '':'' bind = [p]" using ps by simp
    from split_on_one[OF this] show ?thesis
      using anon assms ps 1 by (auto simp: validate_bind_def good_dest_def checks)
  next
    case (2 dst)
    then have "split_on CHR '':'' bind = [p, dst]" using ps by simp
    from split_on_two[OF this] show ?thesis
      using plain[of p dst] assms ps 2 by (auto simp: validate_bind_def good_dest_def checks)
  next
    case (3 dst m)
    then have "split_on CHR '':'' bind = [p, dst, m]" using ps by simp
    from split_on_three[OF this] show ?thesis
      using moded[of p dst m] assms ps 3 by (auto simp: validate_bind_def good_dest_def checks)
  next
    case (4 dst m x xs)
    then show ?thesis using assms ps by (simp add: validate_bind_def checks)
  qed
qed

lemma accepted_bind_dest:
  assumes "validate_bind bind = Ok ()"
  shows "good_dest (bind_dest bind)"
  using assms
proof (cases rule: accepted_bind_cases)
  case anon
  then show ?thesis by (simp add: bind_dest_one)
next
  case (plain src dst)
  then show ?thesis by (simp add: bind_dest_two good_dest_def)
next
  case (moded src dst m)
  have "\<not> has_dotdot (dst @ CHR '':'' # m)"
    using has_dotdot_mode[of dst m] mode_no_slash moded by (auto simp: good_dest_def)
  moreover have "starts_with ''/'' (dst @ CHR '':'' # m)"
    using moded(5) by (auto simp: good_dest_def starts_with_iff)
  ultimately show ?thesis using moded by (simp add: bind_dest_three(1) good_dest_def)
qed

definition dests_ok :: "(string \<Rightarrow> bool) \<Rightarrow> mount_acc \<Rightarrow> bool" where
  "dests_ok Q acc \<longleftrightarrow> (\<forall>m \<in> set (out acc). Q (m_destination m))"

lemma for_all_dests:
  assumes "for_all body xs acc = Ok acc'" and "dests_ok Q acc"
    and "\<And>x a a'. x \<in> set xs \<Longrightarrow> body x a = Ok a' \<Longrightarrow>
           \<exists>rs. out a' = out a @ rs \<and> (\<forall>r \<in> set rs. Q (m_destination r))"
  shows "dests_ok Q acc'"
proof (rule for_all_induct[where P = "dests_ok Q", OF assms(1,2)])
  fix x a a'
  assume "x \<in> set xs" "dests_ok Q a" "body x a = Ok a'"
  then show "dests_ok Q a'" using assms(3)[of x a a'] by (auto simp: dests_ok_def)
qed


definition demo_env :: mount_env where
  "demo_env = \<lparr>volumes_dir = ''/var/lib/ingot/volumes'', mkdir_ok = (\<lambda>_. True)\<rparr>"

definition demo_hc :: host_config where
  "demo_hc = default_host_config\<lparr>Binds := [''data:/srv:ro'']\<rparr>"


text \<open>A bind with an accepted mode other than the exact text \<open>ro\<close> is not mounted where
  it says: \<open>src:/dst:rw\<close> is mounted at the path \<open>/dst:rw\<close>, and \<open>src:/dst:RO\<close> is mounted
  writable at \<open>/dst:RO\<close>.\<close>

theorem bind_mode_becomes_path:
  assumes "validate_bind (src @ CHR '':'' # dst @ CHR '':'' # mode) = Ok ()"
    and "CHR '':'' \<notin> set src" and "CHR '':'' \<notin> set dst" and "CHR '':'' \<notin> set mode" and "mode \<noteq> ''ro''"
    and "resolve_bind env (src @ CHR '':'' # dst @ CHR '':'' # mode) acc = Ok acc'"
  shows "(map to_lower mode = ''ro'' \<or> map to_lower mode = ''rw'') \<and>
         m_destination (last (out acc')) = dst @ CHR '':'' # mode \<and> \<not> m_read_only (last (out acc'))"
proof -
  have "split_on CHR '':'' (src @ CHR '':'' # dst @ CHR '':'' # mode) = [src, dst, mode]"
    using assms(2-4) by (simp add: split_on_append split_on_single)
  then have "map to_lower mode = ''ro'' \<or> map to_lower mode = ''rw''"
    using assms(1) by (auto simp: validate_bind_def checks)
  then show ?thesis
    using resolve_bind_Ok[OF assms(6)] bind_dest_three[OF assms(2-4)] assms(5) by auto
qed

theorem bind_mode_becomes_path_witness:
  "validate_bind ''/a:/b:RO'' = Ok () \<and>
   (\<exists>acc. resolve_bind demo_env ''/a:/b:RO'' \<lparr>out = [], anon_vols = [], made_dirs = [], ids = []\<rparr> = Ok acc \<and>
          m_destination (last (out acc)) = ''/b:RO'' \<and> \<not> m_read_only (last (out acc)))"
proof -
  have v: "validate_bind ''/a:/b:RO'' = Ok ()" by code_simp
  obtain acc where acc: "resolve_bind demo_env ''/a:/b:RO'' \<lparr>out = [], anon_vols = [], made_dirs = [], ids = []\<rparr> = Ok acc"
  proof -
    have "is_ok (resolve_bind demo_env ''/a:/b:RO'' \<lparr>out = [], anon_vols = [], made_dirs = [], ids = []\<rparr>)"
      by code_simp
    then show ?thesis using that by (auto simp: is_ok_iff)
  qed
  show ?thesis
    using bind_mode_becomes_path[of "''/a''" "''/b''" "''RO''" demo_env
        "\<lparr>out = [], anon_vols = [], made_dirs = [], ids = []\<rparr>" acc] v acc by auto
qed

subsection \<open>Anonymous volumes\<close>

definition tracked :: "mount_acc \<Rightarrow> bool" where
  "tracked acc \<longleftrightarrow> anon_vols acc = map m_name (filter m_is_anonymous (out acc))"

lemma tracked_steps:
  "resolve_bind env b a = Ok a' \<Longrightarrow> tracked a \<Longrightarrow> tracked a'"
  "resolve_mount env m a = Ok a' \<Longrightarrow> tracked a \<Longrightarrow> tracked a'"
  "resolve_volume_dest env d a = Ok a' \<Longrightarrow> tracked a \<Longrightarrow> tracked a'"
proof -
  show "resolve_bind env b a = Ok a' \<Longrightarrow> tracked a \<Longrightarrow> tracked a'"
    by (drule resolve_bind_Ok) (elim exE conjE, simp add: tracked_def)
  show "resolve_mount env m a = Ok a' \<Longrightarrow> tracked a \<Longrightarrow> tracked a'"
    by (drule resolve_mount_Ok) (auto simp: tracked_def)
  show "resolve_volume_dest env d a = Ok a' \<Longrightarrow> tracked a \<Longrightarrow> tracked a'"
    using resolve_volume_dest_Ok[of env d a a'] by (auto simp: tracked_def)
qed

lemma volume_dests_covered:
  assumes "for_all (resolve_volume_dest env) ds acc = Ok acc'"
  shows "set (map m_destination (out acc)) \<union> set ds \<subseteq> set (map m_destination (out acc'))"
  using assms
proof (induction ds arbitrary: acc)
  case Nil
  then show ?case by simp
next
  case (Cons d ds)
  then obtain a where a: "resolve_volume_dest env d acc = Ok a" "for_all (resolve_volume_dest env) ds a = Ok acc'"
    by (auto simp: and_then_iffs)
  have "set (map m_destination (out acc)) \<union> {d} \<subseteq> set (map m_destination (out a))"
    using resolve_volume_dest_Ok[OF a(1)] by auto
  then show ?case using Cons.IH[OF a(2)] by auto
qed

text \<open>A successful resolution records exactly its anonymous volumes for the cleanup of a
  failed create, and every volume that the image or the request declares has a mount.\<close>

theorem anonymous_volumes_tracked:
  assumes "resolve_mounts env hc ic bv supply = Ok acc"
  shows "anon_vols acc = map m_name (filter m_is_anonymous (out acc)) \<and>
         set (volume_keys (c_Volumes ic)) \<union> set (volume_keys bv) \<subseteq> set (map m_destination (out acc))"
proof -
  obtain a1 a2 a3 where st:
    "for_all (resolve_bind env) (Binds hc) \<lparr>out = [], anon_vols = [], made_dirs = [], ids = supply\<rparr> = Ok a1"
    "for_all (resolve_mount env) (Mounts hc) a1 = Ok a2"
    "for_all (resolve_volume_dest env) (volume_keys (c_Volumes ic)) a2 = Ok a3"
    "for_all (resolve_volume_dest env) (volume_keys bv) a3 = Ok acc"
    using resolve_mounts_stages[OF assms] by blast
  have "tracked a1" by (rule for_all_induct[where P = tracked, OF st(1)]) (simp add: tracked_def, rule tracked_steps)
  then have "tracked a2" by (rule for_all_induct[where P = tracked, OF st(2)]) (rule tracked_steps)
  then have "tracked a3" by (rule for_all_induct[where P = tracked, OF st(3)]) (rule tracked_steps)
  then have "tracked acc" by (rule for_all_induct[where P = tracked, OF st(4)]) (rule tracked_steps)
  then show ?thesis
    using volume_dests_covered[OF st(3)] volume_dests_covered[OF st(4)] by (auto simp: tracked_def)
qed

theorem anonymous_volumes_tracked_witness:
  "\<exists>acc. resolve_mounts demo_env (default_host_config\<lparr>Binds := [''/cache'']\<rparr>) default_container_config None [''ab'']
           = Ok acc \<and> anon_vols acc = map m_name (filter m_is_anonymous (out acc)) \<and> anon_vols acc = [''ab'']"
proof -
  let ?r = "resolve_mounts demo_env (default_host_config\<lparr>Binds := [''/cache'']\<rparr>) default_container_config None [''ab'']"
  have e: "?r = Ok \<lparr>out = [volume_record demo_env ''ab'' ''/cache'' False True], anon_vols = [''ab''],
      made_dirs = [''/var/lib/ingot/volumes/ab''], ids = []\<rparr>" by code_simp
  show ?thesis using anonymous_volumes_tracked[OF e] e by auto
qed

section \<open>The merged configuration\<close>

lemma assoc_get_or_insert_all:
  "assoc_get (or_insert_all into from) k = (case assoc_get into k of Some v \<Rightarrow> Some v | None \<Rightarrow> assoc_get from k)"
proof (induction "from" arbitrary: into)
  case Nil
  then show ?case by (simp add: or_insert_all_def assoc_get_def split: option.splits)
next
  case (Cons p ps)
  obtain k' v' where p: "p = (k', v')" by (cases p)
  have "or_insert_all into (p # ps) = or_insert_all (if has_key into k' then into else assoc_put into k' v') ps"
    by (simp add: or_insert_all_def p)
  then show ?case
    using Cons.IH p
    by (auto simp: has_key_def assoc_get_put split: option.splits) (auto simp: assoc_get_def)
qed

lemma inherit_fields:
  "c_StopSignal (inherit_image_config c ic) = (if c_StopSignal c = [] then c_StopSignal ic else c_StopSignal c)"
  "c_Healthcheck (inherit_image_config c ic) = (if c_Healthcheck c = None then c_Healthcheck ic else c_Healthcheck c)"
  "c_Labels (inherit_image_config c ic) = c_Labels c"
  "c_User (inherit_image_config c ic) = c_User c"
  "c_WorkingDir (inherit_image_config c ic) = c_WorkingDir c"
  "c_Env (inherit_image_config c ic) = c_Env c"
  "c_Cmd (inherit_image_config c ic) = c_Cmd c"
  "c_Entrypoint (inherit_image_config c ic) = c_Entrypoint c"
  by (cases "c_Healthcheck c"; simp add: inherit_image_config_def Let_def)+

lemma merge_fields:
  "b_Labels (merge_body im body) = or_insert_all (b_Labels body) (c_Labels (im_config im))"
  "b_User (merge_body im body) = (if b_User body = [] then c_User (im_config im) else b_User body)"
  "b_WorkingDir (merge_body im body) = (if b_WorkingDir body = [] then c_WorkingDir (im_config im) else b_WorkingDir body)"
  "b_Env (merge_body im body) = c_Env (im_config im) @ b_Env body"
  "b_StopSignal (merge_body im body) = b_StopSignal body"
  "b_Healthcheck (merge_body im body) = b_Healthcheck body"
  by (simp_all add: merge_body_def Let_def)

lemma create_config_fields:
  "c_Labels (create_config cid im body) = or_insert_all (b_Labels body) (c_Labels (im_config im))"
  "c_User (create_config cid im body) = (if b_User body = [] then c_User (im_config im) else b_User body)"
  "c_WorkingDir (create_config cid im body) =
     (if b_WorkingDir body = [] then c_WorkingDir (im_config im) else b_WorkingDir body)"
  "c_Env (create_config cid im body) = c_Env (im_config im) @ b_Env body"
  "c_StopSignal (create_config cid im body) =
     (if b_StopSignal body = [] then c_StopSignal (im_config im) else b_StopSignal body)"
  "c_Healthcheck (create_config cid im body) =
     (if b_Healthcheck body = None then c_Healthcheck (im_config im) else b_Healthcheck body)"
  "c_Cmd (create_config cid im body) = (if b_Cmd body = [] then c_Cmd (im_config im) else b_Cmd body)"
  "c_Entrypoint (create_config cid im body) = b_Entrypoint body"
  by (simp_all add: create_config_def Let_def inherit_fields into_container_config_def merge_fields)

lemma create_config_entrypoint:
  "create_config cid (im\<lparr>im_config := (im_config im)\<lparr>c_Entrypoint := ep\<rparr>\<rparr>) body = create_config cid im body"
proof -
  have "merge_body (im\<lparr>im_config := (im_config im)\<lparr>c_Entrypoint := ep\<rparr>\<rparr>) body = merge_body im body"
    by (simp add: merge_body_def Let_def)
  moreover have "inherit_image_config c ((im_config im)\<lparr>c_Entrypoint := ep\<rparr>) = inherit_image_config c (im_config im)" for c
    by (simp add: inherit_image_config_def Let_def)
  ultimately show ?thesis by (simp add: create_config_def Let_def)
qed

text \<open>The request wins over the image: labels and exposed ports of the image fill in
  missing keys only, user and working directory apply when the request leaves them empty, the
  image's environment comes before the request's, and an explicit stop signal or health check is
  kept.\<close>

theorem request_wins_over_image:
  "let c = create_config cid im body; ic = im_config im in
     (\<forall>k. assoc_get (c_Labels c) k =
        (case assoc_get (b_Labels body) k of Some v \<Rightarrow> Some v | None \<Rightarrow> assoc_get (c_Labels ic) k)) \<and>
     c_User c = (if b_User body = [] then c_User ic else b_User body) \<and>
     c_WorkingDir c = (if b_WorkingDir body = [] then c_WorkingDir ic else b_WorkingDir body) \<and>
     c_Env c = c_Env ic @ b_Env body \<and>
     c_StopSignal c = (if b_StopSignal body = [] then c_StopSignal ic else b_StopSignal body) \<and>
     c_Healthcheck c = (case b_Healthcheck body of None \<Rightarrow> c_Healthcheck ic | Some h \<Rightarrow> Some h) \<and>
     c_Cmd c = (if b_Cmd body = [] then c_Cmd ic else b_Cmd body)"
  by (cases "b_Healthcheck body") (simp_all add: Let_def create_config_fields assoc_get_or_insert_all)

text \<open>The entry point of the image is never used: without an entry point in the request,
  the command line of the created container is the request's or the image's command alone,
  whatever entry point the image declares.\<close>

theorem image_entrypoint_ignored:
  assumes "b_Entrypoint body = None"
  shows "argv (create_record cid name created image_name im body mounts) =
           (if b_Cmd body = [] then c_Cmd (im_config im) else b_Cmd body) \<and>
         create_record cid name created image_name (im\<lparr>im_config := (im_config im)\<lparr>c_Entrypoint := ep\<rparr>\<rparr>) body mounts =
         create_record cid name created image_name im body mounts"
  using assms by (simp add: argv_def create_record_def create_config_fields create_config_entrypoint Let_def)

theorem image_entrypoint_ignored_witness:
  "argv (create_record ''c1'' ''web'' [] ''nginx''
      \<lparr>im_id = ''ab'', im_config = default_container_config\<lparr>c_Entrypoint := Some [''/entry.sh''], c_Cmd := [''nginx'']\<rparr>,
       im_diff_ids = []\<rparr> default_create_body []) = [''nginx'']"
proof -
  let ?im = "\<lparr>im_id = ''ab'', im_config = default_container_config\<lparr>c_Entrypoint := Some [''/entry.sh''], c_Cmd := [''nginx'']\<rparr>,
       im_diff_ids = []\<rparr>"
  have "b_Entrypoint default_create_body = None" "b_Cmd default_create_body = []" by (simp_all add: default_create_body_def)
  then show ?thesis
    using image_entrypoint_ignored[of default_create_body "''c1''" "''web''" "[]" "''nginx''" ?im "[]" None] by simp
qed

section \<open>Seeded endpoints\<close>

lemma ordered_endpoints_names:
  "assoc_wf eps \<Longrightarrow> distinct (map fst (ordered_endpoints mode eps)) \<and>
     set (map fst (ordered_endpoints mode eps)) = set (assoc_keys eps) \<union>
       (if mode \<in> {[], ''none'', ''host''} then {} else {mode})"
  by (auto simp: ordered_endpoints_def Let_def assoc_wf_def assoc_keys_def distinct_sort_by assoc_get_def
      distinct_map_filter image_iff split: option.splits dest: map_of_SomeD weak_map_of_SomeI)

text \<open>The seeded endpoints name every requested network exactly once, the network of the
  container's network mode first (also if the request does not list it), and none has an address
  yet.\<close>

theorem seed_endpoints_complete:
  assumes "b_NetworkingConfig body = Some nc" and "EndpointsConfig nc \<noteq> []" and "assoc_wf (EndpointsConfig nc)"
  shows "let mode = NetworkMode (b_HostConfig body); nets = map ep_network_name (seed_endpoints name body) in
     distinct nets \<and>
     set nets = set (assoc_keys (EndpointsConfig nc)) \<union> (if mode \<in> {[], ''none'', ''host''} then {} else {mode}) \<and>
     (mode \<notin> {[], ''none'', ''host''} \<longrightarrow> hd nets = mode) \<and>
     (\<forall>e \<in> set (seed_endpoints name body). ep_ip e = [] \<and> ep_network_id e = [])"
proof -
  let ?o = "ordered_endpoints (NetworkMode (b_HostConfig body)) (EndpointsConfig nc)"
  have "map ep_network_name (map (seed_endpoint name) (enumerate n xs)) = map fst xs" for n xs
    by (induction xs arbitrary: n) (auto simp: seed_endpoint_def split: prod.splits)
  then have nets: "map ep_network_name (seed_endpoints name body) = map fst ?o"
    using assms(1,2) by (simp add: seed_endpoints_def)
  have "hd (map fst ?o) = NetworkMode (b_HostConfig body)"
    if "NetworkMode (b_HostConfig body) \<notin> {[], ''none'', ''host''}"
    using that by (auto simp: ordered_endpoints_def Let_def split: option.splits)
  moreover have "\<forall>e \<in> set (seed_endpoints name body). ep_ip e = [] \<and> ep_network_id e = []"
    using assms(1,2) by (auto simp: seed_endpoints_def seed_endpoint_def)
  ultimately show ?thesis
    using ordered_endpoints_names[OF assms(3)] by (simp add: Let_def nets)
qed

theorem seed_endpoints_complete_witness:
  "map ep_network_name (seed_endpoints ''web'' (default_create_body\<lparr>
     b_HostConfig := default_host_config\<lparr>NetworkMode := ''front''\<rparr>,
     b_NetworkingConfig := Some \<lparr>EndpointsConfig = [(''back'', default_endpoint_settings)]\<rparr>\<rparr>)) \<noteq> [] \<and>
   hd (map ep_network_name (seed_endpoints ''web'' (default_create_body\<lparr>
     b_HostConfig := default_host_config\<lparr>NetworkMode := ''front''\<rparr>,
     b_NetworkingConfig := Some \<lparr>EndpointsConfig = [(''back'', default_endpoint_settings)]\<rparr>\<rparr>))) = ''front''"
proof -
  let ?b = "default_create_body\<lparr>b_HostConfig := default_host_config\<lparr>NetworkMode := ''front''\<rparr>,
     b_NetworkingConfig := Some \<lparr>EndpointsConfig = [(''back'', default_endpoint_settings)]\<rparr>\<rparr>"
  let ?nc = "\<lparr>EndpointsConfig = [(''back'', default_endpoint_settings)]\<rparr>"
  have "set (map ep_network_name (seed_endpoints ''web'' ?b)) = {''back'', ''front''} \<and>
     hd (map ep_network_name (seed_endpoints ''web'' ?b)) = ''front''"
    using seed_endpoints_complete[of ?b ?nc "''web''"]
    by (simp add: Let_def assoc_wf_def assoc_keys_def insert_commute)
  moreover from this have "map ep_network_name (seed_endpoints ''web'' ?b) \<noteq> []"
    by (metis empty_not_insert list.set(1))
  ultimately show ?thesis by blast
qed

end
