(* ===== verification/Supervisor.thy ===== *)
theory Supervisor
  imports Api_Types
begin

text \<open>
  The life cycle of one container in \<open>crates/runtime/src/manager.rs\<close>: start, stop, kill, pause,
  restart and remove, the reaper that runs when the process exits, the supervised restart with
  its backoff, the health probe, and the reconciliation of recorded states when the daemon boots
  (\<open>crates/ingotd/src/main.rs\<close>). The operations are functions on the state they lock; the step
  relation interleaves them with the tasks that run without the life-cycle lock: the reaper and
  the two phases of \<open>restart_container\<close>. Parsing of time stamps (the \<open>chrono\<close> crate) is a parameter.
\<close>

section \<open>Exit codes and restart policy\<close>

text \<open>What \<open>waitpid\<close> reports for the process: a normal exit, a signal, another status, or an error.\<close>

datatype wait_status = WaitExited nat | WaitSignaled nat | WaitOther | WaitFailed

definition exit_code_of :: "wait_status \<Rightarrow> int" where
  "exit_code_of w = (case w of WaitExited n \<Rightarrow> int n | WaitSignaled s \<Rightarrow> 128 + int s
     | WaitOther \<Rightarrow> 1 | WaitFailed \<Rightarrow> -1)"

definition signo_of :: "wait_status \<Rightarrow> nat" where
  "signo_of w = (case w of WaitSignaled s \<Rightarrow> s | _ \<Rightarrow> 0)"

definition run_duration_secs :: "(string \<Rightarrow> int option) \<Rightarrow> string \<Rightarrow> string \<Rightarrow> int" where
  "run_duration_secs ts started finished =
     (let parse = (\<lambda>s. case ts s of None \<Rightarrow> 0 | Some t \<Rightarrow> t) in
      max 0 (parse finished - parse started))"

definition restart_delay_secs :: "int \<Rightarrow> nat" where
  "restart_delay_secs failures =
     (let shift = nat (min 7 (max 1 failures)) - 1 in min (2 ^ shift) 60)"

definition bump :: "bool \<Rightarrow> container_state \<Rightarrow> container_state" where
  "bump healthy st = st\<lparr>restart_count := (if healthy then 1 else restart_count st + 1)\<rparr>"

definition restart_decision ::
  "restart_policy \<Rightarrow> bool \<Rightarrow> bool \<Rightarrow> bool \<Rightarrow> container_state \<Rightarrow> container_state \<times> bool" where
  "restart_decision pol auto manual healthy st =
     (if manual \<or> auto then (st, False)
      else if rp_Name pol = ''always'' then (bump healthy st, True)
      else if rp_Name pol = ''unless-stopped'' then (bump healthy st, True)
      else if rp_Name pol = ''on-failure'' \<and> exit_code st \<noteq> 0 \<and>
              (rp_MaximumRetryCount pol \<le> 0 \<or> restart_count st < rp_MaximumRetryCount pol)
      then (bump healthy st, True)
      else (st, False))"

text \<open>The state change of the reaper: \<open>oom\<close> says that the control group counted an out-of-memory
  kill while the process ran, \<open>now\<close> is the current time.\<close>

definition reap ::
  "(string \<Rightarrow> int option) \<Rightarrow> restart_policy \<Rightarrow> bool \<Rightarrow> bool \<Rightarrow> wait_status \<Rightarrow> bool \<Rightarrow> string
     \<Rightarrow> container_state \<Rightarrow> container_state \<times> bool" where
  "reap ts pol auto manual w oom now st =
     (let killed = (signo_of w = 9 \<and> oom);
          st' = st\<lparr>status := Exited, exit_code := exit_code_of w, finished_at := now, pid := 0,
                   oom_killed := killed,
                   st_error := (if killed then ''container killed: out of memory (cgroup oom_kill)'' else [])\<rparr>;
          healthy = (10 \<le> run_duration_secs ts (started_at st') now) in
      restart_decision pol auto manual healthy st')"

section \<open>Operations\<close>

text \<open>A task of \<open>restart_container\<close>: spawned, asleep for its delay, or past its last check.\<close>

datatype task = Queued | Sleeping nat | Armed

record cont =
  st :: container_state
  manual_stop :: bool
  present :: bool
  procs :: "int list"
  tasks :: "task list"

record settings =
  policy :: restart_policy
  autoremove :: bool
  timestamp :: "string \<Rightarrow> int option"
  has_healthcheck :: bool

datatype life_error =
  NoSuchContainer | AlreadyStarted | NotRunning | AlreadyPaused | NotPaused | StillRunning

definition created :: cont where
  "created = \<lparr>st = default_container_state, manual_stop = False, present = True, procs = [], tasks = []\<rparr>"

definition starting_health :: health_state where
  "starting_health = \<lparr>hs_Status = ''starting'', hs_FailingStreak = 0, hs_Log = []\<rparr>"

text \<open>A start whose preparations succeed, as the process \<open>p\<close> at time \<open>now\<close>. Only the status
  \<open>Running\<close> is refused.\<close>

definition start :: "settings \<Rightarrow> int \<Rightarrow> string \<Rightarrow> cont \<Rightarrow> (life_error, cont) result" where
  "start cfg p now c =
     (if \<not> present c then Err NoSuchContainer
      else if status (st c) = Running then Err AlreadyStarted
      else Ok (c\<lparr>st := (st c)\<lparr>status := Running, pid := p, started_at := now, exit_code := 0,
                    health := (if has_healthcheck cfg then Some starting_health else health (st c))\<rparr>,
                 manual_stop := False,
                 procs := p # procs c\<rparr>))"

text \<open>\<open>stop_handle\<close> up to the signal: the result is the pid to signal, or the recorded exit code.\<close>

definition stop :: "cont \<Rightarrow> (life_error, int + int) result \<times> cont" where
  "stop c =
     (if \<not> present c then (Err NoSuchContainer, c)
      else let c' = c\<lparr>manual_stop := True\<rparr> in
        if status (st c) \<noteq> Running then (Ok (Inl (exit_code (st c))), c')
        else (Ok (Inr (pid (st c))), c'))"

text \<open>Signal and grace period of a stop: the request's values, else the container's, else the
  defaults. Then the protocol: the signal, a wait for the exit within the grace period, \<open>SIGKILL\<close>
  and a second, bounded wait; \<open>None\<close> is a wait that ends without the exit being seen. The result is
  the list of signals sent and the reported exit code.\<close>

definition stop_params :: "container_record \<Rightarrow> int option \<Rightarrow> nat option \<Rightarrow> nat \<times> nat" where
  "stop_params rec timeout signal =
     ((case signal of Some s \<Rightarrow> s | None \<Rightarrow> stop_signal rec),
      nat (max 0 (case timeout of Some t \<Rightarrow> t
        | None \<Rightarrow> (case c_StopTimeout (cr_config rec) of Some t \<Rightarrow> t | None \<Rightarrow> 10))))"

definition stop_protocol :: "nat \<Rightarrow> int option \<Rightarrow> int option \<Rightarrow> int \<Rightarrow> nat list \<times> int" where
  "stop_protocol sig first second recorded =
     (case first of
        Some code \<Rightarrow> ([sig], code)
      | None \<Rightarrow> ([sig, 9], case second of Some code \<Rightarrow> code | None \<Rightarrow> recorded))"

definition kill :: "cont \<Rightarrow> (life_error, int) result \<times> cont" where
  "kill c =
     (if \<not> present c then (Err NoSuchContainer, c)
      else let c' = c\<lparr>manual_stop := True\<rparr> in
        if status (st c) \<noteq> Running then (Err NotRunning, c') else (Ok (pid (st c)), c'))"

definition pause :: "bool \<Rightarrow> cont \<Rightarrow> (life_error, cont) result" where
  "pause on c =
     (if \<not> present c then Err NoSuchContainer
      else if on \<and> status (st c) \<noteq> Running then
        Err (if status (st c) = Paused then AlreadyPaused else NotRunning)
      else if \<not> on \<and> status (st c) \<noteq> Paused then Err NotPaused
      else Ok (c\<lparr>st := (st c)\<lparr>status := (if on then Paused else Running)\<rparr>\<rparr>))"

text \<open>\<open>restart\<close> up to the wait for the exit; the start follows as a step of its own.\<close>

definition restart_begin :: "cont \<Rightarrow> cont" where
  "restart_begin c =
     (if status (st c) = Running
      then c\<lparr>st := (st c)\<lparr>status := Restarting\<rparr>, manual_stop := True\<rparr> else c)"

definition remove :: "bool \<Rightarrow> cont \<Rightarrow> (life_error, cont) result" where
  "remove force c =
     (if \<not> present c then Err NoSuchContainer
      else if status (st c) = Running \<and> \<not> force then Err StillRunning
      else let c' = (if status (st c) = Running then snd (stop c) else c) in
        Ok (c'\<lparr>present := False\<rparr>))"

definition proc_exit :: "settings \<Rightarrow> int \<Rightarrow> wait_status \<Rightarrow> bool \<Rightarrow> string \<Rightarrow> cont \<Rightarrow> cont" where
  "proc_exit cfg p w oom now c =
     (case reap (timestamp cfg) (policy cfg) (autoremove cfg) (manual_stop c) w oom now (st c) of
        (st', should_restart) \<Rightarrow>
          c\<lparr>st := st', procs := remove1 p (procs c),
            present := (present c \<and> \<not> autoremove cfg),
            tasks := (if \<not> autoremove cfg \<and> should_restart then tasks c @ [Queued] else tasks c)\<rparr>)"

text \<open>The first phase of \<open>restart_container\<close>, before it sleeps.\<close>

definition task_begin :: "cont \<Rightarrow> cont" where
  "task_begin c =
     (let rest = remove1 Queued (tasks c) in
      if \<not> present c \<or> manual_stop c then c\<lparr>tasks := rest\<rparr>
      else c\<lparr>st := (st c)\<lparr>status := Restarting\<rparr>,
             tasks := rest @ [Sleeping (restart_delay_secs (restart_count (st c)))]\<rparr>)"

text \<open>The check after the sleep, and the start that follows it.\<close>

definition task_wake :: "nat \<Rightarrow> cont \<Rightarrow> cont" where
  "task_wake d c =
     (let rest = remove1 (Sleeping d) (tasks c) in
      if present c \<and> manual_stop c then c\<lparr>tasks := rest\<rparr> else c\<lparr>tasks := rest @ [Armed]\<rparr>)"

definition task_start :: "settings \<Rightarrow> int \<Rightarrow> string \<Rightarrow> cont \<Rightarrow> cont" where
  "task_start cfg p now c =
     (let c' = c\<lparr>tasks := remove1 Armed (tasks c)\<rparr> in
      case start cfg p now c' of Inl _ \<Rightarrow> c' | Inr c'' \<Rightarrow> c'')"

section \<open>The step relation\<close>

datatype event =
    UserStart int
  | UserStop
  | UserKill
  | UserPause bool
  | UserRestart
  | UserRemove bool
  | ProcExit int wait_status
  | TaskBegin
  | TaskWake
  | TaskStart int

inductive step :: "settings \<Rightarrow> cont \<Rightarrow> event \<Rightarrow> cont \<Rightarrow> bool" for cfg where
  user_start: "start cfg p now c = Ok c' \<Longrightarrow> 0 < p \<Longrightarrow> p \<notin> set (procs c) \<Longrightarrow> step cfg c (UserStart p) c'"
| user_stop: "stop c = (Ok r, c') \<Longrightarrow> step cfg c UserStop c'"
| user_kill: "snd (kill c) = c' \<Longrightarrow> present c \<Longrightarrow> step cfg c UserKill c'"
| user_pause: "pause on c = Ok c' \<Longrightarrow> step cfg c (UserPause on) c'"
| user_restart: "present c \<Longrightarrow> status (st c) = Running \<Longrightarrow> step cfg c UserRestart (restart_begin c)"
| user_remove: "remove force c = Ok c' \<Longrightarrow> step cfg c (UserRemove force) c'"
| exits: "p \<in> set (procs c) \<Longrightarrow> step cfg c (ProcExit p w) (proc_exit cfg p w oom now c)"
| task_begins: "Queued \<in> set (tasks c) \<Longrightarrow> step cfg c TaskBegin (task_begin c)"
| task_wakes: "Sleeping d \<in> set (tasks c) \<Longrightarrow> step cfg c TaskWake (task_wake d c)"
| task_starts: "Armed \<in> set (tasks c) \<Longrightarrow> 0 < p \<Longrightarrow> p \<notin> set (procs c) \<Longrightarrow>
    step cfg c (TaskStart p) (task_start cfg p now c)"

inductive_cases step_elims:
  "step cfg c (UserStart p) c'" "step cfg c UserStop c'" "step cfg c UserKill c'"
  "step cfg c (UserPause on) c'" "step cfg c UserRestart c'" "step cfg c (UserRemove force) c'"
  "step cfg c (ProcExit p w) c'" "step cfg c TaskBegin c'" "step cfg c TaskWake c'"
  "step cfg c (TaskStart p) c'"

inductive run :: "settings \<Rightarrow> cont \<Rightarrow> event list \<Rightarrow> cont \<Rightarrow> bool" for cfg where
  run_nil: "run cfg c [] c"
| run_snoc: "run cfg c es c' \<Longrightarrow> step cfg c' e c'' \<Longrightarrow> run cfg c (es @ [e]) c''"

section \<open>Health probes\<close>

text \<open>One probe result of the health-check loop: the entry is logged, the streak and the status
  follow the exit code; the second result is the transition that is announced.\<close>

definition probe_result ::
  "int \<Rightarrow> bool \<Rightarrow> health_log_entry \<Rightarrow> health_state \<Rightarrow> health_state \<times> string option" where
  "probe_result retries in_start_period entry h =
     (let log = hs_Log h @ [entry]; log' = (if 5 < length log then tl log else log); h1 = h\<lparr>hs_Log := log'\<rparr> in
      if hl_ExitCode entry = 0 then
        (let h2 = h1\<lparr>hs_FailingStreak := 0\<rparr> in
         if hs_Status h2 \<noteq> ''healthy'' then (h2\<lparr>hs_Status := ''healthy''\<rparr>, Some ''healthy'') else (h2, None))
      else
        (let h2 = h1\<lparr>hs_FailingStreak := hs_FailingStreak h1 + 1\<rparr> in
         if \<not> in_start_period \<and> retries \<le> hs_FailingStreak h2 \<and> hs_Status h2 \<noteq> ''unhealthy''
         then (h2\<lparr>hs_Status := ''unhealthy''\<rparr>, Some ''unhealthy'') else (h2, None)))"

definition health_cmd :: "string list \<Rightarrow> string list" where
  "health_cmd test =
     (case test of [] \<Rightarrow> []
      | t # rest \<Rightarrow>
          if t = ''CMD-SHELL'' then [''/bin/sh'', ''-c'', join_with '' '' rest]
          else if t = ''CMD'' then rest else test)"

definition nanos_or :: "int option \<Rightarrow> int \<Rightarrow> int" where
  "nanos_or v dflt = (case v of Some n \<Rightarrow> if 0 < n then n else dflt | None \<Rightarrow> dflt)"

text \<open>The parameters of the loop: interval, timeout, retries, start period, start interval; times in
  nanoseconds.\<close>

definition health_params :: "health_config \<Rightarrow> int \<times> int \<times> int \<times> int \<times> int" where
  "health_params hc =
     (let interval = nanos_or (hc_Interval hc) 30000000000 in
      (interval, nanos_or (hc_Timeout hc) 30000000000,
       max 1 (case hc_Retries hc of None \<Rightarrow> 3 | Some r \<Rightarrow> r),
       nanos_or (hc_StartPeriod hc) 0, nanos_or (hc_StartInterval hc) interval))"

section \<open>Boot\<close>

text \<open>One record of the boot reconciliation: the new state, and whether the container is started.\<close>

definition reconcile :: "restart_policy \<Rightarrow> string \<Rightarrow> container_state \<Rightarrow> container_state \<times> bool" where
  "reconcile pol now s =
     (if status s = Running \<or> status s = Paused then
        (s\<lparr>status := Exited, exit_code := 255, finished_at := now, pid := 0\<rparr>,
         rp_Name pol \<in> {''always'', ''unless-stopped''})
      else (s, False))"

section \<open>Restart policy\<close>

text \<open>The backoff of supervised restarts doubles with each consecutive failure, from one
  second up to at most sixty, and never decreases.\<close>

theorem restart_backoff:
  "restart_delay_secs n = min (2 ^ (nat (n - 1))) 60 \<and> 1 \<le> restart_delay_secs n \<and>
   (n \<le> m \<longrightarrow> restart_delay_secs n \<le> restart_delay_secs m)"
proof -
  have eq: "restart_delay_secs k = min (2 ^ (nat (k - 1))) 60" for k
  proof (cases "7 \<le> k")
    case True
    then have "(2::nat) ^ 6 \<le> 2 ^ nat (k - 1)" by (intro power_increasing) auto
    then show ?thesis using True by (simp add: restart_delay_secs_def Let_def)
  next
    case False
    then show ?thesis by (simp add: restart_delay_secs_def Let_def nat_diff_distrib max_def min_def)
  qed
  have "1 \<le> restart_delay_secs n" by (simp add: eq)
  moreover have "restart_delay_secs n \<le> restart_delay_secs m" if "n \<le> m"
  proof -
    have "(2::nat) ^ nat (n - 1) \<le> 2 ^ nat (m - 1)" using that by (intro power_increasing) auto
    then show ?thesis unfolding eq by (rule min.mono) simp
  qed
  ultimately show ?thesis using eq by blast
qed

theorem restart_backoff_witness: "restart_delay_secs 3 = 4 \<and> restart_delay_secs 3 \<le> restart_delay_secs 100"
  using restart_backoff[of 3 100] by simp

text \<open>A crash loop: a process that keeps failing before it counts as healthy, and is reaped each
  time; the number of restarts the supervisor grants.\<close>

fun crash_loop :: "restart_policy \<Rightarrow> int list \<Rightarrow> container_state \<Rightarrow> container_state \<times> nat" where
  "crash_loop pol [] s = (s, 0)"
| "crash_loop pol (code # codes) s =
     (case restart_decision pol False False False (s\<lparr>exit_code := code\<rparr>) of
        (s', False) \<Rightarrow> (s', 0)
      | (s', True) \<Rightarrow> (case crash_loop pol codes s' of (s'', n) \<Rightarrow> (s'', Suc n)))"

lemma crash_loop_count:
  assumes "rp_Name pol = ''on-failure''" and "0 < rp_MaximumRetryCount pol" and "0 \<notin> set codes"
    and "0 \<le> restart_count s"
  shows "snd (crash_loop pol codes s) = min (length codes) (nat (rp_MaximumRetryCount pol - restart_count s))"
  using assms(3,4)
proof (induction codes arbitrary: s)
  case Nil
  then show ?case by simp
next
  case (Cons code codes)
  show ?case
  proof (cases "restart_count s < rp_MaximumRetryCount pol")
    case True
    then have d: "restart_decision pol False False False (s\<lparr>exit_code := code\<rparr>) =
        (s\<lparr>exit_code := code, restart_count := restart_count s + 1\<rparr>, True)"
      using assms(1) Cons.prems by (simp add: restart_decision_def bump_def)
    have "snd (crash_loop pol codes (s\<lparr>exit_code := code, restart_count := restart_count s + 1\<rparr>)) =
        min (length codes) (nat (rp_MaximumRetryCount pol - (restart_count s + 1)))"
      using Cons.IH[of "s\<lparr>exit_code := code, restart_count := restart_count s + 1\<rparr>"] Cons.prems by simp
    moreover have "nat (rp_MaximumRetryCount pol - restart_count s) =
        Suc (nat (rp_MaximumRetryCount pol - (restart_count s + 1)))" using True by simp
    ultimately show ?thesis
      by (cases "crash_loop pol codes (s\<lparr>exit_code := code, restart_count := restart_count s + 1\<rparr>)") (simp add: d)
  next
    case False
    then show ?thesis
      using assms(1,2) by (simp add: restart_decision_def)
  qed
qed

text \<open>Under the policy \<open>on-failure\<close> with a positive retry limit, a container that keeps
  crashing is restarted exactly as often as the limit allows, then left stopped.\<close>

theorem crash_loop_bounded:
  assumes "rp_Name pol = ''on-failure''" and "0 < rp_MaximumRetryCount pol" and "0 \<notin> set codes"
  shows "snd (crash_loop pol codes default_container_state) =
           min (length codes) (nat (rp_MaximumRetryCount pol))"
  using crash_loop_count[OF assms, of default_container_state] by (simp add: default_container_state_def)

theorem crash_loop_bounded_witness:
  "snd (crash_loop \<lparr>rp_Name = ''on-failure'', rp_MaximumRetryCount = 2\<rparr> [1, 137, 1, 1] default_container_state) = 2"
  using crash_loop_bounded[of "\<lparr>rp_Name = ''on-failure'', rp_MaximumRetryCount = 2\<rparr>" "[1, 137, 1, 1]"] by simp

text \<open>A run of ten seconds or more resets the failure count to one, but only when the
  container is restarted at all: under \<open>on-failure\<close> with an exhausted retry limit a failing
  container stays down however long it ran, because the limit is compared before the reset.\<close>

theorem healthy_run_does_not_reset_limit:
  assumes "rp_Name pol = ''on-failure''" and "0 < rp_MaximumRetryCount pol" and "exit_code s \<noteq> 0"
  shows "restart_decision pol False False True s =
           (if restart_count s < rp_MaximumRetryCount pol then (s\<lparr>restart_count := 1\<rparr>, True) else (s, False))"
  using assms by (simp add: restart_decision_def bump_def)

theorem healthy_run_does_not_reset_limit_witness:
  "restart_decision \<lparr>rp_Name = ''on-failure'', rp_MaximumRetryCount = 1\<rparr> False False True
     (default_container_state\<lparr>restart_count := 1, exit_code := 3\<rparr>) =
   (default_container_state\<lparr>restart_count := 1, exit_code := 3\<rparr>, False)"
  using healthy_run_does_not_reset_limit[of "\<lparr>rp_Name = ''on-failure'', rp_MaximumRetryCount = 1\<rparr>"
      "default_container_state\<lparr>restart_count := 1, exit_code := 3\<rparr>"] by simp

section \<open>Reachable states\<close>

definition life_inv :: "settings \<Rightarrow> cont \<Rightarrow> bool" where
  "life_inv cfg c \<longleftrightarrow>
     (status (st c) \<in> {Running, Paused} \<longrightarrow> pid (st c) \<in> set (procs c) \<and> 0 < pid (st c)) \<and>
     (status (st c) = Exited \<longrightarrow> pid (st c) = 0) \<and>
     status (st c) \<in> {Created, Running, Paused, Restarting, Exited} \<and>
     0 \<le> restart_count (st c) \<and>
     (rp_Name (policy cfg) = ''on-failure'' \<longrightarrow> 0 < rp_MaximumRetryCount (policy cfg) \<longrightarrow>
        restart_count (st c) \<le> rp_MaximumRetryCount (policy cfg))"

lemma start_Ok:
  "start cfg p now c = Ok c' \<Longrightarrow> present c \<and> status (st c) \<noteq> Running \<and> present c' \<and> \<not> manual_stop c' \<and>
     procs c' = p # procs c \<and> tasks c' = tasks c \<and> status (st c') = Running \<and> pid (st c') = p \<and>
     restart_count (st c') = restart_count (st c)"
  by (auto simp: start_def split: if_splits)

lemma start_inv: "start cfg p now c = Ok c' \<Longrightarrow> 0 < p \<Longrightarrow> life_inv cfg c \<Longrightarrow> life_inv cfg c'"
  by (drule start_Ok) (auto simp: life_inv_def)

lemma proc_exit_fields:
  "status (st (proc_exit cfg p w oom now c)) = Exited" "pid (st (proc_exit cfg p w oom now c)) = 0"
  "procs (proc_exit cfg p w oom now c) = remove1 p (procs c)"
  "manual_stop (proc_exit cfg p w oom now c) = manual_stop c"
  by (auto simp: proc_exit_def reap_def restart_decision_def bump_def Let_def split: prod.splits)

lemma restart_decision_count:
  "0 \<le> restart_count s \<Longrightarrow> 0 \<le> restart_count (fst (restart_decision pol auto manual healthy s))"
  "rp_Name pol = ''on-failure'' \<Longrightarrow> 0 < rp_MaximumRetryCount pol \<Longrightarrow> restart_count s \<le> rp_MaximumRetryCount pol \<Longrightarrow>
   restart_count (fst (restart_decision pol auto manual healthy s)) \<le> rp_MaximumRetryCount pol"
  by (auto simp: restart_decision_def bump_def)

lemma proc_exit_inv: "life_inv cfg c \<Longrightarrow> life_inv cfg (proc_exit cfg p w oom now c)"
proof -
  assume inv: "life_inv cfg c"
  define s where "s = fst (reap (timestamp cfg) (policy cfg) (autoremove cfg) (manual_stop c) w oom now (st c))"
  have s: "st (proc_exit cfg p w oom now c) = s"
    by (simp add: proc_exit_def s_def split: prod.splits)
  have "0 \<le> restart_count s"
    unfolding s_def reap_def Let_def using inv by (intro restart_decision_count) (simp add: life_inv_def)
  moreover have "restart_count s \<le> rp_MaximumRetryCount (policy cfg)"
    if "rp_Name (policy cfg) = ''on-failure''" "0 < rp_MaximumRetryCount (policy cfg)"
    unfolding s_def reap_def Let_def using inv that by (intro restart_decision_count) (simp_all add: life_inv_def)
  ultimately show ?thesis
    using proc_exit_fields[of cfg p w oom now c] by (simp add: life_inv_def s)
qed

lemma task_start_cases:
  "task_start cfg p now c = c\<lparr>tasks := remove1 Armed (tasks c)\<rparr> \<or>
   start cfg p now (c\<lparr>tasks := remove1 Armed (tasks c)\<rparr>) = Ok (task_start cfg p now c)"
  by (auto simp: task_start_def Let_def split: sum.splits)

lemma stop_fields:
  "st (snd (stop c)) = st c" "procs (snd (stop c)) = procs c" "tasks (snd (stop c)) = tasks c"
  "present (snd (stop c)) = present c" "manual_stop (snd (stop c)) = (manual_stop c \<or> present c)"
  by (simp_all add: stop_def Let_def)

lemma kill_fields:
  "st (snd (kill c)) = st c" "procs (snd (kill c)) = procs c" "tasks (snd (kill c)) = tasks c"
  "present (snd (kill c)) = present c" "manual_stop (snd (kill c)) = (manual_stop c \<or> present c)"
  by (simp_all add: kill_def Let_def)

lemma remove_fields:
  assumes "remove force c = Ok c'"
  shows "st c' = st c" "procs c' = procs c" "tasks c' = tasks c" "\<not> present c'"
    and "manual_stop c \<Longrightarrow> manual_stop c'"
  using assms by (auto simp: remove_def Let_def stop_fields split: if_splits)

lemma task_wake_fields:
  "st (task_wake d c) = st c" "procs (task_wake d c) = procs c" "present (task_wake d c) = present c"
  "manual_stop (task_wake d c) = manual_stop c"
  by (simp_all add: task_wake_def Let_def)

lemmas quiet_fields = stop_fields kill_fields task_wake_fields

lemma life_inv_cong: "st c' = st c \<Longrightarrow> procs c' = procs c \<Longrightarrow> life_inv cfg c' = life_inv cfg c"
  by (simp add: life_inv_def)

lemma life_inv_status:
  "life_inv cfg c \<Longrightarrow> st c' = (st c)\<lparr>status := s\<rparr> \<Longrightarrow> procs c' = procs c \<Longrightarrow>
   s = Restarting \<or> s \<in> {Running, Paused} \<and> status (st c) \<in> {Running, Paused} \<Longrightarrow> life_inv cfg c'"
  by (elim disjE; auto simp: life_inv_def)

lemma step_inv: "step cfg c e c' \<Longrightarrow> life_inv cfg c \<Longrightarrow> life_inv cfg c'"
proof (induction rule: step.induct)
  case (user_start p now c c')
  then show ?case using start_inv by blast
next
  case (user_stop c r c')
  then have "c' = snd (stop c)" by simp
  then show ?case using user_stop.prems life_inv_cong[OF stop_fields(1,2)] by simp
next
  case (user_kill c c')
  then show ?case using life_inv_cong[OF kill_fields(1,2)] by blast
next
  case (user_pause on c c')
  then have "st c' = (st c)\<lparr>status := if on then Paused else Running\<rparr>" "procs c' = procs c"
    "status (st c) \<in> {Running, Paused}" by (auto simp: pause_def split: if_splits)
  then show ?case using life_inv_status[OF user_pause.prems] by (cases on) simp_all
next
  case (user_restart c)
  then show ?case by (intro life_inv_status[OF user_restart.prems, where s = Restarting]) (simp_all add: restart_begin_def)
next
  case (user_remove force c c')
  then show ?case using life_inv_cong[OF remove_fields(1,2)] by blast
next
  case (exits p c w oom now)
  then show ?case by (simp add: proc_exit_inv)
next
  case (task_begins c)
  show ?case
  proof (cases "\<not> present c \<or> manual_stop c")
    case True
    then have "st (task_begin c) = st c" "procs (task_begin c) = procs c" by (simp_all add: task_begin_def)
    then show ?thesis using life_inv_cong task_begins.prems by blast
  next
    case False
    then show ?thesis by (intro life_inv_status[OF task_begins.prems, where s = Restarting]) (simp_all add: task_begin_def Let_def)
  qed
next
  case (task_wakes d c)
  then show ?case using life_inv_cong[OF task_wake_fields(1,2)] by blast
next
  case (task_starts c p now)
  have "life_inv cfg (c\<lparr>tasks := remove1 Armed (tasks c)\<rparr>)" using task_starts by (simp add: life_inv_def)
  then show ?case using task_start_cases[of cfg p now c] start_inv task_starts by metis
qed

lemma created_inv: "life_inv cfg created"
  by (simp add: life_inv_def created_def default_container_state_def)

lemma run_inv: "run cfg c es c' \<Longrightarrow> life_inv cfg c \<Longrightarrow> life_inv cfg c'"
  by (induction rule: run.induct) (auto intro: step_inv)


text \<open>A concrete configuration and its first states, for the witnesses.\<close>

definition demo_cfg :: settings where
  "demo_cfg = \<lparr>policy = \<lparr>rp_Name = ''always'', rp_MaximumRetryCount = 0\<rparr>, autoremove = False,
     timestamp = (\<lambda>_. None), has_healthcheck = False\<rparr>"

lemma run_start:
  assumes "run cfg c es c'" and "present c'" and "status (st c') \<noteq> Running" and "0 < p" and "p \<notin> set (procs c')"
  shows "\<exists>c''. run cfg c (es @ [UserStart p]) c'' \<and> start cfg p [] c' = Ok c''"
proof -
  have "\<exists>c''. start cfg p [] c' = Ok c''" using assms(2,3) by (simp add: start_def)
  then obtain c'' where "start cfg p [] c' = Ok c''" by blast
  then show ?thesis using run_snoc[OF assms(1) user_start] assms(4,5) by blast
qed

lemma first_start:
  "\<exists>c. run cfg created [UserStart 10] c \<and> status (st c) = Running \<and> pid (st c) = 10 \<and> present c \<and>
       \<not> manual_stop c \<and> procs c = [10] \<and> tasks c = [] \<and> restart_count (st c) = 0"
proof -
  obtain c where r: "run cfg created ([] @ [UserStart 10]) c" and s: "start cfg 10 [] created = Ok c"
    using run_start[OF run_nil[of cfg created], of 10] by (auto simp: created_def default_container_state_def)
  have "procs created = []" "tasks created = []" "restart_count (st created) = 0"
    by (simp_all add: created_def default_container_state_def)
  then show ?thesis using start_Ok[OF s] r by (intro exI[of _ c]) simp
qed


section \<open>Stopping disarms the supervisor\<close>

definition disarmed :: "cont \<Rightarrow> bool" where
  "disarmed c \<longleftrightarrow> manual_stop c \<and> (present c \<longrightarrow> Armed \<notin> set (tasks c))"

definition starts :: "event \<Rightarrow> bool" where
  "starts e = (case e of UserStart _ \<Rightarrow> True | _ \<Rightarrow> False)"

lemma disarmed_step:
  assumes "step cfg c e c'" and "disarmed c" and "\<not> starts e"
  shows "disarmed c' \<and> set (procs c') \<subseteq> set (procs c)"
  using assms
proof (induction rule: step.induct)
  case (user_start p now c c')
  then show ?case by (simp add: starts_def)
next
  case (user_stop c r c')
  then have "c' = snd (stop c)" by simp
  then show ?case using user_stop.prems by (simp add: disarmed_def stop_fields)
next
  case (user_kill c c')
  then show ?case by (auto simp: disarmed_def kill_fields)
next
  case (user_pause on c c')
  then show ?case by (auto simp: pause_def disarmed_def split: if_splits)
next
  case (user_restart c)
  then show ?case by (auto simp: restart_begin_def disarmed_def)
next
  case (user_remove force c c')
  then show ?case using remove_fields[OF user_remove.hyps] by (simp add: disarmed_def)
next
  case (exits p c w oom now)
  then show ?case
    using proc_exit_fields(3,4)[of cfg p w oom now c] set_remove1_subset[of p "procs c"]
    by (auto simp: disarmed_def proc_exit_def split: prod.splits)
next
  case (task_begins c)
  then show ?case using set_remove1_subset[of Queued "tasks c"] by (auto simp: task_begin_def disarmed_def Let_def)
next
  case (task_wakes d c)
  then show ?case using set_remove1_subset[of "Sleeping d" "tasks c"]
    by (auto simp: task_wake_def disarmed_def Let_def)
next
  case (task_starts c p now)
  then have "\<not> present c" by (auto simp: disarmed_def)
  then show ?case using task_starts by (auto simp: task_start_def start_def disarmed_def)
qed

text \<open>Claim C28: Once a stop has set the stop flag and no supervised restart is past its last
  check, the supervisor starts nothing: whatever happens next, short of an explicit start, no
  new process ever appears.\<close>

theorem stop_disarms_supervisor:
  assumes "run cfg c es c'" and "manual_stop c" and "Armed \<notin> set (tasks c)" and "list_all (\<lambda>e. \<not> starts e) es"
  shows "set (procs c') \<subseteq> set (procs c)"
proof -
  have "disarmed c' \<and> set (procs c') \<subseteq> set (procs c)"
    using assms
  proof (induction rule: run.induct)
    case (run_nil c)
    then show ?case by (simp add: disarmed_def)
  next
    case (run_snoc c es c' e c'')
    then show ?case using disarmed_step[of cfg c' e c''] by auto
  qed
  then show ?thesis by blast
qed

theorem stop_disarms_supervisor_witness:
  "\<exists>c c'. run demo_cfg c [ProcExit 10 (WaitExited 1)] c' \<and> manual_stop c \<and> set (procs c') \<subseteq> {10}"
proof -
  let ?c = "created\<lparr>manual_stop := True, procs := [10]\<rparr>"
  have r: "run demo_cfg ?c ([] @ [ProcExit 10 (WaitExited 1)]) (proc_exit demo_cfg 10 (WaitExited 1) False [] ?c)"
    by (rule run_snoc[OF run_nil exits]) simp
  have "set (procs (proc_exit demo_cfg 10 (WaitExited 1) False [] ?c)) \<subseteq> set (procs ?c)"
    by (rule stop_disarms_supervisor[OF r]) (simp_all add: created_def starts_def)
  then show ?thesis using r by (intro exI[of _ ?c] exI conjI) auto
qed

section \<open>Interleavings the code does not exclude\<close>

lemma after_crash:
  assumes "rp_Name (policy cfg) = ''always''" and "\<not> autoremove cfg"
  shows "\<exists>c. run cfg created [UserStart 10, ProcExit 10 (WaitExited 1)] c \<and> status (st c) = Exited \<and> present c \<and>
             \<not> manual_stop c \<and> procs c = [] \<and> tasks c = [Queued]"
proof -
  obtain c where c: "run cfg created [UserStart 10] c" "present c" "\<not> manual_stop c" "procs c = [10]" "tasks c = []"
    using first_start[of cfg] by blast
  have "run cfg created ([UserStart 10] @ [ProcExit 10 (WaitExited 1)]) (proc_exit cfg 10 (WaitExited 1) False [] c)"
    by (rule run_snoc[OF c(1) exits]) (simp add: c)
  moreover have "present (proc_exit cfg 10 (WaitExited 1) False [] c)"
    "tasks (proc_exit cfg 10 (WaitExited 1) False [] c) = [Queued]"
    using assms c by (simp_all add: proc_exit_def reap_def restart_decision_def Let_def)
  ultimately show ?thesis
    using proc_exit_fields[of cfg 10 "WaitExited 1" False "[]" c] c(3,4) by auto
qed

text \<open>A paused container can be started again: the start is refused for running
  containers only, so the frozen process stays alive beside the new one.\<close>

theorem paused_start_runs_two_processes:
  "\<exists>c. run cfg created [UserStart 10, UserPause True, UserStart 11] c \<and>
       procs c = [11, 10] \<and> status (st c) = Running \<and> pid (st c) = 11"
proof -
  obtain c where c: "run cfg created [UserStart 10] c" "present c" "status (st c) = Running" "procs c = [10]"
    using first_start[of cfg] by blast
  define c1 where "c1 = c\<lparr>st := (st c)\<lparr>status := Paused\<rparr>\<rparr>"
  have "pause True c = Ok c1" using c by (simp add: pause_def c1_def)
  then have r1: "run cfg created ([UserStart 10] @ [UserPause True]) c1" by (rule run_snoc[OF c(1) user_pause])
  obtain c2 where "run cfg created (([UserStart 10] @ [UserPause True]) @ [UserStart 11]) c2" "start cfg 11 [] c1 = Ok c2"
    using run_start[OF r1, of 11] c by (auto simp: c1_def)
  then show ?thesis using start_Ok[of cfg 11 "[]" c1 c2] c by (intro exI[of _ c2]) (simp add: c1_def)
qed

text \<open>A stop that arrives while the supervisor waits before a restart cancels the restart
  but leaves the container in the status \<open>restarting\<close>, with no process and no task: from there
  nothing happens without another request.\<close>

theorem stop_in_backoff_strands:
  assumes "rp_Name (policy cfg) = ''always''" and "\<not> autoremove cfg"
  shows "\<exists>c. run cfg created [UserStart 10, ProcExit 10 (WaitExited 1), TaskBegin, UserStop, TaskWake] c \<and>
             status (st c) = Restarting \<and> procs c = [] \<and> tasks c = []"
proof -
  obtain c where c: "run cfg created [UserStart 10, ProcExit 10 (WaitExited 1)] c" "present c" "\<not> manual_stop c"
    "procs c = []" "tasks c = [Queued]"
    using after_crash[OF assms] by blast
  define d where "d = restart_delay_secs (restart_count (st c))"
  have r1: "run cfg created ([UserStart 10, ProcExit 10 (WaitExited 1)] @ [TaskBegin]) (task_begin c)"
    by (rule run_snoc[OF c(1) task_begins]) (simp add: c)
  have b: "task_begin c = c\<lparr>st := (st c)\<lparr>status := Restarting\<rparr>, tasks := [Sleeping d]\<rparr>"
    using c by (simp add: task_begin_def d_def)
  define c2 where "c2 = (task_begin c)\<lparr>manual_stop := True\<rparr>"
  have "stop (task_begin c) = (Ok (Inl (exit_code (st c))), c2)"
    using c by (simp add: stop_def b c2_def)
  then have r2: "run cfg created (([UserStart 10, ProcExit 10 (WaitExited 1)] @ [TaskBegin]) @ [UserStop]) c2"
    by (rule run_snoc[OF r1 user_stop])
  have r3: "run cfg created ((([UserStart 10, ProcExit 10 (WaitExited 1)] @ [TaskBegin]) @ [UserStop]) @ [TaskWake]) (task_wake d c2)"
    by (rule run_snoc[OF r2 task_wakes]) (simp add: c2_def b)
  then show ?thesis using c by (intro exI[of _ "task_wake d c2"]) (simp add: task_wake_def c2_def b)
qed

theorem stop_in_backoff_strands_witness:
  "\<exists>c. run demo_cfg created [UserStart 10, ProcExit 10 (WaitExited 1), TaskBegin, UserStop, TaskWake] c \<and>
       status (st c) = Restarting"
  using stop_in_backoff_strands[of demo_cfg] by (auto simp: demo_cfg_def)

text \<open>A start request between the reaper's decision and the first phase of the
  supervised restart leads to two live processes: the first phase overwrites the status of the
  running container with \<open>restarting\<close>, and the start that follows is no longer refused.\<close>

theorem queued_restart_double_start:
  assumes "rp_Name (policy cfg) = ''always''" and "\<not> autoremove cfg"
  shows "\<exists>c. run cfg created
               [UserStart 10, ProcExit 10 (WaitExited 1), UserStart 11, TaskBegin, TaskWake, TaskStart 12] c \<and>
             procs c = [12, 11]"
proof -
  obtain c where c: "run cfg created [UserStart 10, ProcExit 10 (WaitExited 1)] c" "present c"
    "status (st c) = Exited" "procs c = []" "tasks c = [Queued]"
    using after_crash[OF assms] by blast
  obtain c1 where r1: "run cfg created ([UserStart 10, ProcExit 10 (WaitExited 1)] @ [UserStart 11]) c1"
    and s1: "start cfg 11 [] c = Ok c1"
    using run_start[OF c(1,2), of 11] c by auto
  have c1: "present c1" "\<not> manual_stop c1" "procs c1 = [11]" "tasks c1 = [Queued]"
    using start_Ok[OF s1] c by simp_all
  define d where "d = restart_delay_secs (restart_count (st c1))"
  have r2: "run cfg created (([UserStart 10, ProcExit 10 (WaitExited 1)] @ [UserStart 11]) @ [TaskBegin]) (task_begin c1)"
    by (rule run_snoc[OF r1 task_begins]) (simp add: c1)
  have b: "task_begin c1 = c1\<lparr>st := (st c1)\<lparr>status := Restarting\<rparr>, tasks := [Sleeping d]\<rparr>"
    using c1 by (simp add: task_begin_def d_def)
  have r3: "run cfg created ((([UserStart 10, ProcExit 10 (WaitExited 1)] @ [UserStart 11]) @ [TaskBegin]) @ [TaskWake])
      (task_wake d (task_begin c1))"
    by (rule run_snoc[OF r2 task_wakes]) (simp add: b)
  have w: "task_wake d (task_begin c1) = c1\<lparr>st := (st c1)\<lparr>status := Restarting\<rparr>, tasks := [Armed]\<rparr>"
    using c1 by (simp add: task_wake_def b)
  have r4: "run cfg created (((([UserStart 10, ProcExit 10 (WaitExited 1)] @ [UserStart 11]) @ [TaskBegin]) @ [TaskWake])
      @ [TaskStart 12]) (task_start cfg 12 [] (task_wake d (task_begin c1)))"
    by (rule run_snoc[OF r3 task_starts]) (simp_all add: w c1)
  moreover have "procs (task_start cfg 12 [] (task_wake d (task_begin c1))) = [12, 11]"
    using c1 by (simp add: w task_start_def start_def)
  ultimately show ?thesis by (intro exI[of _ "task_start cfg 12 [] (task_wake d (task_begin c1))"]) simp
qed

theorem queued_restart_double_start_witness:
  "\<exists>c. run demo_cfg created
         [UserStart 10, ProcExit 10 (WaitExited 1), UserStart 11, TaskBegin, TaskWake, TaskStart 12] c \<and>
       procs c = [12, 11]"
  by (rule queued_restart_double_start) (simp_all add: demo_cfg_def)

section \<open>Health probes and boot\<close>

definition health_ok :: "health_state \<Rightarrow> bool" where
  "health_ok h \<longleftrightarrow> length (hs_Log h) \<le> 5 \<and> 0 \<le> hs_FailingStreak h"

fun probes :: "int \<Rightarrow> (bool \<times> health_log_entry) list \<Rightarrow> health_state \<Rightarrow> health_state" where
  "probes retries [] h = h"
| "probes retries ((starting, entry) # ps) h = probes retries ps (fst (probe_result retries starting entry h))"

lemma probe_result_ok: "health_ok h \<Longrightarrow> health_ok (fst (probe_result retries starting entry h))"
  by (auto simp: health_ok_def probe_result_def Let_def)

lemma probes_ok: "health_ok h \<Longrightarrow> health_ok (probes retries ps h)"
  by (induction retries ps h rule: probes.induct) (auto intro: probe_result_ok)

lemma unhealthy_stays:
  "hs_Status h = ''unhealthy'' \<Longrightarrow> \<forall>(s, e) \<in> set ps. hl_ExitCode e \<noteq> 0 \<Longrightarrow>
   hs_Status (probes retries ps h) = ''unhealthy'' \<and>
   hs_FailingStreak (probes retries ps h) = hs_FailingStreak h + int (length ps)"
  by (induction retries ps h rule: probes.induct) (auto simp: probe_result_def Let_def)

lemma failing_probes:
  assumes "\<forall>(s, e) \<in> set ps. \<not> s \<and> hl_ExitCode e \<noteq> 0" and "0 \<le> hs_FailingStreak h" and "hs_Status h \<noteq> ''unhealthy''"
    and "hs_FailingStreak h < retries"
  shows "hs_FailingStreak (probes retries ps h) = hs_FailingStreak h + int (length ps) \<and>
         (hs_Status (probes retries ps h) = ''unhealthy'' \<longleftrightarrow> retries \<le> hs_FailingStreak h + int (length ps))"
proof -
  show ?thesis
    using assms
  proof (induction retries ps h rule: probes.induct)
    case (1 retries h)
    then show ?case by simp
  next
    case (2 retries starting entry ps h)
    let ?h = "fst (probe_result retries starting entry h)"
    have streak: "hs_FailingStreak ?h = hs_FailingStreak h + 1"
      using "2.prems" by (auto simp: probe_result_def Let_def)
    show ?case
    proof (cases "retries \<le> hs_FailingStreak h + 1")
      case True
      then have "hs_Status ?h = ''unhealthy''" using "2.prems" by (auto simp: probe_result_def Let_def)
      moreover have "\<forall>(s, e) \<in> set ps. hl_ExitCode e \<noteq> 0" using "2.prems" by auto
      ultimately have "hs_Status (probes retries ps ?h) = ''unhealthy'' \<and>
          hs_FailingStreak (probes retries ps ?h) = hs_FailingStreak ?h + int (length ps)" by (rule unhealthy_stays)
      then show ?thesis using streak True by simp
    next
      case False
      then have "hs_Status ?h = hs_Status h" using "2.prems" by (auto simp: probe_result_def Let_def)
      then show ?thesis using "2.IH" "2.prems" streak False by auto
    qed
  qed
qed

text \<open>A container whose probes all fail after its start period becomes unhealthy exactly
  when the number of failures reaches the retry limit, and the probe log never holds more than
  five entries.\<close>

theorem unhealthy_after_retries:
  assumes "\<forall>(s, e) \<in> set ps. \<not> s \<and> hl_ExitCode e \<noteq> 0" and "1 \<le> retries"
  shows "(hs_Status (probes retries ps starting_health) = ''unhealthy'' \<longleftrightarrow> retries \<le> int (length ps)) \<and>
         length (hs_Log (probes retries ps starting_health)) \<le> 5"
proof -
  have "health_ok (probes retries ps starting_health)"
    by (rule probes_ok) (simp add: health_ok_def starting_health_def)
  then show ?thesis
    using failing_probes[of ps starting_health retries] assms by (simp add: health_ok_def starting_health_def)
qed

theorem unhealthy_after_retries_witness:
  "hs_Status (probes 2 (replicate 2 (False, \<lparr>hl_Start = [], hl_End = [], hl_ExitCode = 1, hl_Output = []\<rparr>)) starting_health)
     = ''unhealthy''"
  using unhealthy_after_retries[of "replicate 2 (False, \<lparr>hl_Start = [], hl_End = [], hl_ExitCode = 1, hl_Output = []\<rparr>)" 2]
  by simp

text \<open>After the boot reconciliation no record claims to be running or paused, and exactly
  the containers under \<open>always\<close> and \<open>unless-stopped\<close> that were running or paused are started
  again. A record that says \<open>restarting\<close> is left as it is and not started.\<close>

theorem reconcile_at_boot:
  "let (s', started) = reconcile pol now s in
     status s' \<notin> {Running, Paused} \<and>
     (started \<longleftrightarrow> status s \<in> {Running, Paused} \<and> rp_Name pol \<in> {''always'', ''unless-stopped''}) \<and>
     (status s = Restarting \<longrightarrow> s' = s \<and> \<not> started)"
  by (auto simp: reconcile_def)

theorem reconcile_at_boot_witness:
  "reconcile \<lparr>rp_Name = ''always'', rp_MaximumRetryCount = 0\<rparr> [] (default_container_state\<lparr>status := Restarting\<rparr>)
     = (default_container_state\<lparr>status := Restarting\<rparr>, False)"
  using reconcile_at_boot[of "\<lparr>rp_Name = ''always'', rp_MaximumRetryCount = 0\<rparr>" "[]"
      "default_container_state\<lparr>status := Restarting\<rparr>"]
  by (auto split: prod.splits)

end
