(* ===== verification/Compose_Model.thy ===== *)
theory Compose_Model
  imports Api_Types
begin

text \<open>
  Compose files (\<open>crates/ingot-cli/src/compose.rs\<close>): the data of services, the image decision, the
  dependency conditions, profiles, the inheritance of services through \<open>extends\<close>, the order in
  which services start, and the mounts of secrets and configs. File reads and the existence of
  files are parameters; a parse of a YAML file is the value it yields.
\<close>

section \<open>Data\<close>

datatype string_or_list = SL_String string | SL_List "string list"
datatype env_spec = Env_List "string list" | Env_Map "(string, json) assoc"
datatype depends_on_spec = Dep_List "string list" | Dep_Map "(string, json) assoc"
datatype build_spec = Build_Simple string | Build_Detailed "string option" "string option"
datatype secret_ref = Secret_Short string | Secret_Long string "string option"

record extends_spec =
  ext_file :: "string option"
  ext_service :: string

record resource_limits =
  rl_cpus :: "json option"
  rl_memory :: "json option"

record deploy_resources =
  dr_limits :: "resource_limits option"
  dr_reservations :: "resource_limits option"

record deploy_config =
  dc_resources :: "deploy_resources option"

record service_config =
  sc_image :: "string option"
  sc_build :: "build_spec option"
  sc_container_name :: "string option"
  sc_command :: "string_or_list option"
  sc_entrypoint :: "string_or_list option"
  sc_ports :: "string list"
  sc_environment :: "env_spec option"
  sc_volumes :: "string list"
  sc_depends_on :: "depends_on_spec option"
  sc_restart :: "string option"
  sc_working_dir :: "string option"
  sc_user :: "string option"
  sc_pull_policy :: "string option"
  sc_profiles :: "string list"
  sc_extends :: "extends_spec option"
  sc_deploy :: "deploy_config option"
  sc_secrets :: "secret_ref list"
  sc_configs :: "secret_ref list"

record secret_config =
  sec_file :: "string option"
  sec_environment :: "string option"
  sec_external :: "bool option"

record compose_file =
  cf_services :: "(string, service_config) assoc"
  cf_volumes :: "(string, string option) assoc"
  cf_secrets :: "(string, secret_config) assoc"
  cf_configs :: "(string, secret_config) assoc"

definition blank_service :: service_config where
  "blank_service =
     \<lparr>sc_image = None, sc_build = None, sc_container_name = None, sc_command = None, sc_entrypoint = None,
      sc_ports = [], sc_environment = None, sc_volumes = [], sc_depends_on = None, sc_restart = None,
      sc_working_dir = None, sc_user = None, sc_pull_policy = None, sc_profiles = [], sc_extends = None,
      sc_deploy = None, sc_secrets = [], sc_configs = []\<rparr>"

section \<open>JSON text\<close>

text \<open>\<open>Value::to_string\<close>: compact JSON with the escapes of \<open>serde_json\<close>.\<close>

definition hex_digit :: "nat \<Rightarrow> char" where
  "hex_digit d = (if d < 10 then char_of (48 + d) else char_of (87 + d))"

definition escape_char :: "char \<Rightarrow> string" where
  "escape_char c =
     (let n = (of_char c :: nat); bs = CHR 0x5C in
      if c = CHR 0x22 then [bs, c]
      else if c = bs then [bs, bs]
      else if n = 8 then [bs, CHR ''b'']
      else if n = 9 then [bs, CHR ''t'']
      else if n = 10 then [bs, CHR ''n'']
      else if n = 12 then [bs, CHR ''f'']
      else if n = 13 then [bs, CHR ''r'']
      else if n < 32 then [bs, CHR ''u'', CHR ''0'', CHR ''0'', hex_digit (n div 16), hex_digit (n mod 16)]
      else [c])"

definition show_json_string :: "string \<Rightarrow> string" where
  "show_json_string s = CHR 0x22 # concat (map escape_char s) @ [CHR 0x22]"

fun show_json :: "json \<Rightarrow> string" where
  "show_json JNull = ''null''"
| "show_json (JBool b) = (if b then ''true'' else ''false'')"
| "show_json (JInt i) = show_int i"
| "show_json (JFloat t) = t"
| "show_json (JStr s) = show_json_string s"
| "show_json (JArr xs) = ''['' @ join_with '','' (map show_json xs) @ '']''"
| "show_json (JObj m) = ''{'' @ join_with '','' (map (\<lambda>(k, v). show_json_string k @ '':'' @ show_json v) m) @ ''}''"

section \<open>Lists written as text\<close>

fun string_or_list_to_vec :: "string_or_list \<Rightarrow> string list" where
  "string_or_list_to_vec (SL_List l) = l"
| "string_or_list_to_vec (SL_String s) = split_whitespace s"

definition env_value :: "json \<Rightarrow> string" where
  "env_value v = (case v of JStr s \<Rightarrow> s | _ \<Rightarrow> show_json v)"

fun env_spec_to_vec :: "env_spec \<Rightarrow> string list" where
  "env_spec_to_vec (Env_List l) = l"
| "env_spec_to_vec (Env_Map m) = map (\<lambda>(k, v). k @ ''='' @ env_value v) m"

fun depends_on_to_vec :: "depends_on_spec \<Rightarrow> string list" where
  "depends_on_to_vec (Dep_List l) = l"
| "depends_on_to_vec (Dep_Map m) = assoc_keys m"

section \<open>Image decision and dependency conditions\<close>

datatype pull_action = Pull_Build | Pull_Always | Pull_If_Missing | Require_Local

datatype compose_error =
    Unknown_Pull_Policy string
  | Unknown_Condition string string
  | Extends_Unknown string
  | Extends_Needs_Service string
  | Extends_Cycle string
  | Extends_Remote string string
  | Extends_Not_Found string string
  | Extends_Unreadable string string
  | Bad_Limit string string
  | Bad_Target string string string
  | Undefined_Credential string string string
  | Unsupported_Credential string string string
  | Credential_Missing string string string
  | Bad_Ports string
  | Api_Failed string
  | Not_Started string string
  | Not_Ready string string
  | No_Image string
  | Image_Absent string string

definition decide_pull :: "string option \<Rightarrow> bool \<Rightarrow> bool \<Rightarrow> bool \<Rightarrow> (compose_error, pull_action) result" where
  "decide_pull policy has_image has_build force_build =
     (if force_build then Ok Pull_Build
      else let p = (case policy of None \<Rightarrow> ''missing'' | Some q \<Rightarrow> q) in
        if p = [] \<or> p = ''missing'' then
          (if \<not> has_image \<and> has_build then Ok Pull_Build else Ok Pull_If_Missing)
        else if p = ''always'' then
          (if \<not> has_image \<and> has_build then Ok Pull_Build else Ok Pull_Always)
        else if p = ''never'' then Ok Require_Local
        else if p = ''build'' then (if has_build then Ok Pull_Build else Ok Pull_If_Missing)
        else Err (Unknown_Pull_Policy p))"

datatype dep_condition = Cond_Started | Cond_Healthy | Cond_Completed

definition condition_text :: "json \<Rightarrow> string" where
  "condition_text v =
     (case v of
        JStr s \<Rightarrow> s
      | JObj m \<Rightarrow> (case assoc_get m ''condition'' of Some (JStr s) \<Rightarrow> s | _ \<Rightarrow> [])
      | _ \<Rightarrow> [])"

definition parse_condition :: "string \<Rightarrow> json \<Rightarrow> (compose_error, dep_condition) result" where
  "parse_condition n v =
     (let c = condition_text v in
      if c = [] \<or> c = ''service_started'' then Ok Cond_Started
      else if c = ''service_healthy'' then Ok Cond_Healthy
      else if c = ''service_completed_successfully'' then Ok Cond_Completed
      else Err (Unknown_Condition c n))"

fun parse_conditions :: "(string \<times> json) list \<Rightarrow> (compose_error, (string \<times> dep_condition) list) result" where
  "parse_conditions [] = Ok []"
| "parse_conditions ((n, v) # m) =
     and_then (parse_condition n v) (\<lambda>c. and_then (parse_conditions m) (\<lambda>cs. Ok ((n, c) # cs)))"

definition dependency_conditions ::
  "depends_on_spec option \<Rightarrow> (compose_error, (string \<times> dep_condition) list) result" where
  "dependency_conditions deps =
     (case deps of
        None \<Rightarrow> Ok []
      | Some (Dep_List names) \<Rightarrow> Ok (map (\<lambda>n. (n, Cond_Started)) names)
      | Some (Dep_Map m) \<Rightarrow>
          parse_conditions (map (\<lambda>n. (n, the (assoc_get m n))) (sort_by str_le (assoc_keys m))))"

section \<open>Project name and profiles\<close>

definition clean_project :: "string \<Rightarrow> string" where
  "clean_project s = filter (\<lambda>c. is_alphanumeric c \<or> c = CHR ''_'' \<or> c = CHR ''-'') (map to_lower s)"

text \<open>\<open>canonical_dir\<close> is the last component of the directory of the canonical compose path, when the
  file resolves.\<close>

definition resolve_project_name :: "string option \<Rightarrow> string option \<Rightarrow> string" where
  "resolve_project_name proj canonical_dir =
     (case proj of
        Some p \<Rightarrow> clean_project p
      | None \<Rightarrow>
         (case canonical_dir of
            Some d \<Rightarrow> if clean_project d \<noteq> [] then clean_project d else ''default''
          | None \<Rightarrow> ''default''))"

definition push_profiles :: "string list \<Rightarrow> string \<Rightarrow> string list" where
  "push_profiles out raw =
     foldl (\<lambda>out p. let p = trim p in if p \<noteq> [] \<and> p \<notin> set out then out @ [p] else out) out (split_on CHR '','' raw)"

definition active_profiles_from :: "string list \<Rightarrow> string option \<Rightarrow> string list" where
  "active_profiles_from cli env =
     (let out = foldl push_profiles [] cli in case env of Some e \<Rightarrow> push_profiles out e | None \<Rightarrow> out)"

definition service_enabled :: "service_config \<Rightarrow> string list \<Rightarrow> bool" where
  "service_enabled svc active = (sc_profiles svc = [] \<or> list_ex (\<lambda>p. p \<in> set active) (sc_profiles svc))"

end
