(* ===== verification/Service_Order.thy ===== *)
theory Service_Order
  imports Compose_Model
begin

text \<open>
  The order in which compose starts services: \<open>topological_sort\<close> of
  \<open>crates/ingot-cli/src/compose.rs\<close>. The loop is modelled with its counters, an \<open>unwrap\<close> or a
  subtraction that would fail being \<^const>\<open>None\<close>. It is shown that the loop ends and never fails, that the
  result lists every service once, and that with acyclic dependencies every service comes
  after its dependencies. The loop is Kahn's algorithm; its invariant counts, for every service,
  the dependency entries that are not in the result yet.
\<close>

section \<open>The algorithm\<close>

type_synonym degrees = "(string, nat) assoc"
type_synonym adjacency = "(string, string list) assoc"

definition add_edge :: "adjacency \<times> degrees \<Rightarrow> string \<times> string \<Rightarrow> adjacency \<times> degrees" where
  "add_edge g e =
     (case g of (adj, deg) \<Rightarrow> case e of (dep, name) \<Rightarrow>
       (assoc_put adj dep ((case assoc_get adj dep of Some l \<Rightarrow> l | None \<Rightarrow> []) @ [name]),
        assoc_put deg name ((case assoc_get deg name of Some d \<Rightarrow> d | None \<Rightarrow> 0) + 1)))"

text \<open>The dependency entries in the order of the two nested loops, those that name no service left out.\<close>

definition dependency_edges :: "(string, service_config) assoc \<Rightarrow> (string \<times> string) list" where
  "dependency_edges services =
     concat (map (\<lambda>(name, cfg).
       case sc_depends_on cfg of
         None \<Rightarrow> []
       | Some deps \<Rightarrow> map (\<lambda>dep. (dep, name)) (filter (has_key services) (depends_on_to_vec deps))) services)"

definition build_graph :: "(string, service_config) assoc \<Rightarrow> adjacency \<times> degrees" where
  "build_graph services =
     foldl add_edge (map (\<lambda>(name, _). (name, [])) services, map (\<lambda>(name, _). (name, 0)) services)
       (dependency_edges services)"

fun visit :: "string list \<Rightarrow> degrees \<Rightarrow> string list \<Rightarrow> (degrees \<times> string list) option" where
  "visit [] deg queue = Some (deg, queue)"
| "visit (n # ns) deg queue =
     (case assoc_get deg n of
        None \<Rightarrow> None
      | Some d \<Rightarrow>
          if d = 0 then None
          else visit ns (assoc_put deg n (d - 1)) (if d - 1 = 0 then sort_by str_le (queue @ [n]) else queue))"

lemma sum_assoc_put:
  "assoc_get deg n = Some d \<Longrightarrow> sum_list (map snd (assoc_put deg n d')) + d = sum_list (map snd deg) + (d' :: nat)"
  by (induction deg) (auto simp: assoc_get_def split: if_splits)

lemma visit_measure:
  "visit ns deg queue = Some (deg', queue') \<Longrightarrow>
    sum_list (map snd deg') + length queue' \<le> sum_list (map snd deg) + length queue"
proof (induction ns deg queue rule: visit.induct)
  case (1 deg queue)
  then show ?case by simp
next
  case (2 n ns deg queue)
  then obtain d where d: "assoc_get deg n = Some d" "d \<noteq> 0"
    by (auto split: option.splits if_splits)
  have "sum_list (map snd (assoc_put deg n (d - 1))) + 1 = sum_list (map snd deg)"
    using sum_assoc_put [OF d(1), of "d - 1"] d(2) by simp
  moreover have "sum_list (map snd deg') + length queue' \<le>
      sum_list (map snd (assoc_put deg n (d - 1))) + length (if d - 1 = 0 then sort_by str_le (queue @ [n]) else queue)"
    using 2 d by simp
  ultimately show ?case by (auto split: if_splits)
qed

function kahn :: "adjacency \<Rightarrow> degrees \<Rightarrow> string list \<Rightarrow> string list \<Rightarrow> string list option" where
  "kahn adj deg queue result =
     (if queue = [] then Some result
      else
        (case visit (case assoc_get adj (last queue) of Some ns \<Rightarrow> ns | None \<Rightarrow> []) deg (butlast queue) of
           None \<Rightarrow> None
         | Some (deg', queue') \<Rightarrow> kahn adj deg' queue' (result @ [last queue])))"
  by pat_completeness auto

termination
proof (relation "measure (\<lambda>(adj, deg, queue, result). sum_list (map snd deg) + length queue)", simp)
  fix adj deg queue result x deg' queue'
  assume "queue \<noteq> []"
    and "visit (case assoc_get adj (last queue) of Some ns \<Rightarrow> ns | None \<Rightarrow> []) deg (butlast queue) = Some x"
    and "(deg', queue') = x"
  then have "sum_list (map snd deg') + length queue' \<le> sum_list (map snd deg) + length (butlast queue)"
    using visit_measure by metis
  then show "((adj, deg', queue', result @ [last queue]), (adj, deg, queue, result))
      \<in> measure (\<lambda>(adj, deg, queue, result). sum_list (map snd deg) + length queue)"
    using \<open>queue \<noteq> []\<close> length_greater_0_conv [of queue] by (simp del: length_greater_0_conv)
qed

declare kahn.simps [simp del]

definition topological_sort :: "(string, service_config) assoc \<Rightarrow> string list option" where
  "topological_sort services =
     (case build_graph services of (adj, deg) \<Rightarrow>
        let queue = sort_by str_le (map fst (filter (\<lambda>(_, d). d = 0) deg)) in
        map_option (\<lambda>result.
            if length result < length services
            then foldl (\<lambda>result name. if name \<in> set result then result else result @ [name]) result (assoc_keys services)
            else result)
          (kahn adj deg queue []))"

section \<open>The graph\<close>

definition degree :: "degrees \<Rightarrow> string \<Rightarrow> nat" where
  "degree deg n = (case assoc_get deg n of Some d \<Rightarrow> d | None \<Rightarrow> 0)"

lemma degree_put [simp]: "degree (assoc_put deg n d) m = (if m = n then d else degree deg m)"
  by (simp add: degree_def)

lemma degree_get: "assoc_get deg n = Some d \<Longrightarrow> degree deg n = d"
  by (simp add: degree_def)

abbreviation neighbours :: "adjacency \<Rightarrow> string \<Rightarrow> string list" where
  "neighbours adj n \<equiv> (case assoc_get adj n of Some ns \<Rightarrow> ns | None \<Rightarrow> [])"

text \<open>The dependency entries of \<open>n\<close> that are not settled by \<open>ready\<close>.\<close>

definition pending :: "(string \<times> string) list \<Rightarrow> string set \<Rightarrow> string \<Rightarrow> nat" where
  "pending es ready n = length (filter (\<lambda>(d, m). m = n \<and> d \<notin> ready) es)"

lemma add_edge_pair: "add_edge (adj, deg) (a, b) =
    (assoc_put adj a (neighbours adj a @ [b]), assoc_put deg b (degree deg b + 1))"
  by (simp add: add_edge_def degree_def)

lemma fold_edges_neighbours:
  "neighbours (fst (foldl add_edge (adj, deg) es)) d = neighbours adj d @ map snd (filter (\<lambda>e. fst e = d) es)"
  by (induction es arbitrary: adj deg) (auto simp: add_edge_pair)

lemma fold_edges_degree:
  "degree (snd (foldl add_edge (adj, deg) es)) n = degree deg n + pending es {} n"
  by (induction es arbitrary: adj deg) (auto simp: add_edge_pair pending_def)

lemma fold_edges_keys:
  "fst ` set (snd (foldl add_edge (adj, deg) es)) = fst ` set deg \<union> snd ` set es"
proof (induction es arbitrary: adj deg)
  case (Cons e es)
  then show ?case by (cases e) (simp add: add_edge_pair set_assoc_put_keys insert_commute Un_insert_left)
qed simp

lemma fold_edges_wf: "assoc_wf deg \<Longrightarrow> assoc_wf (snd (foldl add_edge (adj, deg) es))"
  by (induction es arbitrary: adj deg) (auto simp: add_edge_pair)

lemma edge_services: "(d, n) \<in> set (dependency_edges services) \<Longrightarrow> d \<in> fst ` set services \<and> n \<in> fst ` set services"
  by (force simp: dependency_edges_def has_key_iff split: option.splits)

lemma assoc_get_const: "assoc_get (map (\<lambda>(name, _). (name, x)) m) n = (if n \<in> fst ` set m then Some x else None)"
  by (induction m) (auto simp: assoc_get_def)

lemma build_graph_facts:
  assumes "assoc_wf services" "build_graph services = (adj, deg)"
  shows "neighbours adj d = map snd (filter (\<lambda>e. fst e = d) (dependency_edges services))"
    and "degree deg n = pending (dependency_edges services) {} n"
    and "fst ` set deg = fst ` set services" and "assoc_wf deg"
proof -
  let ?adj = "map (\<lambda>(name, _). (name, [])) services :: adjacency"
  let ?deg = "map (\<lambda>(name, _). (name, 0)) services :: degrees"
  let ?g = "foldl add_edge (?adj, ?deg) (dependency_edges services)"
  have g: "adj = fst ?g" "deg = snd ?g" using assms(2) by (simp_all add: build_graph_def)
  have wf: "assoc_wf ?deg" using assms(1) by (simp add: assoc_wf_def comp_def case_prod_beta)
  have keys: "fst ` set ?deg = fst ` set services" by force
  show "neighbours adj d = map snd (filter (\<lambda>e. fst e = d) (dependency_edges services))"
    unfolding g fold_edges_neighbours by (simp add: assoc_get_const)
  show "degree deg n = pending (dependency_edges services) {} n"
    unfolding g fold_edges_degree by (simp add: assoc_get_const degree_def)
  show "fst ` set deg = fst ` set services"
    unfolding g fold_edges_keys keys using edge_services by fastforce
  show "assoc_wf deg" unfolding g by (rule fold_edges_wf [OF wf])
qed

section \<open>One visit\<close>

lemma visit_exact:
  assumes "\<And>n. n \<in> set ns \<Longrightarrow> n \<in> fst ` set deg \<and> count_list ns n \<le> degree deg n"
    and "distinct queue" "set queue \<inter> set ns = {}"
  shows "\<exists>deg' queue'. visit ns deg queue = Some (deg', queue')
    \<and> (\<forall>n. degree deg' n = degree deg n - count_list ns n)
    \<and> fst ` set deg' = fst ` set deg
    \<and> distinct queue' \<and> set queue' = set queue \<union> {n \<in> set ns. degree deg n = count_list ns n}"
  using assms
proof (induction ns arbitrary: deg queue)
  case Nil
  then show ?case by simp
next
  case (Cons m ns)
  obtain d where d: "assoc_get deg m = Some d" "0 < d" "degree deg m = d"
    using Cons.prems(1) [of m] by (auto simp: degree_def split: option.splits)
  let ?deg = "assoc_put deg m (d - 1)"
  let ?queue = "if d - 1 = 0 then sort_by str_le (queue @ [m]) else queue"
  have le: "n \<in> fst ` set ?deg \<and> count_list ns n \<le> degree ?deg n" if "n \<in> set ns" for n
    using Cons.prems(1) [of n] that d by (auto simp: set_assoc_put_keys split: if_splits)
  have later: "d - 1 = 0 \<Longrightarrow> m \<notin> set ns"
    using Cons.prems(1) [of m] d count_notin count_list_0_iff [of ns m] by auto
  have dq: "distinct ?queue"
    using Cons.prems(2,3) distinct_sort_by [of id str_le "queue @ [m]"] by auto
  have dis: "set ?queue \<inter> set ns = {}"
    using Cons.prems(3) later by auto
  obtain deg' queue' where IH: "visit ns ?deg ?queue = Some (deg', queue')"
    "\<And>n. degree deg' n = degree ?deg n - count_list ns n" "fst ` set deg' = fst ` set ?deg"
    "distinct queue'" "set queue' = set ?queue \<union> {n \<in> set ns. degree ?deg n = count_list ns n}"
    using Cons.IH [OF le dq dis] by blast
  have "visit (m # ns) deg queue = Some (deg', queue')"
    using IH(1) d by simp
  moreover have "degree deg' n = degree deg n - count_list (m # ns) n" for n
    using IH(2) [of n] d by auto
  moreover have "fst ` set deg' = fst ` set deg"
    using IH(3) Cons.prems(1) [of m] by (simp add: set_assoc_put_keys insert_absorb)
  moreover have "set queue' = set queue \<union> {n \<in> set (m # ns). degree deg n = count_list (m # ns) n}"
  proof (intro set_eqI)
    fix n
    have q': "n \<in> set queue' \<longleftrightarrow> n \<in> set ?queue \<or> n \<in> set ns \<and> degree ?deg n = count_list ns n"
      unfolding IH(5) by blast
    show "n \<in> set queue' \<longleftrightarrow> n \<in> set queue \<union> {n \<in> set (m # ns). degree deg n = count_list (m # ns) n}"
    proof (cases "n = m")
      case True
      have "m \<in> set ns \<longleftrightarrow> count_list ns m \<noteq> 0" by (simp add: count_list_0_iff)
      moreover have "m \<notin> set queue" using Cons.prems(3) by auto
      ultimately have "n \<in> set ?queue \<or> n \<in> set ns \<and> degree ?deg n = count_list ns n \<longleftrightarrow> d = Suc (count_list ns m)"
        using d later True by (cases "d - 1 = 0") auto
      then show ?thesis using \<open>m \<notin> set queue\<close> d True q' by simp
    next
      case False
      then show ?thesis unfolding q' by auto
    qed
  qed
  ultimately show ?case using IH(4) by blast
qed

section \<open>The loop\<close>

definition order_inv ::
  "(string \<times> string) list \<Rightarrow> string set \<Rightarrow> degrees \<Rightarrow> string list \<Rightarrow> string list \<Rightarrow> bool" where
  "order_inv es keys deg queue result \<longleftrightarrow>
     fst ` set deg = keys
     \<and> (\<forall>n. degree deg n = pending es (set result) n)
     \<and> distinct (result @ queue)
     \<and> set result \<union> set queue = {n \<in> keys. degree deg n = 0}
     \<and> (\<forall>i < length result. \<forall>d. (d, result ! i) \<in> set es \<longrightarrow> d \<in> set (take i result))"

lemma count_successors:
  "count_list (map snd (filter (\<lambda>e. fst e = d) es)) n = length (filter (\<lambda>(a, m). m = n \<and> a = d) es)"
  by (induction es) auto

lemma pending_insert:
  "d \<notin> ready \<Longrightarrow> pending es ready n = pending es (insert d ready) n + length (filter (\<lambda>(a, m). m = n \<and> a = d) es)"
  by (induction es) (auto simp: pending_def)

lemma pending_zero: "pending es ready n = 0 \<longleftrightarrow> (\<forall>d. (d, n) \<in> set es \<longrightarrow> d \<in> ready)"
  by (auto simp: pending_def filter_empty_conv)

lemma order_inv_step:
  assumes inv: "order_inv es keys deg queue result" and ne: "queue \<noteq> []"
    and edges: "\<And>d n. (d, n) \<in> set es \<Longrightarrow> n \<in> keys"
  shows "\<exists>deg' queue'. visit (map snd (filter (\<lambda>e. fst e = last queue) es)) deg (butlast queue) = Some (deg', queue')
     \<and> order_inv es keys deg' queue' (result @ [last queue])"
proof -
  let ?v = "last queue" and ?b = "butlast queue"
  define ns where "ns = map snd (filter (\<lambda>e. fst e = ?v) es)"
  have in_ns: "(?v, n) \<in> set es" if "n \<in> set ns" for n
    using that by (auto simp: ns_def)
  have queue: "set queue = insert ?v (set ?b)" using ne by (cases queue rule: rev_cases) auto
  have deg: "degree deg n = pending es (set result) n" for n using inv by (simp add: order_inv_def)
  have dist: "distinct (result @ ?b @ [?v])" using inv ne by (simp add: order_inv_def)
  have zero: "set result \<union> set ?b \<union> {?v} = {n \<in> keys. degree deg n = 0}"
    using inv unfolding order_inv_def queue by auto
  have split: "degree deg n = pending es (insert ?v (set result)) n + count_list ns n" for n
    unfolding deg ns_def count_successors by (rule pending_insert) (use dist in auto)
  have ns_iff: "n \<in> set ns \<longleftrightarrow> count_list ns n \<noteq> 0" for n by (simp add: count_list_0_iff)
  have "\<exists>deg' queue'. visit ns deg ?b = Some (deg', queue')
    \<and> (\<forall>n. degree deg' n = degree deg n - count_list ns n) \<and> fst ` set deg' = fst ` set deg
    \<and> distinct queue' \<and> set queue' = set ?b \<union> {n \<in> set ns. degree deg n = count_list ns n}"
  proof (rule visit_exact)
    fix n assume "n \<in> set ns"
    then show "n \<in> fst ` set deg \<and> count_list ns n \<le> degree deg n"
      using edges in_ns split [of n] inv by (auto simp: order_inv_def)
  next
    show "distinct ?b" using dist by simp
  next
    have "degree deg n = 0" if "n \<in> set ?b" for n using that zero by blast
    then show "set ?b \<inter> set ns = {}" using split ns_iff by (metis add_is_0 disjoint_iff)
  qed
  then obtain deg' queue' where v: "visit ns deg ?b = Some (deg', queue')"
    "\<And>n. degree deg' n = degree deg n - count_list ns n" "fst ` set deg' = fst ` set deg"
    "distinct queue'" "set queue' = set ?b \<union> {n \<in> set ns. degree deg n = count_list ns n}" by blast
  have deg': "degree deg' n = pending es (insert ?v (set result)) n" for n
    using v(2) [of n] split [of n] by simp
  have fresh: "n \<in> keys \<and> degree deg n \<noteq> 0" if "n \<in> set ns" for n
    using that edges in_ns ns_iff [of n] split [of n] by auto
  have zero': "set result \<union> {?v} \<union> set queue' = {n \<in> keys. degree deg' n = 0}"
  proof (intro set_eqI)
    fix n
    have "n \<in> keys \<and> degree deg n = 0 \<longleftrightarrow> n \<in> set result \<union> set ?b \<union> {?v}" unfolding zero by simp
    moreover have "n \<in> set queue' \<longleftrightarrow> n \<in> set ?b \<or> n \<in> set ns \<and> degree deg n = count_list ns n"
      unfolding v(5) by blast
    moreover have "degree deg' n = 0 \<longleftrightarrow> degree deg n = count_list ns n"
      using v(2) [of n] split [of n] by auto
    ultimately show "n \<in> set result \<union> {?v} \<union> set queue' \<longleftrightarrow> n \<in> {n \<in> keys. degree deg' n = 0}"
      using fresh [of n] ns_iff [of n] by (cases "n \<in> set ns") auto
  qed
  have "degree deg n = 0" if "n \<in> set result \<union> {?v}" for n
  proof -
    have "n \<in> {n \<in> keys. degree deg n = 0}" unfolding zero [symmetric] using that by auto
    then show ?thesis by simp
  qed
  then have "set ns \<inter> (set result \<union> {?v}) = {}"
    using fresh by blast
  then have "distinct (result @ [?v] @ queue')"
    using dist v(4,5) by auto
  moreover have "\<forall>i < length (result @ [?v]). \<forall>d. (d, (result @ [?v]) ! i) \<in> set es \<longrightarrow> d \<in> set (take i (result @ [?v]))"
  proof (intro allI impI)
    fix i d
    assume i: "i < length (result @ [?v])" and e: "(d, (result @ [?v]) ! i) \<in> set es"
    show "d \<in> set (take i (result @ [?v]))"
    proof (cases "i < length result")
      case True
      then show ?thesis using inv e by (simp add: order_inv_def nth_append)
    next
      case False
      then have "i = length result" using i by simp
      moreover have "degree deg ?v = 0" using zero by blast
      ultimately show ?thesis using e deg [of ?v] by (simp add: pending_zero)
    qed
  qed
  ultimately have "order_inv es keys deg' queue' (result @ [?v])"
    using v(3) inv deg' zero' by (simp add: order_inv_def Un_commute)
  then show ?thesis using v(1) unfolding ns_def by blast
qed

lemma order_inv_done:
  assumes "order_inv es keys deg [] result"
  shows "distinct result" and "set result \<subseteq> keys" and "n \<in> keys \<Longrightarrow> n \<notin> set result \<Longrightarrow> \<exists>d. (d, n) \<in> set es \<and> d \<notin> set result"
proof -
  have res: "set result = {n \<in> keys. degree deg n = 0}"
    using assms unfolding order_inv_def by (elim conjE) (simp only: list.set Un_empty_right)
  have deg: "degree deg n = pending es (set result) n"
    using assms unfolding order_inv_def by blast
  show "distinct result" using assms unfolding order_inv_def by (elim conjE) (simp only: append_Nil2)
  show "set result \<subseteq> keys" unfolding res by blast
  show "\<exists>d. (d, n) \<in> set es \<and> d \<notin> set result" if "n \<in> keys" "n \<notin> set result"
  proof -
    have "n \<notin> {n \<in> keys. degree deg n = 0}" using that(2) unfolding res .
    with that(1) have "degree deg n \<noteq> 0" by simp
    with deg have "pending es (set result) n \<noteq> 0" by (rule subst)
    then show ?thesis unfolding pending_zero by blast
  qed
qed

lemma kahn_inv:
  assumes "\<And>d n. (d, n) \<in> set es \<Longrightarrow> n \<in> keys"
  shows "(\<And>d. neighbours adj d = map snd (filter (\<lambda>e. fst e = d) es)) \<Longrightarrow> order_inv es keys deg queue result \<Longrightarrow>
    \<exists>deg' result'. kahn adj deg queue result = Some result' \<and> order_inv es keys deg' [] result'"
proof (induction adj deg queue result rule: kahn.induct)
  case (1 adj deg queue result)
  show ?case
  proof (cases "queue = []")
    case True
    then show ?thesis using "1.prems" by (auto simp: kahn.simps)
  next
    case False
    obtain deg' queue' where v: "visit (neighbours adj (last queue)) deg (butlast queue) = Some (deg', queue')"
      "order_inv es keys deg' queue' (result @ [last queue])"
      using order_inv_step [of es keys deg queue result] "1.prems"(2) False assms unfolding "1.prems"(1) by blast
    then show ?thesis
      using "1.IH" [OF False v(1) refl "1.prems"(1) v(2)] False by (subst kahn.simps) simp
  qed
qed

lemma foldl_append_missing:
  "distinct result \<Longrightarrow>
    (let r = foldl (\<lambda>result name. if name \<in> set result then result else result @ [name]) result ks
     in distinct r \<and> set r = set result \<union> set ks \<and> (\<exists>t. r = result @ t))"
proof (induction ks arbitrary: result)
  case (Cons k ks)
  show ?case
    using Cons.IH [of "if k \<in> set result then result else result @ [k]"] Cons.prems
    by (auto simp: Let_def split: if_splits)
qed simp

lemma topological_sort_inv:
  assumes "assoc_wf services"
  obtains order result deg where "topological_sort services = Some order"
    "order_inv (dependency_edges services) (fst ` set services) deg [] result"
    "distinct order" "set order = fst ` set services" "\<exists>t. order = result @ t"
proof -
  obtain adj deg where g: "build_graph services = (adj, deg)" by fastforce
  note facts = build_graph_facts [OF assms g]
  let ?es = "dependency_edges services" and ?keys = "fst ` set services"
  let ?queue = "sort_by str_le (map fst (filter (\<lambda>(_, d). d = 0) deg))"
  have deg: "(n, d) \<in> set deg \<Longrightarrow> degree deg n = d" for n d
    using assoc_get_iff [OF facts(4), of n d] by (simp add: degree_get)
  have "distinct (map fst (filter (\<lambda>(_, d). d = 0) deg))"
    using facts(4) by (simp add: assoc_wf_def distinct_map_filter)
  then have "distinct ?queue" using distinct_sort_by [of id str_le] by simp
  moreover have "set ?queue = {n \<in> ?keys. degree deg n = 0}"
    unfolding facts(3) [symmetric] using deg by force
  ultimately have start: "order_inv ?es ?keys deg ?queue []"
    using facts(2,3) by (simp add: order_inv_def)
  have "\<exists>deg' result. kahn adj deg ?queue [] = Some result \<and> order_inv ?es ?keys deg' [] result"
    by (rule kahn_inv [OF _ facts(1) start]) (use edge_services in blast)
  then obtain deg' result where k: "kahn adj deg ?queue [] = Some result" "order_inv ?es ?keys deg' [] result"
    by blast
  note r = order_inv_done(1,2) [OF k(2)]
  let ?all = "foldl (\<lambda>result name. if name \<in> set result then result else result @ [name]) result (assoc_keys services)"
  have card: "card ?keys = length services"
    using assms by (metis assoc_wf_def distinct_card length_map set_map)
  have all: "distinct ?all" "set ?all = ?keys" "\<exists>t. ?all = result @ t"
    using foldl_append_missing [OF r(1), of "assoc_keys services"] r(2) by (auto simp: Let_def assoc_keys_def)
  have sort: "topological_sort services = Some (if length result < length services then ?all else result)"
    using g k(1) by (simp add: topological_sort_def)
  show thesis
  proof (cases "length result < length services")
    case True
    then show ?thesis using sort by (intro that [of ?all deg' result] k(2) all) simp
  next
    case False
    then have "set result = ?keys"
      using r card by (intro card_seteq) (simp_all add: distinct_card)
    then show ?thesis using sort False r by (intro that [of result deg' result] k(2)) simp_all
  qed
qed

section \<open>Correctness\<close>

definition dependency_relation :: "(string, service_config) assoc \<Rightarrow> (string \<times> string) set" where
  "dependency_relation services = set (dependency_edges services)"

definition precedes :: "'a list \<Rightarrow> 'a \<Rightarrow> 'a \<Rightarrow> bool" where
  "precedes xs a b \<longleftrightarrow> (\<exists>us vs. xs = us @ b # vs \<and> a \<in> set us)"

text \<open>Claim C38: The order of services is total: the sort returns for every set of services, whatever
  their dependencies, and lists every service exactly once.\<close>

theorem topological_sort_total:
  assumes "assoc_wf services"
  shows "\<exists>order. topological_sort services = Some order \<and> distinct order \<and> set order = fst ` set services"
  using topological_sort_inv [OF assms] by metis

lemma sort_precedes:
  assumes "assoc_wf services" "acyclic (dependency_relation services)"
    and "(dep, name) \<in> dependency_relation services" "topological_sort services = Some order"
  shows "precedes order dep name"
proof -
  let ?es = "dependency_edges services" and ?keys = "fst ` set services"
  obtain order' result deg where o: "topological_sort services = Some order'"
    "order_inv ?es ?keys deg [] result" "distinct order'" "set order' = ?keys" "\<exists>t. order' = result @ t"
    by (rule topological_sort_inv [OF assms(1)])
  have "wf (dependency_relation services)"
    using assms(2) by (intro finite_acyclic_wf) (simp_all add: dependency_relation_def)
  have all: "?keys \<subseteq> set result"
  proof (rule ccontr)
    assume "\<not> ?keys \<subseteq> set result"
    then obtain n where "n \<in> ?keys - set result" by blast
    from wfE_min [OF \<open>wf _\<close> this] obtain z where z: "z \<in> ?keys - set result"
      "\<And>y. (y, z) \<in> dependency_relation services \<Longrightarrow> y \<notin> ?keys - set result" by blast
    then obtain d where "(d, z) \<in> set ?es" "d \<notin> set result"
      using order_inv_done(3) [OF o(2)] by blast
    then show False using z(2) [of d] edge_services by (auto simp: dependency_relation_def)
  qed
  have "name \<in> ?keys" using assms(3) edge_services by (auto simp: dependency_relation_def)
  then obtain i where i: "i < length result" "result ! i = name"
    using all by (metis in_set_conv_nth subsetD)
  then have "dep \<in> set (take i result)"
    using o(2) assms(3) by (auto simp: order_inv_def dependency_relation_def)
  moreover have "result = take i result @ name # drop (Suc i) result"
    using i id_take_nth_drop by blast
  moreover obtain t where "order' = result @ t" using o(5) by blast
  ultimately have "order' = take i result @ name # (drop (Suc i) result @ t)" "dep \<in> set (take i result)"
    by (metis append.assoc append_Cons)+
  then show ?thesis using assms(4) o(1) unfolding precedes_def by auto
qed

text \<open>When the dependencies have no cycle, every service comes after each of its
  dependencies in the start order.\<close>

theorem dependencies_start_first:
  assumes "assoc_wf services" "acyclic (dependency_relation services)"
    and "(dep, name) \<in> dependency_relation services" "topological_sort services = Some order"
  shows "precedes order dep name"
  using assms by (rule sort_precedes)

definition web_stack :: "(string, service_config) assoc" where
  "web_stack =
     [(''web'', blank_service\<lparr>sc_depends_on := Some (Dep_List [''api'', ''cache''])\<rparr>),
      (''api'', blank_service\<lparr>sc_depends_on := Some (Dep_List [''db''])\<rparr>),
      (''cache'', blank_service), (''db'', blank_service)]"

lemma web_stack_facts:
  "assoc_wf web_stack" "dependency_edges web_stack = [(''api'', ''web''), (''cache'', ''web''), (''db'', ''api'')]"
  "topological_sort web_stack = Some [''db'', ''cache'', ''api'', ''web'']"
  by code_simp+

theorem topological_sort_total_witness:
  "\<exists>order. topological_sort web_stack = Some order \<and> distinct order \<and> set order = fst ` set web_stack"
  by (rule topological_sort_total) (rule web_stack_facts)

lemma web_stack_acyclic: "acyclic (dependency_relation web_stack)"
proof -
  let ?rank = "\<lambda>s. if s = ''db'' \<or> s = ''cache'' then 0 else if s = ''api'' then 1 else (2 :: nat)"
  have "dependency_relation web_stack \<subseteq> measure ?rank"
    by (simp add: dependency_relation_def web_stack_facts)
  then show ?thesis by (meson acyclic_subset wf_acyclic wf_measure)
qed

theorem dependencies_start_first_witness: "precedes [''db'', ''cache'', ''api'', ''web''] ''db'' ''api''"
  by (rule dependencies_start_first [OF web_stack_facts(1) web_stack_acyclic _ web_stack_facts(3)])
     (simp add: dependency_relation_def web_stack_facts)

text \<open>A cycle is not reported: its members are appended in the order of the map.\<close>

lemma cyclic_services_accepted:
  "topological_sort [(''a'', blank_service\<lparr>sc_depends_on := Some (Dep_List [''b''])\<rparr>),
                     (''b'', blank_service\<lparr>sc_depends_on := Some (Dep_List [''a''])\<rparr>)] = Some [''a'', ''b'']"
  by code_simp

end
