(* ===== verification/Compose_Extends.thy ===== *)
theory Compose_Extends
  imports Compose_Model
begin

text \<open>
  Inheritance between compose services (\<open>apply_extends\<close> and \<open>resolve_service\<close> of
  \<open>crates/ingot-cli/src/compose.rs\<close>). The files a service may extend are a parameter: for a path,
  whether it is missing, unreadable, or parses to a compose file. The recursion carries fuel,
  because it follows files by their textual path: within one file the number of services is
  enough fuel, and across files the cycle check is by text and can be evaded.
\<close>

section \<open>Paths as text\<close>

text \<open>\<open>Path\<close> ignores trailing separators and trailing \<open>.\<close> components; the list is the path reversed.\<close>

fun trim_tail_rev :: "string \<Rightarrow> string" where
  "trim_tail_rev (c # r) =
     (if c = CHR ''/'' then (if r = [] then [c] else trim_tail_rev r)
      else if c = CHR ''.'' then
        (case r of d # r' \<Rightarrow> if d = CHR ''/'' then (if r' = [] then [d] else trim_tail_rev r') else c # r
                 | [] \<Rightarrow> c # r)
      else c # r)"
| "trim_tail_rev [] = []"

definition path_parent :: "string \<Rightarrow> string option" where
  "path_parent p =
     (let t = trim_tail_rev (rev p) in
      if t = [] \<or> t = ''/'' then None
      else let d = dropWhile (\<lambda>c. c \<noteq> CHR ''/'') t in
        if d = [] then Some [] else Some (rev (trim_tail_rev d)))"

definition join_path :: "string \<Rightarrow> string \<Rightarrow> string" where
  "join_path d f =
     (if starts_with ''/'' f then f
      else if d = [] \<or> ends_with ''/'' d then d @ f
      else d @ ''/'' @ f)"

section \<open>Resolution\<close>

datatype file_state = Absent | Unreadable | Parsed compose_file

definition extends_id :: "string \<Rightarrow> string \<Rightarrow> string" where
  "extends_id path service = path @ ''#'' @ service"

definition opt_or :: "'a option \<Rightarrow> 'a option \<Rightarrow> 'a option" where
  "opt_or over base = (if over = None then base else over)"

definition list_or :: "'a list \<Rightarrow> 'a list \<Rightarrow> 'a list" where
  "list_or over base = (if over = [] then base else over)"

text \<open>The shallow merge of the serialised services: unset options and empty lists are not
  serialised, so the base's value stays; the \<open>extends\<close> key never survives.\<close>

definition merge_service :: "service_config \<Rightarrow> service_config \<Rightarrow> service_config" where
  "merge_service base over =
     \<lparr>sc_image = opt_or (sc_image over) (sc_image base),
      sc_build = opt_or (sc_build over) (sc_build base),
      sc_container_name = opt_or (sc_container_name over) (sc_container_name base),
      sc_command = opt_or (sc_command over) (sc_command base),
      sc_entrypoint = opt_or (sc_entrypoint over) (sc_entrypoint base),
      sc_ports = list_or (sc_ports over) (sc_ports base),
      sc_environment = opt_or (sc_environment over) (sc_environment base),
      sc_volumes = list_or (sc_volumes over) (sc_volumes base),
      sc_depends_on = opt_or (sc_depends_on over) (sc_depends_on base),
      sc_restart = opt_or (sc_restart over) (sc_restart base),
      sc_working_dir = opt_or (sc_working_dir over) (sc_working_dir base),
      sc_user = opt_or (sc_user over) (sc_user base),
      sc_pull_policy = opt_or (sc_pull_policy over) (sc_pull_policy base),
      sc_profiles = list_or (sc_profiles over) (sc_profiles base),
      sc_extends = None,
      sc_deploy = opt_or (sc_deploy over) (sc_deploy base),
      sc_secrets = list_or (sc_secrets over) (sc_secrets base),
      sc_configs = list_or (sc_configs over) (sc_configs base)\<rparr>"

definition merge_result ::
  "service_config \<Rightarrow> (compose_error, service_config) result option \<Rightarrow> (compose_error, service_config) result option" where
  "merge_result svc r = map_option (\<lambda>r. and_then r (\<lambda>base. Ok (merge_service base svc))) r"

fun resolve_service ::
  "(string \<Rightarrow> file_state) \<Rightarrow> nat \<Rightarrow> string \<Rightarrow> compose_file \<Rightarrow> string \<Rightarrow> string list
    \<Rightarrow> (compose_error, service_config) result option" where
  "resolve_service fs 0 path compose name stack = None"
| "resolve_service fs (Suc fuel) path compose name stack =
     (case assoc_get (cf_services compose) name of
        None \<Rightarrow> Some (Err (Extends_Unknown name))
      | Some svc \<Rightarrow>
         (case sc_extends svc of
            None \<Rightarrow> Some (Ok svc)
          | Some ext \<Rightarrow>
              if ext_service ext = [] then Some (Err (Extends_Needs_Service name))
              else
               (case ext_file ext of
                  None \<Rightarrow>
                    let i = extends_id path (ext_service ext) in
                    if i \<in> set stack then Some (Err (Extends_Cycle name))
                    else if \<not> has_key (cf_services compose) (ext_service ext) then Some (Err (Extends_Unknown name))
                    else merge_result svc (resolve_service fs fuel path compose (ext_service ext) (stack @ [i]))
                | Some f \<Rightarrow>
                    if contains_str ''://'' f \<or> starts_with ''git@'' f then Some (Err (Extends_Remote name f))
                    else
                      let base_path = join_path (case path_parent path of Some d \<Rightarrow> d | None \<Rightarrow> ''.'') f in
                      (case fs base_path of
                         Absent \<Rightarrow> Some (Err (Extends_Not_Found name base_path))
                       | Unreadable \<Rightarrow> Some (Err (Extends_Unreadable name base_path))
                       | Parsed base_file \<Rightarrow>
                           if \<not> has_key (cf_services base_file) (ext_service ext) then Some (Err (Extends_Unknown name))
                           else let i = extends_id base_path (ext_service ext) in
                             if i \<in> set stack then Some (Err (Extends_Cycle name))
                             else merge_result svc
                               (resolve_service fs fuel base_path base_file (ext_service ext) (stack @ [i]))))))"

fun apply_extends_names ::
  "(string \<Rightarrow> file_state) \<Rightarrow> nat \<Rightarrow> string \<Rightarrow> compose_file \<Rightarrow> string list \<Rightarrow> (string, service_config) assoc
    \<Rightarrow> (compose_error, (string, service_config) assoc) result option" where
  "apply_extends_names fs fuel path compose [] merged = Some (Ok merged)"
| "apply_extends_names fs fuel path compose (n # ns) merged =
     (case resolve_service fs fuel path compose n [extends_id path n] of
        None \<Rightarrow> None
      | Some (Inl e) \<Rightarrow> Some (Err e)
      | Some (Inr svc) \<Rightarrow> apply_extends_names fs fuel path compose ns (assoc_put merged n svc))"

definition apply_extends ::
  "(string \<Rightarrow> file_state) \<Rightarrow> nat \<Rightarrow> string \<Rightarrow> compose_file \<Rightarrow> (compose_error, compose_file) result option" where
  "apply_extends fs fuel path compose =
     map_option (\<lambda>r. and_then r (\<lambda>m. Ok (compose\<lparr>cf_services := m\<rparr>)))
       (apply_extends_names fs fuel path compose (assoc_keys (cf_services compose)) (cf_services compose))"

section \<open>Termination within one file\<close>

definition same_file :: "compose_file \<Rightarrow> bool" where
  "same_file compose = list_all (\<lambda>(_, svc). case sc_extends svc of Some e \<Rightarrow> ext_file e = None | None \<Rightarrow> True) (cf_services compose)"

lemma extends_id_inj: "extends_id p a = extends_id p b \<longleftrightarrow> a = b"
  by (simp add: extends_id_def)

text \<open>The stack holds the identities of distinct services of the file, so it never outgrows them.\<close>

definition stack_ok :: "string \<Rightarrow> compose_file \<Rightarrow> string list \<Rightarrow> bool" where
  "stack_ok path compose stack \<longleftrightarrow> distinct stack \<and> set stack \<subseteq> extends_id path ` fst ` set (cf_services compose)"

lemma stack_bound: "stack_ok path compose stack \<Longrightarrow> length stack \<le> length (cf_services compose)"
proof -
  assume s: "stack_ok path compose stack"
  then have "length stack \<le> card (extends_id path ` fst ` set (cf_services compose))"
    by (metis List.finite_set card_mono distinct_card finite_imageI stack_ok_def)
  also have "\<dots> \<le> length (cf_services compose)"
    by (metis List.finite_set card_image_le card_length finite_imageI le_trans)
  finally show ?thesis .
qed

lemma resolve_same_file:
  assumes "same_file compose"
  shows "stack_ok path compose stack \<Longrightarrow> length (cf_services compose) < fuel + length stack \<Longrightarrow>
    resolve_service fs fuel path compose name stack \<noteq> None"
proof (induction fuel arbitrary: name stack)
  case 0
  then show ?case using stack_bound [of path compose stack] by simp
next
  case (Suc fuel)
  show ?case
  proof (cases "assoc_get (cf_services compose) name")
    case None
    then show ?thesis by simp
  next
    case svc: (Some svc)
    show ?thesis
    proof (cases "sc_extends svc")
      case None
      then show ?thesis using svc by simp
    next
      case (Some ext)
      have f: "ext_file ext = None"
        using assms svc Some by (force simp: same_file_def list_all_iff dest: assoc_get_Some_in)
      let ?i = "extends_id path (ext_service ext)"
      have "stack_ok path compose (stack @ [?i])"
        if "?i \<notin> set stack" "has_key (cf_services compose) (ext_service ext)"
        using Suc.prems(1) that by (auto simp: stack_ok_def has_key_iff)
      then have "resolve_service fs fuel path compose (ext_service ext) (stack @ [?i]) \<noteq> None"
        if "?i \<notin> set stack" "has_key (cf_services compose) (ext_service ext)"
        using Suc.IH [of "stack @ [?i]" "ext_service ext"] Suc.prems(2) that by simp
      then show ?thesis using svc Some f by (auto simp: Let_def merge_result_def)
    qed
  qed
qed

lemma apply_names_total:
  assumes "same_file compose" "length (cf_services compose) \<le> fuel" "set ns \<subseteq> fst ` set (cf_services compose)"
  shows "apply_extends_names fs fuel path compose ns merged \<noteq> None"
  using assms(3)
proof (induction ns arbitrary: merged)
  case (Cons n ns)
  have "resolve_service fs fuel path compose n [extends_id path n] \<noteq> None"
    by (rule resolve_same_file [OF assms(1)]) (use Cons.prems assms(2) in \<open>auto simp: stack_ok_def\<close>)
  then show ?case using Cons by (auto split: sum.splits)
qed simp

section \<open>What a resolved service is\<close>

lemma merge_result_Ok:
  "merge_result svc r = Some (Ok s) \<longleftrightarrow> (\<exists>base. r = Some (Ok base) \<and> s = merge_service base svc)"
  by (auto simp: merge_result_def and_then_Ok)

text \<open>A successful resolution depends neither on the fuel nor on the stack.\<close>

lemma resolve_unique:
  "resolve_service fs fuel path compose name stack = Some (Ok s) \<Longrightarrow>
   resolve_service fs fuel' path compose name stack' = Some (Ok s') \<Longrightarrow> s = s'"
proof (induction fuel arbitrary: fuel' path compose name stack stack' s s')
  case (Suc fuel)
  from Suc.prems(2) obtain f' where f': "fuel' = Suc f'" by (cases fuel') auto
  show ?case
    using Suc.prems Suc.IH unfolding f'
    by (auto simp: Let_def merge_result_Ok split: option.splits if_splits file_state.splits) blast+
qed simp

lemma resolve_no_extends:
  "resolve_service fs fuel path compose name stack = Some (Ok s) \<Longrightarrow> sc_extends s = None"
  by (cases fuel)
     (auto simp: Let_def merge_result_Ok merge_service_def split: option.splits if_splits file_state.splits)

lemma apply_names_Ok:
  assumes "apply_extends_names fs fuel path compose ns merged = Some (Ok m)"
  shows "assoc_get m n = (if n \<in> set ns then assoc_get m n else assoc_get merged n)"
    and "n \<in> set ns \<Longrightarrow> \<exists>s. assoc_get m n = Some s \<and> (\<exists>stack. resolve_service fs fuel path compose n stack = Some (Ok s))"
  using assms
proof (induction ns arbitrary: merged)
  case Nil
  {
    case 1 then show ?case by simp
  next
    case 2 then show ?case by simp
  }
next
  case (Cons a ns)
  {
    case 1
    then show ?case using Cons.IH(1) by (auto split: option.splits sum.splits)
  next
    case 2
    then obtain s where s: "resolve_service fs fuel path compose a [extends_id path a] = Some (Ok s)"
      "apply_extends_names fs fuel path compose ns (assoc_put merged a s) = Some (Ok m)"
      by (auto split: option.splits sum.splits)
    show ?case
    proof (cases "n \<in> set ns")
      case True
      then show ?thesis using Cons.IH(2) [OF _ s(2)] by simp
    next
      case False
      then have "assoc_get m n = assoc_get (assoc_put merged a s) n"
        using Cons.IH(1) [OF s(2)] by simp
      then show ?thesis using s(1) 2(1) False by auto
    qed
  }
qed

text \<open>Resolving the inheritance of a compose file whose services extend services of the
  same file always returns: fuel of one step per service is enough.\<close>

theorem extends_same_file_total:
  assumes "same_file compose" "length (cf_services compose) \<le> fuel"
  shows "apply_extends fs fuel path compose \<noteq> None"
  using apply_names_total [OF assms, of "assoc_keys (cf_services compose)"]
  by (simp add: apply_extends_def assoc_keys_def)

lemma merge_keys:
  "sc_image (merge_service base svc) = (if sc_image svc = None then sc_image base else sc_image svc)"
  "sc_command (merge_service base svc) = (if sc_command svc = None then sc_command base else sc_command svc)"
  "sc_environment (merge_service base svc) = (if sc_environment svc = None then sc_environment base else sc_environment svc)"
  "sc_ports (merge_service base svc) = (if sc_ports svc = [] then sc_ports base else sc_ports svc)"
  "sc_volumes (merge_service base svc) = (if sc_volumes svc = [] then sc_volumes base else sc_volumes svc)"
  by (simp_all add: merge_service_def opt_or_def list_or_def)


section \<open>A cycle through files\<close>

text \<open>A service that extends itself through \<open>x/../compose.yml\<close> is never recognised as a cycle.\<close>

definition looping_file :: compose_file where
  "looping_file = \<lparr>cf_services = [(''a'', blank_service\<lparr>sc_extends := Some \<lparr>ext_file = Some ''x/../compose.yml'', ext_service = ''a''\<rparr>\<rparr>)],
     cf_volumes = [], cf_secrets = [], cf_configs = []\<rparr>"

definition climb :: "nat \<Rightarrow> string" where
  "climb k = concat (replicate k ''x/../'') @ ''compose.yml''"

lemma concat_replicate_snoc: "concat (replicate (Suc j) w) = concat (replicate j w) @ w"
  by (induction j) simp_all

lemma climb_step: "join_path (case path_parent (climb k) of Some d \<Rightarrow> d | None \<Rightarrow> ''.'') ''x/../compose.yml'' = climb (Suc k)"
proof (cases k)
  case 0
  have "join_path (case path_parent (climb 0) of Some d \<Rightarrow> d | None \<Rightarrow> ''.'') ''x/../compose.yml'' = climb (Suc 0)"
    by code_simp
  then show ?thesis using 0 by simp
next
  case (Suc j)
  let ?d = "concat (replicate j ''x/../'') @ ''x/..''"
  have "climb k = ?d @ ''/compose.yml''"
    unfolding climb_def Suc concat_replicate_snoc by simp
  then have "path_parent (climb k) = Some ?d"
    by (simp add: path_parent_def)
  moreover have "join_path ?d ''x/../compose.yml'' = ?d @ ''/'' @ ''x/../compose.yml''"
    by (simp add: join_path_def starts_with_iff ends_with_iff)
  ultimately show ?thesis
    unfolding climb_def Suc concat_replicate_snoc by simp
qed

lemma climb_length: "length (climb k) = 5 * k + 11"
  by (induction k) (simp_all add: climb_def)

text \<open>The cycle check of \<open>extends\<close> compares textual paths: for a service that extends itself
  through a path with \<open>..\<close>, in a file system where every spelling of the file is readable,
  no amount of recursion ends it.\<close>

theorem extends_cycle_by_path_undetected:
  "resolve_service (\<lambda>_. Parsed looping_file) fuel ''compose.yml'' looping_file ''a'' [extends_id ''compose.yml'' ''a''] = None"
proof -
  have "resolve_service (\<lambda>_. Parsed looping_file) fuel (climb k) looping_file ''a'' stack = None"
    if "list_all (\<lambda>s. length s \<le> length (climb k) + 2) stack" for k stack
    using that
  proof (induction fuel arbitrary: k stack)
    case (Suc fuel)
    let ?i = "extends_id (climb (Suc k)) ''a''"
    have "?i \<notin> set stack"
      using Suc.prems by (auto simp: list_all_iff extends_id_def climb_length)
    moreover have "list_all (\<lambda>s. length s \<le> length (climb (Suc k)) + 2) (stack @ [?i])"
      using Suc.prems by (auto simp: list_all_iff extends_id_def climb_length)
    then have "resolve_service (\<lambda>_. Parsed looping_file) fuel (climb (Suc k)) looping_file ''a'' (stack @ [?i]) = None"
      by (rule Suc.IH)
    moreover have "\<not> contains_str ''://'' ''x/../compose.yml''" "\<not> starts_with ''git@'' ''x/../compose.yml''" by code_simp+
    moreover have "has_key (cf_services looping_file) ''a''"
      "\<And>svc. assoc_get (cf_services looping_file) ''a'' = Some svc \<longleftrightarrow>
         svc = blank_service\<lparr>sc_extends := Some \<lparr>ext_file = Some ''x/../compose.yml'', ext_service = ''a''\<rparr>\<rparr>"
      by (auto simp: looping_file_def has_key_def assoc_get_def)
    ultimately show ?case by (simp add: climb_step merge_result_def Let_def split: option.splits)
  qed simp
  from this [of 0] show ?thesis by (simp add: climb_def extends_id_def)
qed

definition chain_file :: compose_file where
  "chain_file = \<lparr>cf_services =
       [(''web'', blank_service\<lparr>sc_user := Some ''www'', sc_extends := Some \<lparr>ext_file = None, ext_service = ''base''\<rparr>\<rparr>),
        (''base'', blank_service\<lparr>sc_image := Some ''app'', sc_user := Some ''root''\<rparr>)],
     cf_volumes = [], cf_secrets = [], cf_configs = []\<rparr>"

theorem extends_same_file_total_witness: "apply_extends (\<lambda>_. Absent) 2 ''compose.yml'' chain_file \<noteq> None"
  by (rule extends_same_file_total) code_simp+


end
