(* ===== verification/Resource_Limits.thy ===== *)
theory Resource_Limits
  imports Complex_Main Compose_Model
begin

text \<open>
  The limits of \<open>deploy.resources\<close> (\<open>parse_cpus_value\<close>, \<open>parse_memory_value\<close>, \<open>deploy_limits\<close> of
  \<open>crates/ingot-cli/src/compose.rs\<close>). They go through 64-bit floating point: a finite value is the
  rational number it denotes, rounding is to the nearest with ties to even at 53 bits of
  precision and a smallest exponent of \<open>-1074\<close>, and the conversion to \<open>i64\<close> saturates.
\<close>

section \<open>Floating point\<close>

datatype f64 = Fin rat | Infinite | Not_A_Number

fun bits_up :: "nat \<Rightarrow> nat \<Rightarrow> nat" where
  "bits_up 0 n = 0"
| "bits_up (Suc fuel) n = (if n = 0 then 0 else Suc (bits_up fuel (n div 2)))"

text \<open>The position of the leading bit of a positive number: the number of bits of a natural is
  found by halving, with the number itself as fuel.\<close>

definition nat_bits :: "nat \<Rightarrow> nat" where
  "nat_bits n = bits_up n n"

definition two_to :: "int \<Rightarrow> rat" where
  "two_to k = (if 0 \<le> k then 2 ^ nat k else 1 / 2 ^ nat (- k))"

definition leading_exponent :: "rat \<Rightarrow> int" where
  "leading_exponent x =
     (case quotient_of x of (a, b) \<Rightarrow>
        let k = int (nat_bits (nat a)) - int (nat_bits (nat b)) in
        if two_to k \<le> x then k else k - 1)"

definition round_even :: "rat \<Rightarrow> int" where
  "round_even q =
     (let f = \<lfloor>q\<rfloor>; r = q - of_int f in
      if r < 1 / 2 then f else if 1 / 2 < r then f + 1 else if even f then f else f + 1)"

definition round_f64 :: "rat \<Rightarrow> f64" where
  "round_f64 x =
     (if x = 0 then Fin 0
      else let e = max (leading_exponent \<bar>x\<bar>) (- 1022); u = two_to (e - 52);
               y = of_int (round_even (\<bar>x\<bar> / u)) * u
           in if two_to 1024 \<le> y then Infinite else Fin (if x < 0 then - y else y))"

fun f64_times :: "f64 \<Rightarrow> rat \<Rightarrow> f64" where
  "f64_times (Fin a) b = round_f64 (a * b)"
| "f64_times Infinite b = Infinite"
| "f64_times Not_A_Number b = Not_A_Number"

text \<open>\<open>f64::round\<close> of a non-negative value and the saturating cast to \<open>i64\<close>.\<close>

definition i64_max :: int where "i64_max = 9223372036854775807"

fun round_to_i64 :: "f64 \<Rightarrow> int" where
  "round_to_i64 (Fin q) = (let n = \<lfloor>q + 1 / 2\<rfloor> in if i64_max < n then i64_max else n)"
| "round_to_i64 Infinite = i64_max"
| "round_to_i64 Not_A_Number = 0"

text \<open>\<open>str::parse::<f64>\<close>: decimal notation with optional sign, fraction and exponent, or the words
  for infinity and not-a-number, which the callers refuse.\<close>

definition parse_exponent :: "string \<Rightarrow> int option" where
  "parse_exponent s =
     (case s of
        [] \<Rightarrow> Some 0
      | c # r \<Rightarrow>
          if c = CHR ''e'' \<or> c = CHR ''E'' then
            (let (neg, ds) = (case r of d # t \<Rightarrow> if d = CHR ''-'' then (True, t) else if d = CHR ''+'' then (False, t) else (False, r)
                              | [] \<Rightarrow> (False, r))
             in if ds = [] \<or> \<not> list_all is_digit ds then None
                else Some (if neg then - int (dec_value ds) else int (dec_value ds)))
          else None)"

definition ten_to :: "int \<Rightarrow> rat" where
  "ten_to k = (if 0 \<le> k then 10 ^ nat k else 1 / 10 ^ nat (- k))"

definition parse_decimal :: "string \<Rightarrow> rat option" where
  "parse_decimal s =
     (let ip = takeWhile is_digit s; r1 = dropWhile is_digit s;
          (fp, r2) = (case r1 of c # r \<Rightarrow> if c = CHR ''.'' then (takeWhile is_digit r, dropWhile is_digit r) else ([], r1)
                      | [] \<Rightarrow> ([], r1))
      in if ip = [] \<and> fp = [] then None
         else map_option (\<lambda>e. of_nat (dec_value (ip @ fp)) * ten_to (e - int (length fp))) (parse_exponent r2))"

definition parse_f64 :: "string \<Rightarrow> f64 option" where
  "parse_f64 s =
     (let (neg, t) = (case s of c # r \<Rightarrow> if c = CHR ''-'' then (True, r) else if c = CHR ''+'' then (False, r) else (False, s)
                      | [] \<Rightarrow> (False, s));
          l = map to_lower t
      in if l = ''inf'' \<or> l = ''infinity'' then Some Infinite
         else if l = ''nan'' then Some Not_A_Number
         else map_option (\<lambda>q. round_f64 (if neg then - q else q)) (parse_decimal t))"

section \<open>Limits\<close>

definition accept_limit :: "f64 \<Rightarrow> rat \<Rightarrow> int option" where
  "accept_limit n mult = (case n of Fin q \<Rightarrow> if q < 0 then None else Some (round_to_i64 (f64_times n mult)) | _ \<Rightarrow> None)"

definition parse_cpus_value :: "json \<Rightarrow> string \<Rightarrow> (compose_error, int) result" where
  "parse_cpus_value v field =
     ok_or (Bad_Limit field (show_json v))
       (case v of
          JInt i \<Rightarrow> accept_limit (round_f64 (of_int i)) 1000000000
        | JFloat t \<Rightarrow> (case parse_f64 t of Some n \<Rightarrow> accept_limit n 1000000000 | None \<Rightarrow> None)
        | JStr s \<Rightarrow> (case parse_f64 (trim s) of Some n \<Rightarrow> accept_limit n 1000000000 | None \<Rightarrow> None)
        | _ \<Rightarrow> None)"

definition strip_char :: "char \<Rightarrow> string \<Rightarrow> string" where
  "strip_char c s = (case strip_suffix [c] s of Some t \<Rightarrow> t | None \<Rightarrow> s)"

definition memory_unit :: "string \<Rightarrow> string \<times> rat" where
  "memory_unit s =
     (case strip_suffix ''k'' s of Some t \<Rightarrow> (t, 1024)
      | None \<Rightarrow> (case strip_suffix ''m'' s of Some t \<Rightarrow> (t, 1048576)
      | None \<Rightarrow> (case strip_suffix ''g'' s of Some t \<Rightarrow> (t, 1073741824)
      | None \<Rightarrow> (s, 1))))"

definition parse_memory_str :: "string \<Rightarrow> int option" where
  "parse_memory_str s =
     (if s = [] then None
      else let lower = strip_char CHR ''i'' (strip_char CHR ''b'' (map to_lower s)); (num, mult) = memory_unit lower in
        (case parse_f64 (trim num) of Some n \<Rightarrow> accept_limit n mult | None \<Rightarrow> None))"

definition parse_memory_value :: "json \<Rightarrow> string \<Rightarrow> (compose_error, int) result" where
  "parse_memory_value v field =
     ok_or (Bad_Limit field (show_json v))
       (case v of
          JInt i \<Rightarrow> (case json_i64 v of Some n \<Rightarrow> if n < 0 then None else Some n | None \<Rightarrow> None)
        | JStr s \<Rightarrow> parse_memory_str (trim s)
        | _ \<Rightarrow> None)"

definition optional_limit ::
  "(json \<Rightarrow> string \<Rightarrow> (compose_error, int) result) \<Rightarrow> json option \<Rightarrow> string \<Rightarrow> (compose_error, int) result" where
  "optional_limit parse v field = (case v of None \<Rightarrow> Ok 0 | Some x \<Rightarrow> parse x field)"

definition parse_limits ::
  "resource_limits option \<Rightarrow> string \<Rightarrow> (compose_error, int \<times> int) result" where
  "parse_limits l field =
     (case l of
        None \<Rightarrow> Ok (0, 0)
      | Some r \<Rightarrow>
          and_then (optional_limit parse_cpus_value (rl_cpus r) (field @ ''.cpus'')) (\<lambda>c.
          and_then (optional_limit parse_memory_value (rl_memory r) (field @ ''.memory'')) (\<lambda>m. Ok (c, m))))"

definition deploy_limits :: "deploy_config option \<Rightarrow> string \<Rightarrow> (compose_error, int \<times> int) result" where
  "deploy_limits deploy service =
     (case deploy of
        None \<Rightarrow> Ok (0, 0)
      | Some d \<Rightarrow>
         (case dc_resources d of
            None \<Rightarrow> Ok (0, 0)
          | Some res \<Rightarrow>
              let here = ''service '' @ service @ '': deploy.resources.'' in
              and_then (parse_limits (dr_reservations res) (here @ ''reservations'')) (\<lambda>_.
                parse_limits (dr_limits res) (here @ ''limits''))))"

section \<open>Rounding\<close>

lemma two_to_powi: "two_to k = 2 powi k"
  by (simp add: two_to_def power_int_def inverse_eq_divide power_divide)

lemma bits_up_bounds: "0 < n \<Longrightarrow> n \<le> fuel \<Longrightarrow> 2 ^ (bits_up fuel n - 1) \<le> n \<and> n < 2 ^ bits_up fuel n \<and> 0 < bits_up fuel n"
proof (induction fuel arbitrary: n)
  case (Suc fuel)
  show ?case
  proof (cases "n div 2 = 0")
    case True
    then have "n = 1" using Suc.prems by (simp add: div_eq_0_iff)
    then show ?thesis by (cases fuel) simp_all
  next
    case False
    then have IH: "2 ^ (bits_up fuel (n div 2) - 1) \<le> n div 2" "n div 2 < 2 ^ bits_up fuel (n div 2)" "0 < bits_up fuel (n div 2)"
      using Suc.IH [of "n div 2"] Suc.prems by auto
    obtain j where j: "bits_up fuel (n div 2) = Suc j" using IH(3) by (cases "bits_up fuel (n div 2)") auto
    have "2 ^ Suc j \<le> n" using IH(1) j by auto
    moreover have "n < 2 ^ Suc (Suc j)" using IH(2) j by auto
    ultimately show ?thesis using j Suc.prems by simp
  qed
qed simp

lemma nat_bits_bounds:
  assumes "0 < n"
  shows "(2 :: rat) powi (int (nat_bits n) - 1) \<le> of_nat n" "of_nat n < (2 :: rat) powi (int (nat_bits n))"
proof -
  have b: "2 ^ (nat_bits n - 1) \<le> n" "n < 2 ^ nat_bits n" "0 < nat_bits n"
    using bits_up_bounds [of n n] assms by (auto simp: nat_bits_def)
  have "(2 :: rat) powi (int (nat_bits n) - 1) = 2 ^ (nat_bits n - 1)"
    using b(3) by (simp add: power_int_def nat_diff_distrib')
  also have "\<dots> \<le> of_nat n" using b(1) by (metis of_nat_le_iff of_nat_numeral of_nat_power)
  finally show "(2 :: rat) powi (int (nat_bits n) - 1) \<le> of_nat n" .
  have "of_nat n < (2 :: rat) ^ nat_bits n" using b(2) by (metis of_nat_less_iff of_nat_numeral of_nat_power)
  then show "of_nat n < (2 :: rat) powi (int (nat_bits n))" by (simp add: power_int_def)
qed

lemma leading_exponent_bounds:
  assumes "0 < x"
  shows "2 powi leading_exponent x \<le> x" "x < 2 powi (leading_exponent x + 1)"
proof -
  obtain a b where q: "quotient_of x = (a, b)" by (cases "quotient_of x")
  have b: "0 < b" and x: "x = of_int a / of_int b"
    using q quotient_of_denom_pos quotient_of_div by auto
  have a: "0 < a" using assms b x by (simp add: zero_less_divide_iff)
  let ?A = "int (nat_bits (nat a))" and ?B = "int (nat_bits (nat b))"
  have ra: "(of_int a :: rat) = of_nat (nat a)" and rb: "(of_int b :: rat) = of_nat (nat b)" using a b by simp_all
  have A: "(2 :: rat) powi (?A - 1) \<le> of_int a" "(of_int a :: rat) < 2 powi ?A"
    using nat_bits_bounds [of "nat a"] a unfolding ra by simp_all
  have B: "(2 :: rat) powi (?B - 1) \<le> of_int b" "(of_int b :: rat) < 2 powi ?B"
    using nat_bits_bounds [of "nat b"] b unfolding rb by simp_all
  have "x < 2 powi ?A / 2 powi (?B - 1)"
    unfolding x using A B b a by (intro frac_less) simp_all
  also have "\<dots> = 2 powi (?A - (?B - 1))" by (rule power_int_diff [symmetric]) simp
  also have "?A - (?B - 1) = ?A - ?B + 1" by simp
  finally have hi: "x < 2 powi (?A - ?B + 1)" .
  have "2 powi (?A - 1) / 2 powi ?B \<le> x"
    unfolding x using A B b a by (intro frac_le) simp_all
  also have "2 powi (?A - 1) / 2 powi ?B = (2 :: rat) powi (?A - 1 - ?B)" by (rule power_int_diff [symmetric]) simp
  also have "?A - 1 - ?B = ?A - ?B - 1" by simp
  finally have lo: "2 powi (?A - ?B - 1) \<le> x" .
  show "2 powi leading_exponent x \<le> x" "x < 2 powi (leading_exponent x + 1)"
    using hi lo by (auto simp: leading_exponent_def q Let_def two_to_powi)
qed

text \<open>A number with at most 53 significant bits and an exponent in range is not rounded.\<close>

lemma round_even_int: "round_even (of_int n) = n"
  by (simp add: round_even_def)

lemma round_f64_exact:
  assumes "x = of_nat m * 2 ^ k" "m < 2 ^ 53" "x < 2 powi 1024"
  shows "round_f64 x = Fin x"
proof (cases "x = 0")
  case True
  then show ?thesis by (simp add: round_f64_def)
next
  case False
  then have m: "0 < m" and x: "0 < x" using assms(1) by (auto simp: zero_less_mult_iff)
  let ?e = "leading_exponent x"
  have "1 \<le> m * 2 ^ k" using m by simp
  then have "(of_nat 1 :: rat) \<le> of_nat (m * 2 ^ k)" by (rule of_nat_mono)
  then have "1 \<le> x" unfolding assms(1) by simp
  have e0: "0 \<le> ?e"
  proof (rule ccontr)
    assume "\<not> 0 \<le> ?e"
    then have "(2 :: rat) powi (?e + 1) \<le> 2 powi 0" by (intro power_int_increasing) auto
    then show False using leading_exponent_bounds(2) [OF x] \<open>1 \<le> x\<close> by simp
  qed
  have "x < 2 powi (53 + int k)"
  proof -
    have "(of_nat m :: rat) < 2 ^ 53" using assms(2) by (metis of_nat_less_iff of_nat_numeral of_nat_power)
    then have "x < 2 ^ 53 * 2 ^ k" unfolding assms(1) by simp
    then show ?thesis by (simp add: power_int_add)
  qed
  then have "(2 :: rat) powi ?e < 2 powi (53 + int k)" using leading_exponent_bounds(1) [OF x] by simp
  then have ek: "?e - 52 \<le> int k"
    using power_int_increasing [of "53 + int k" ?e "2 :: rat"] by (cases "53 + int k \<le> ?e") auto
  let ?u = "(2 :: rat) powi (?e - 52)"
  have "x / ?u = of_nat m * (2 powi (int k) / ?u)" unfolding assms(1) by simp
  also have "2 powi (int k) / ?u = 2 powi (int k - (?e - 52))" by (rule power_int_diff [symmetric]) simp
  also have "(2 :: rat) powi (int k - (?e - 52)) = 2 ^ nat (int k - (?e - 52))"
    using ek by (simp add: power_int_def)
  finally have "x / ?u = of_int (int m * 2 ^ nat (int k - (?e - 52)))" by simp
  then have "of_int (round_even (x / ?u)) = x / ?u" by (simp only: round_even_int)
  then have "of_int (round_even (x / ?u)) * ?u = x" by simp
  then show ?thesis
    using x e0 assms(3) by (simp add: round_f64_def two_to_powi Let_def max_def)
qed

section \<open>What limits denote\<close>

lemma round_f64_nonneg: "0 \<le> x \<Longrightarrow> round_f64 x = Fin q \<Longrightarrow> 0 \<le> q"
proof -
  assume x: "0 \<le> x" "round_f64 x = Fin q"
  have "0 \<le> round_even y" if "0 \<le> y" for y
    using that by (simp add: round_even_def Let_def)
  then have "0 \<le> of_int (round_even (\<bar>x\<bar> / u)) * u" if "0 < u" for u :: rat
    using that by (intro mult_nonneg_nonneg) simp_all
  then show "0 \<le> q"
    using x by (auto simp: round_f64_def Let_def two_to_powi split: if_splits)
qed

lemma accept_limit_bounds: "accept_limit n mult = Some i \<Longrightarrow> 0 \<le> mult \<Longrightarrow> 0 \<le> i \<and> i \<le> i64_max"
proof -
  assume a: "accept_limit n mult = Some i" "0 \<le> mult"
  then obtain q where q: "n = Fin q" "0 \<le> q" "i = round_to_i64 (round_f64 (q * mult))"
    by (auto simp: accept_limit_def split: f64.splits if_splits)
  show ?thesis
  proof (cases "round_f64 (q * mult)")
    case (Fin r)
    then have "0 \<le> r" using round_f64_nonneg [OF mult_nonneg_nonneg [OF q(2) a(2)]] by blast
    then show ?thesis using q(3) Fin by (auto simp: Let_def i64_max_def)
  qed (use q in \<open>auto simp: i64_max_def\<close>)
qed

lemma accept_limit_exact:
  assumes "round_f64 (of_nat n) = Fin (of_nat n)" "round_f64 (of_nat (n * k)) = Fin (of_nat (n * k))"
    and "int (n * k) \<le> i64_max"
  shows "accept_limit (round_f64 (of_nat n)) (of_nat k) = Some (int (n * k))"
proof -
  have "\<lfloor>(of_nat (n * k) :: rat) + 1 / 2\<rfloor> = int (n * k)"
    by (intro floor_unique) simp_all
  then show ?thesis
    using assms by (simp add: accept_limit_def Let_def)
qed

text \<open>The units a memory limit may carry, as a user writes them.\<close>

definition memory_suffixes :: "(string \<times> nat) list" where
  "memory_suffixes =
     [([], 1), (''b'', 1), (''k'', 1024), (''K'', 1024), (''kb'', 1024), (''KiB'', 1024),
      (''m'', 1048576), (''M'', 1048576), (''mb'', 1048576), (''MiB'', 1048576),
      (''g'', 1073741824), (''G'', 1073741824), (''gb'', 1073741824), (''GiB'', 1073741824)]"

lemma digit_not_ws: "is_digit c \<Longrightarrow> \<not> is_ws c"
  by (auto simp: is_ws_def is_digit_def)

lemma lower_show_nat: "map to_lower (show_nat n) = show_nat n"
proof (rule map_idI)
  fix c assume "c \<in> set (show_nat n)"
  then have "is_digit c" by (rule show_nat_in_digits)
  then show "to_lower c = c" by (simp add: to_lower_def is_upper_def is_digit_def)
qed

lemma parse_f64_nat: "parse_f64 (show_nat n) = Some (round_f64 (of_nat n))"
proof -
  have digits: "\<forall>c \<in> set (show_nat n). is_digit c" using show_nat_in_digits by blast
  have tw: "takeWhile is_digit (show_nat n) = show_nat n" "dropWhile is_digit (show_nat n) = []"
    using digits by (auto simp: takeWhile_eq_all_conv dropWhile_eq_Nil_conv)
  obtain c r where cr: "show_nat n = c # r" by (cases "show_nat n") auto
  then have c: "is_digit c" using digits by simp
  then have nsign: "c \<noteq> CHR ''-''" "c \<noteq> CHR ''+''" by (auto simp: is_digit_def)
  note low = lower_show_nat [of n]
  have word: "show_nat n \<noteq> ''inf''" "show_nat n \<noteq> ''infinity''" "show_nat n \<noteq> ''nan''"
    using digits by (auto simp: is_digit_def)
  have "parse_decimal (show_nat n) = Some (of_nat n)"
    by (simp add: parse_decimal_def tw parse_exponent_def ten_to_def)
  then show ?thesis
    using nsign low word by (auto simp: parse_f64_def cr Let_def)
qed

lemma strip_suffix_char: "strip_suffix [c] s = (if s \<noteq> [] \<and> last s = c then Some (butlast s) else None)"
  by (cases s rule: rev_cases) (auto simp: strip_suffix_def)

lemma last_show_nat: "is_digit (last (show_nat n))"
  using show_nat_in_digits [of "last (show_nat n)" n] by simp

lemma strip_digits:
  assumes "\<not> is_digit c"
  shows "strip_suffix [c] (show_nat n @ t) = map_option ((@) (show_nat n)) (strip_suffix [c] t)"
  using assms last_show_nat [of n] by (cases t rule: rev_cases) (auto simp: strip_suffix_char butlast_append)

lemma strip_char_digits: "\<not> is_digit c \<Longrightarrow> strip_char c (show_nat n @ t) = show_nat n @ strip_char c t"
  by (simp add: strip_char_def strip_digits split: option.splits)

lemma memory_unit_digits:
  "memory_unit (show_nat n @ t) = (show_nat n @ fst (memory_unit t), snd (memory_unit t))"
proof -
  have "\<not> is_digit CHR ''k''" "\<not> is_digit CHR ''m''" "\<not> is_digit CHR ''g''" by code_simp+
  then show ?thesis by (simp add: memory_unit_def strip_digits split: option.splits)
qed

lemma suffix_units: "list_all (\<lambda>(s, k). memory_unit (strip_char CHR ''i'' (strip_char CHR ''b'' (map to_lower s))) = ([], of_nat k)) memory_suffixes"
  by code_simp

lemma powers_of_units: "(s, k) \<in> set memory_suffixes \<Longrightarrow> \<exists>j. k = 2 ^ j"
proof -
  have "list_all (\<lambda>(s, k). k = 2 ^ 0 \<or> k = 2 ^ 10 \<or> k = 2 ^ 20 \<or> k = 2 ^ 30) memory_suffixes" by code_simp
  then show "(s, k) \<in> set memory_suffixes \<Longrightarrow> \<exists>j. k = 2 ^ j" unfolding list_all_iff by fast
qed

text \<open>A memory limit written as a whole number below \<open>2^53\<close> with any of the accepted units is
  the exact number of bytes, in spite of the floating point in between, as long as it fits an
  \<open>i64\<close>.\<close>

theorem memory_limit_exact:
  assumes "(s, k) \<in> set memory_suffixes" "n < 2 ^ 53" "int (n * k) \<le> i64_max"
  shows "parse_memory_str (show_nat n @ s) = Some (int (n * k))"
proof -
  obtain j where j: "k = 2 ^ j" using powers_of_units [OF assms(1)] by blast
  have unit: "memory_unit (strip_char CHR ''i'' (strip_char CHR ''b'' (map to_lower s))) = ([], of_nat k)"
    using suffix_units assms(1) by (auto simp: list_all_iff)
  have nd: "\<not> is_digit CHR ''i''" "\<not> is_digit CHR ''b''" by code_simp+
  have big: "(2 :: rat) ^ 63 \<le> 2 powi 1024" using power_increasing [of 63 1024 "2 :: rat"] by simp
  have "(of_nat (n * k) :: rat) \<le> of_int i64_max" using assms(3) by (metis of_int_le_iff of_int_of_nat_eq)
  also have "\<dots> < 2 ^ 63" by (simp add: i64_max_def)
  finally have prod: "of_nat (n * k) < (2 :: rat) powi 1024" using big by linarith
  have "(of_nat n :: rat) \<le> of_nat (n * k)" using j by (intro of_nat_mono) simp
  with prod have small: "of_nat (n * k) < (2 :: rat) powi 1024" "of_nat n < (2 :: rat) powi 1024" by simp_all
  have "round_f64 (of_nat n) = Fin (of_nat n)"
    by (rule round_f64_exact [of _ n 0]) (use assms small in simp_all)
  moreover have "round_f64 (of_nat (n * k)) = Fin (of_nat (n * k))"
    by (rule round_f64_exact [of _ n j]) (use assms small j in simp_all)
  ultimately have "accept_limit (round_f64 (of_nat n)) (of_nat k) = Some (int (n * k))"
    using assms(3) by (rule accept_limit_exact)
  moreover have "trim (show_nat n) = show_nat n"
    by (intro trim_id) (use show_nat_in_digits digit_not_ws in blast)
  ultimately show ?thesis
    by (simp add: parse_memory_str_def lower_show_nat strip_char_digits [OF nd(1)] strip_char_digits [OF nd(2)]
        memory_unit_digits unit parse_f64_nat)
qed

theorem memory_limit_exact_witness: "parse_memory_str (show_nat 512 @ ''MiB'') = Some (int (512 * 1048576))"
  by (rule memory_limit_exact) (simp_all add: memory_suffixes_def i64_max_def)

text \<open>Accepted limits are non-negative and fit an \<open>i64\<close>, whatever the deployment section
  says.\<close>

theorem deploy_limits_bounds:
  assumes "deploy_limits d service = Ok (cpus, memory)"
  shows "0 \<le> cpus \<and> cpus \<le> i64_max \<and> 0 \<le> memory \<and> memory \<le> i64_max"
proof -
  have cpu: "0 \<le> c \<and> c \<le> i64_max" if "parse_cpus_value v f = Ok c" for v f c
    using that by (auto simp: parse_cpus_value_def split: json.splits option.splits dest!: accept_limit_bounds)
  have units: "0 \<le> snd (memory_unit t)" for t
    by (simp add: memory_unit_def split: option.splits)
  have mem: "0 \<le> c \<and> c \<le> i64_max" if "parse_memory_value v f = Ok c" for v f c
    using that units
    by (auto simp: parse_memory_value_def parse_memory_str_def json_i64_def i64_max_def Let_def
        split: json.splits option.splits if_splits prod.splits dest!: accept_limit_bounds)
       (metis snd_conv)+
  have lim: "0 \<le> c \<and> c \<le> i64_max \<and> 0 \<le> m \<and> m \<le> i64_max" if "parse_limits l f = Ok (c, m)" for l f c m
    using that cpu mem by (auto simp: parse_limits_def optional_limit_def and_then_Ok i64_max_def split: option.splits)
  show ?thesis
    using assms lim by (auto simp: deploy_limits_def Let_def and_then_Ok i64_max_def split: option.splits)
qed

theorem deploy_limits_bounds_witness:
  "let l = \<lparr>rl_cpus = None, rl_memory = Some (JInt 536870912)\<rparr>;
       d = Some \<lparr>dc_resources = Some \<lparr>dr_limits = Some l, dr_reservations = None\<rparr>\<rparr>
   in deploy_limits d ''db'' = Ok (0, 536870912) \<and> (536870912 :: int) \<le> i64_max"
proof -
  let ?l = "\<lparr>rl_cpus = None, rl_memory = Some (JInt 536870912)\<rparr>"
  have "deploy_limits (Some \<lparr>dc_resources = Some \<lparr>dr_limits = Some ?l, dr_reservations = None\<rparr>\<rparr>) ''db'' = Ok (0, 536870912)"
    by code_simp
  from this deploy_limits_bounds [OF this] show ?thesis by (simp add: Let_def)
qed

end
