(* ===== verification/Image_Ref.thy ===== *)
theory Image_Ref
  imports Ingot_Prelude
begin

text \<open>
  Image references (\<open>crates/registry/src/reference.rs\<close>): \<open>[host/]repo[:tag][@digest]\<close> with the
  defaults \<open>docker.io\<close>, \<open>library/\<close> and \<open>latest\<close>. The theory shows that the display form of a
  reference parses back to it and that the keys of the tag index separate references, except for
  the references whose display form is ambiguous: a path below \<open>library/\<close> with a further slash, or a
  path in the default registry whose first segment looks like a host.
\<close>

section \<open>References\<close>

definition DEFAULT_REGISTRY :: string where "DEFAULT_REGISTRY = ''docker.io''"
definition OFFICIAL_REPO_PREFIX :: string where "OFFICIAL_REPO_PREFIX = ''library/''"
definition DEFAULT_TAG :: string where "DEFAULT_TAG = ''latest''"

record image_ref =
  ir_registry :: string
  ir_repo :: string
  ir_tag :: "string option"
  ir_digest :: "string option"

datatype ref_error = Empty_Reference | Unsupported_Digest string | Missing_Repository string

definition registry_is_default_host :: "string \<Rightarrow> bool" where
  "registry_is_default_host host =
     (host = DEFAULT_REGISTRY \<or> host = ''index.docker.io'' \<or> host = ''registry-1.docker.io'')"

definition looks_like_host :: "string \<Rightarrow> bool" where
  "looks_like_host first = (CHR ''.'' \<in> set first \<or> CHR '':'' \<in> set first \<or> first = ''localhost'')"

definition split_registry :: "string \<Rightarrow> string \<times> string" where
  "split_registry rest =
     (if looks_like_host (hd (split_on CHR ''/'' rest)) then
        (case split_once CHR ''/'' rest of
           Some (host, path) \<Rightarrow> (if registry_is_default_host host then DEFAULT_REGISTRY else host, path)
         | None \<Rightarrow> (DEFAULT_REGISTRY, rest))
      else (DEFAULT_REGISTRY, rest))"

definition normalize_repo :: "string \<Rightarrow> bool \<Rightarrow> string" where
  "normalize_repo repo default_registry =
     (if default_registry \<and> CHR ''/'' \<notin> set repo then OFFICIAL_REPO_PREFIX @ repo else repo)"

definition split_tag :: "string \<Rightarrow> string \<times> string option" where
  "split_tag path =
     (case rsplit_once CHR '':'' path of
        Some (r, t) \<Rightarrow> if CHR ''/'' \<notin> set t then (r, Some t) else (path, None)
      | None \<Rightarrow> (path, None))"

definition image_ref_parse :: "string \<Rightarrow> (ref_error, image_ref) result" where
  "image_ref_parse input =
     (let s = trim input in
      if s = [] then Err Empty_Reference
      else let (rest, digest) = (case split_once CHR ''@'' s of Some (r, d) \<Rightarrow> (r, Some d) | None \<Rightarrow> (s, None)) in
        if (case digest of Some d \<Rightarrow> \<not> starts_with ''sha256:'' d | None \<Rightarrow> False) then Err (Unsupported_Digest (the digest))
        else let (registry, path) = split_registry rest; (repo, tag) = split_tag path in
          if repo = [] then Err (Missing_Repository input)
          else Ok \<lparr>ir_registry = registry, ir_repo = normalize_repo repo (registry = DEFAULT_REGISTRY),
                   ir_tag = (if tag = None \<and> digest = None then Some DEFAULT_TAG else tag),
                   ir_digest = digest\<rparr>)"

definition registry_is_default :: "image_ref \<Rightarrow> bool" where
  "registry_is_default r = (ir_registry r = DEFAULT_REGISTRY)"

definition display_ref_no_tag :: "image_ref \<Rightarrow> string" where
  "display_ref_no_tag r =
     (if registry_is_default r then [] else ir_registry r @ ''/'')
     @ (if registry_is_default r \<and> starts_with OFFICIAL_REPO_PREFIX (ir_repo r)
        then drop (length OFFICIAL_REPO_PREFIX) (ir_repo r) else ir_repo r)"

definition display_ref :: "image_ref \<Rightarrow> string" where
  "display_ref r =
     (if registry_is_default r then [] else ir_registry r @ ''/'')
     @ (if registry_is_default r \<and> starts_with OFFICIAL_REPO_PREFIX (ir_repo r)
        then drop (length OFFICIAL_REPO_PREFIX) (ir_repo r) else ir_repo r)
     @ (case ir_tag r of Some t \<Rightarrow> '':'' @ t | None \<Rightarrow> [])
     @ (case ir_digest r of Some d \<Rightarrow> ''@'' @ d | None \<Rightarrow> [])"

definition tag_key_opt :: "image_ref \<Rightarrow> string option" where
  "tag_key_opt r = map_option (\<lambda>t. display_ref_no_tag r @ '':'' @ t) (ir_tag r)"

definition tag_key :: "image_ref \<Rightarrow> string" where
  "tag_key r = (case tag_key_opt r of Some k \<Rightarrow> k | None \<Rightarrow> display_ref_no_tag r @ '':'' @ DEFAULT_TAG)"

section \<open>Well-formed references\<close>

text \<open>What a parsed reference satisfies: the repository of the default registry has a slash, a
  host of another registry looks like one and has none, no tag has a slash, a reference without a
  tag has a digest.\<close>

definition ref_wf :: "image_ref \<Rightarrow> bool" where
  "ref_wf r =
     (ir_repo r \<noteq> [] \<and> CHR ''@'' \<notin> set (ir_registry r @ ir_repo r)
      \<and> (case ir_tag r of
           Some t \<Rightarrow> CHR ''/'' \<notin> set t \<and> CHR '':'' \<notin> set t \<and> CHR ''@'' \<notin> set t
         | None \<Rightarrow> ir_digest r \<noteq> None \<and> snd (split_tag (ir_repo r)) = None)
      \<and> pred_option (starts_with ''sha256:'') (ir_digest r)
      \<and> (if registry_is_default r then CHR ''/'' \<in> set (ir_repo r)
         else looks_like_host (ir_registry r) \<and> CHR ''/'' \<notin> set (ir_registry r)
              \<and> \<not> registry_is_default_host (ir_registry r)))"

text \<open>A reference of the default registry whose display form is that of another reference.\<close>

definition ambiguous :: "image_ref \<Rightarrow> bool" where
  "ambiguous r =
     (registry_is_default r
      \<and> (case strip_prefix OFFICIAL_REPO_PREFIX (ir_repo r) of
           Some rest \<Rightarrow> rest = [] \<or> CHR ''/'' \<in> set rest
         | None \<Rightarrow> looks_like_host (hd (split_on CHR ''/'' (ir_repo r)))))"

lemma split_registry_cases:
  assumes "split_registry rest = (registry, path)"
  shows "registry = DEFAULT_REGISTRY \<and> path = rest
    \<or> (\<exists>host. rest = host @ ''/'' @ path \<and> CHR ''/'' \<notin> set host \<and> looks_like_host host
         \<and> (if registry_is_default_host host then registry = DEFAULT_REGISTRY else registry = host))"
proof (cases "split_once CHR ''/'' rest")
  case None
  then show ?thesis using assms by (auto simp: split_registry_def split: if_splits)
next
  case (Some hp)
  then obtain host q where hp: "hp = (host, q)" "rest = host @ CHR ''/'' # q" "CHR ''/'' \<notin> set host"
    by (cases hp) (auto simp: split_once_Some)
  then have "hd (split_on CHR ''/'' rest) = host" by (simp add: split_on_append)
  then show ?thesis using assms Some hp by (auto simp: split_registry_def split: if_splits)
qed

lemma split_registry_default:
  "\<not> looks_like_host (hd (split_on CHR ''/'' rest)) \<or> CHR ''/'' \<notin> set rest \<Longrightarrow>
    split_registry rest = (DEFAULT_REGISTRY, rest)"
  by (auto simp: split_registry_def split_once_None [THEN iffD2])

lemma split_registry_host:
  "looks_like_host host \<Longrightarrow> CHR ''/'' \<notin> set host \<Longrightarrow> \<not> registry_is_default_host host \<Longrightarrow>
    split_registry (host @ ''/'' @ path) = (host, path)"
  by (simp add: split_registry_def split_on_append split_once_Some [THEN iffD2])

lemma split_tag_Some: "split_tag path = (repo, Some t) \<longleftrightarrow> path = repo @ '':'' @ t \<and> CHR ''/'' \<notin> set t \<and> CHR '':'' \<notin> set t"
  by (auto simp: split_tag_def rsplit_once_Some rsplit_once_None split: option.splits if_splits)
     (metis option.inject prod.inject rsplit_once_Some)+

lemma split_tag_None: "split_tag path = (repo, None) \<Longrightarrow> repo = path"
  by (auto simp: split_tag_def split: option.splits if_splits)

lemma split_tag_no_colon: "CHR '':'' \<notin> set path \<Longrightarrow> split_tag path = (path, None)"
  by (simp add: split_tag_def rsplit_once_None [THEN iffD2])

lemma no_tag_no_colon:
  assumes "snd (split_tag repo) = None" "CHR ''/'' \<notin> set repo"
  shows "CHR '':'' \<notin> set repo"
  using assms by (force simp: split_tag_def rsplit_once_None rsplit_once_Some split: option.splits if_splits)

lemma image_ref_parse_Ok:
  assumes "image_ref_parse s = Ok r"
  obtains rest digest registry path repo tag where
    "(case split_once CHR ''@'' (trim s) of Some (r, d) \<Rightarrow> (r, Some d) | None \<Rightarrow> (trim s, None)) = (rest, digest)"
    and "pred_option (starts_with ''sha256:'') digest"
    and "split_registry rest = (registry, path)" and "split_tag path = (repo, tag)"
    and "repo \<noteq> []"
    and "r = \<lparr>ir_registry = registry, ir_repo = normalize_repo repo (registry = DEFAULT_REGISTRY),
                   ir_tag = (if tag = None \<and> digest = None then Some DEFAULT_TAG else tag), ir_digest = digest\<rparr>"
  using assms by (auto simp: image_ref_parse_def Let_def split: if_splits prod.splits option.splits)

lemma parse_ref_wf:
  assumes "image_ref_parse s = Ok r"
  shows "ref_wf r"
proof -
  obtain rest digest registry path repo tag where
    cut: "(case split_once CHR ''@'' (trim s) of Some (r, d) \<Rightarrow> (r, Some d) | None \<Rightarrow> (trim s, None)) = (rest, digest)"
    and d: "pred_option (starts_with ''sha256:'') digest"
    and reg: "split_registry rest = (registry, path)" and tg: "split_tag path = (repo, tag)"
    and ne: "repo \<noteq> []"
    and r: "r = \<lparr>ir_registry = registry, ir_repo = normalize_repo repo (registry = DEFAULT_REGISTRY),
                   ir_tag = (if tag = None \<and> digest = None then Some DEFAULT_TAG else tag), ir_digest = digest\<rparr>"
    by (rule image_ref_parse_Ok [OF assms])
  have at: "CHR ''@'' \<notin> set rest"
    using cut by (auto simp: split_once_None split_once_Some split: option.splits)
  have path: "set path \<subseteq> set rest"
    using split_registry_cases [OF reg] by auto
  have repo: "set repo \<subseteq> set path" "\<And>t. tag = Some t \<Longrightarrow> set t \<subseteq> set path"
    using tg by (cases tag; force simp: split_tag_Some dest: split_tag_None)+
  have reg': "CHR ''@'' \<notin> set registry"
    using split_registry_cases [OF reg] at by (auto simp: DEFAULT_REGISTRY_def split: if_splits)
  have tag: "case ir_tag r of
      Some t \<Rightarrow> CHR ''/'' \<notin> set t \<and> CHR '':'' \<notin> set t \<and> CHR ''@'' \<notin> set t
    | None \<Rightarrow> ir_digest r \<noteq> None \<and> snd (split_tag (ir_repo r)) = None"
  proof (cases tag)
    case None
    have "split_tag repo = (repo, None)" using None tg split_tag_None by metis
    then have "snd (split_tag (normalize_repo repo b)) = None" for b
      using no_tag_no_colon [of repo]
      by (auto simp: normalize_repo_def OFFICIAL_REPO_PREFIX_def split_tag_no_colon)
    then show ?thesis using None r by (auto simp: DEFAULT_TAG_def)
  next
    case (Some t)
    then show ?thesis using tg repo(2) path at by (auto simp: r split_tag_Some)
  qed
  have place: "if registry = DEFAULT_REGISTRY then CHR ''/'' \<in> set (ir_repo r)
      else looks_like_host registry \<and> CHR ''/'' \<notin> set registry \<and> \<not> registry_is_default_host registry"
    using split_registry_cases [OF reg]
    by (auto simp: r normalize_repo_def OFFICIAL_REPO_PREFIX_def split: if_splits)
  have "CHR ''@'' \<notin> set (ir_repo r)" "ir_repo r \<noteq> []"
    using repo(1) path at ne by (auto simp: r normalize_repo_def OFFICIAL_REPO_PREFIX_def)
  moreover have "ir_registry r = registry" "ir_digest r = digest" by (simp_all add: r)
  ultimately show ?thesis
    using place tag d reg' by (simp add: ref_wf_def registry_is_default_def)
qed

section \<open>Display and parse\<close>

lemma display_split: "display_ref r = display_ref_no_tag r
     @ (case ir_tag r of Some t \<Rightarrow> '':'' @ t | None \<Rightarrow> [])
     @ (case ir_digest r of Some d \<Rightarrow> ''@'' @ d | None \<Rightarrow> [])"
  by (simp add: display_ref_def display_ref_no_tag_def)

text \<open>The part in front of the digest.\<close>

definition name_part :: "image_ref \<Rightarrow> string" where
  "name_part r = display_ref_no_tag r @ (case ir_tag r of Some t \<Rightarrow> '':'' @ t | None \<Rightarrow> [])"

text \<open>The path of the display form, below the host.\<close>

definition shown_repo :: "image_ref \<Rightarrow> string" where
  "shown_repo r = (if registry_is_default r \<and> starts_with OFFICIAL_REPO_PREFIX (ir_repo r)
        then drop (length OFFICIAL_REPO_PREFIX) (ir_repo r) else ir_repo r)"

lemma shown_repo_cases:
  assumes "ref_wf r" "\<not> ambiguous r"
  shows "shown_repo r \<noteq> []" "normalize_repo (shown_repo r) (registry_is_default r) = ir_repo r"
    and "registry_is_default r \<Longrightarrow>
      CHR ''/'' \<notin> set (shown_repo r) \<or> \<not> looks_like_host (hd (split_on CHR ''/'' (shown_repo r)))"
proof -
  have "ir_repo r \<noteq> []" using assms(1) by (simp add: ref_wf_def)
  moreover have "registry_is_default r \<Longrightarrow> CHR ''/'' \<in> set (ir_repo r)"
    using assms(1) by (simp add: ref_wf_def)
  ultimately show "shown_repo r \<noteq> []" "normalize_repo (shown_repo r) (registry_is_default r) = ir_repo r"
    "registry_is_default r \<Longrightarrow>
      CHR ''/'' \<notin> set (shown_repo r) \<or> \<not> looks_like_host (hd (split_on CHR ''/'' (shown_repo r)))"
    using assms(2)
    by (auto simp: ambiguous_def shown_repo_def normalize_repo_def starts_with_def strip_prefix_Some
        split: option.splits if_splits)
qed

lemma hd_split_on_append: "CHR ''/'' \<in> set s \<Longrightarrow> hd (split_on CHR ''/'' (s @ t)) = hd (split_on CHR ''/'' s)"
  by (auto simp: split_on_append dest!: split_list_first)

lemma split_registry_name:
  assumes "ref_wf r" "\<not> ambiguous r"
  shows "split_registry (name_part r)
    = (ir_registry r, shown_repo r @ (case ir_tag r of Some t \<Rightarrow> '':'' @ t | None \<Rightarrow> []))"
proof (cases "registry_is_default r")
  case True
  let ?t = "case ir_tag r of Some t \<Rightarrow> '':'' @ t | None \<Rightarrow> []"
  have "CHR ''/'' \<notin> set ?t" using assms(1) by (auto simp: ref_wf_def split: option.splits)
  moreover have "name_part r = shown_repo r @ ?t"
    using True by (simp add: name_part_def display_ref_no_tag_def shown_repo_def)
  ultimately show ?thesis
    using shown_repo_cases(3) [OF assms True] True hd_split_on_append [of "shown_repo r" ?t]
    by (metis Un_iff registry_is_default_def set_append split_registry_default)
next
  case False
  then show ?thesis
    using assms(1) split_registry_host [of "ir_registry r"]
    by (simp add: name_part_def display_ref_no_tag_def shown_repo_def ref_wf_def)
qed

lemma split_tag_shown:
  assumes "ref_wf r" "\<not> ambiguous r"
  shows "split_tag (shown_repo r @ (case ir_tag r of Some t \<Rightarrow> '':'' @ t | None \<Rightarrow> [])) = (shown_repo r, ir_tag r)"
proof (cases "ir_tag r")
  case None
  have "snd (split_tag (ir_repo r)) = None" using assms(1) None by (simp add: ref_wf_def)
  moreover have "shown_repo r = ir_repo r \<or> ir_repo r = OFFICIAL_REPO_PREFIX @ shown_repo r \<and> CHR ''/'' \<notin> set (shown_repo r)"
    using shown_repo_cases(2) [OF assms] by (auto simp: normalize_repo_def split: if_splits)
  ultimately have "snd (split_tag (shown_repo r)) = None"
    by (auto simp: split_tag_def rsplit_once_Some rsplit_once_None split: option.splits if_splits)
       (metis append.assoc option.distinct(1) option.inject prod.inject rsplit_once_Some)+
  then show ?thesis using None by (metis append_Nil2 option.simps(4) prod.collapse split_tag_None)
next
  case (Some t)
  then show ?thesis using assms(1) by (simp add: split_tag_Some ref_wf_def)
qed

lemma parse_display:
  assumes "ref_wf r" "\<not> ambiguous r" "no_ws (display_ref r)"
  shows "image_ref_parse (display_ref r) = Ok r"
proof -
  have tr: "trim (display_ref r) = display_ref r"
    using assms(3) by (simp add: trim_id no_ws_def)
  have at: "CHR ''@'' \<notin> set (name_part r)"
    using assms(1)
    by (auto simp: ref_wf_def name_part_def display_ref_no_tag_def dest: in_set_dropD split: option.splits if_splits)
  have cut: "(case split_once CHR ''@'' (display_ref r) of Some (r, d) \<Rightarrow> (r, Some d) | None \<Rightarrow> (display_ref r, None))
      = (name_part r, ir_digest r)"
  proof (cases "ir_digest r")
    case None
    then show ?thesis
      using at by (simp add: display_split name_part_def split_once_None [THEN iffD2])
  next
    case (Some d)
    then have "display_ref r = name_part r @ CHR ''@'' # d"
      by (simp add: display_split name_part_def)
    then have "split_once CHR ''@'' (display_ref r) = Some (name_part r, d)"
      using at by (simp add: split_once_Some)
    then show ?thesis using Some by simp
  qed
  have ne: "display_ref r \<noteq> []"
    using shown_repo_cases(1) [OF assms(1,2)] by (auto simp: display_ref_def shown_repo_def split: if_splits)
  show ?thesis
    using ne assms(1) shown_repo_cases(1,2) [OF assms(1,2)]
    by (auto simp: image_ref_parse_def tr cut Let_def split_registry_name [OF assms(1,2)] split_tag_shown [OF assms(1,2)]
        registry_is_default_def ref_wf_def split: option.splits)
qed

text \<open>Claim C37: The display form of a reference parses back to the reference, for every reference
  read from a text without white space whose display form is not ambiguous.\<close>

theorem reference_roundtrip:
  assumes "image_ref_parse s = Ok r" "no_ws (display_ref r)" "\<not> ambiguous r"
  shows "image_ref_parse (display_ref r) = Ok r"
  using parse_display [OF parse_ref_wf [OF assms(1)] assms(3,2)] .

theorem reference_roundtrip_witness:
  "image_ref_parse ''registry.local:5000/team/app:1.0'' =
     Ok \<lparr>ir_registry = ''registry.local:5000'', ir_repo = ''team/app'', ir_tag = Some ''1.0'', ir_digest = None\<rparr>"
proof -
  let ?r = "\<lparr>ir_registry = ''registry.local:5000'', ir_repo = ''team/app'', ir_tag = Some ''1.0'', ir_digest = None\<rparr>"
  have "image_ref_parse '' registry.local:5000/team/app:1.0'' = Ok ?r" by code_simp
  moreover have "no_ws (display_ref ?r)" "\<not> ambiguous ?r" by code_simp+
  ultimately have "image_ref_parse (display_ref ?r) = Ok ?r" by (rule reference_roundtrip)
  moreover have "display_ref ?r = ''registry.local:5000/team/app:1.0''" by code_simp
  ultimately show ?thesis by simp
qed

text \<open>The key of the tag index separates references: two references read from texts,
  both with a tag and neither ambiguous, that have the same key agree on registry, repository and
  tag.\<close>

theorem tag_key_injective:
  assumes "image_ref_parse s = Ok r" "image_ref_parse s' = Ok r'" "tag_key_opt r = Some k" "tag_key_opt r' = Some k"
    and "\<not> ambiguous r" "\<not> ambiguous r'" "no_ws k"
  shows "ir_registry r = ir_registry r' \<and> ir_repo r = ir_repo r' \<and> ir_tag r = ir_tag r'"
proof -
  have bare: "image_ref_parse k = Ok (x\<lparr>ir_digest := None\<rparr>)"
    if "image_ref_parse t = Ok x" "tag_key_opt x = Some k" "\<not> ambiguous x" for t x
  proof -
    let ?y = "x\<lparr>ir_digest := None\<rparr>"
    have tag: "ir_tag x \<noteq> None" using that(2) by (auto simp: tag_key_opt_def)
    have "ref_wf ?y" using parse_ref_wf [OF that(1)] tag
      by (auto simp: ref_wf_def registry_is_default_def split: option.splits)
    moreover have "\<not> ambiguous ?y" using that(3)
      by (auto simp: ambiguous_def registry_is_default_def split: option.splits)
    moreover have "display_ref ?y = k"
      using that(2) by (auto simp: tag_key_opt_def display_split display_ref_no_tag_def registry_is_default_def)
    ultimately show ?thesis using parse_display [of ?y] assms(7) by metis
  qed
  from bare [OF assms(1,3,5)] bare [OF assms(2,4,6)] have "r\<lparr>ir_digest := None\<rparr> = r'\<lparr>ir_digest := None\<rparr>"
    by simp
  then show ?thesis by (cases r; cases r') simp
qed

theorem tag_key_injective_witness:
  "\<exists>r r'. image_ref_parse ''busybox'' = Ok r \<and> image_ref_parse ''docker.io/library/busybox:latest'' = Ok r'
     \<and> ir_registry r = ir_registry r' \<and> ir_repo r = ir_repo r' \<and> ir_tag r = ir_tag r'"
proof -
  let ?r = "\<lparr>ir_registry = ''docker.io'', ir_repo = ''library/busybox'', ir_tag = Some ''latest'', ir_digest = None\<rparr>"
  have p: "image_ref_parse ''busybox'' = Ok ?r" "image_ref_parse ''docker.io/library/busybox:latest'' = Ok ?r"
    by code_simp+
  moreover have k: "tag_key_opt ?r = Some ''busybox:latest''" "\<not> ambiguous ?r" "no_ws ''busybox:latest''" by code_simp+
  ultimately show ?thesis using tag_key_injective [OF p k(1) k(1) k(2) k(2) k(3)] by blast
qed

text \<open>An ambiguous reference does share its key: \<open>library/a/b\<close> and \<open>a/b\<close> name different repositories.\<close>

lemma ambiguous_key_shared:
  "\<exists>r r'. image_ref_parse ''library/a/b'' = Ok r \<and> image_ref_parse ''a/b'' = Ok r'
     \<and> tag_key r = tag_key r' \<and> ir_repo r \<noteq> ir_repo r'"
proof -
  let ?r = "\<lparr>ir_registry = ''docker.io'', ir_repo = ''library/a/b'', ir_tag = Some ''latest'', ir_digest = None\<rparr>"
  let ?r' = "\<lparr>ir_registry = ''docker.io'', ir_repo = ''a/b'', ir_tag = Some ''latest'', ir_digest = None\<rparr>"
  have "image_ref_parse ''library/a/b'' = Ok ?r" "image_ref_parse ''a/b'' = Ok ?r'" "tag_key ?r = tag_key ?r'"
    by code_simp+
  then show ?thesis by auto
qed

end
