(* ===== verification/Credentials.thy ===== *)
theory Credentials
  imports Image_Ref Compose_Model
begin

text \<open>
  Registry credentials and request paths of the command line
  (\<open>crates/ingot-cli/src/auth.rs\<close> and the escaping and reference helpers of \<open>commands.rs\<close>).
  Base64 is a parameter, a pair of coding functions; the contents of the credential file are a
  value. The theory shows that a login is visible exactly for the images of its registry, when the
  registry of an image as the credential lookup computes it agrees with the one the image
  reference has, and that escaped path segments decode to what was escaped.
\<close>

section \<open>Servers\<close>

lemma split_once_str_Some: "split_once_str p s = Some (a, b) \<Longrightarrow> s = a @ p @ b"
proof (induction s arbitrary: a)
  case Nil
  then show ?case by (auto split: if_splits)
next
  case (Cons x s)
  then show ?case by (auto simp: strip_prefix_Some split: option.splits)
qed

text \<open>The last piece of \<open>split("://")\<close>.\<close>

function after_last :: "string \<Rightarrow> string" where
  "after_last s = (case split_once_str ''://'' s of None \<Rightarrow> s | Some (_, r) \<Rightarrow> after_last r)"
  by pat_completeness auto

termination
  by (relation "measure length") (auto dest: split_once_str_Some)

declare after_last.simps [simp del]

definition normalize_server :: "string \<Rightarrow> string" where
  "normalize_server server =
     (let s = after_last (map to_lower (trim server)); host = hd (split_on CHR ''/'' s) in
      if host = ''index.docker.io'' \<or> host = ''registry-1.docker.io'' then ''docker.io'' else host)"

definition registry_host_for_image :: "string \<Rightarrow> string" where
  "registry_host_for_image img =
     (let first = hd (split_on CHR ''/'' img) in
      if CHR ''.'' \<in> set first \<or> CHR '':'' \<in> set first \<or> first = ''localhost''
      then normalize_server first else ''docker.io'')"

section \<open>The credential file\<close>

record stored_auth =
  sa_username :: string
  sa_password :: string
  sa_auth :: string

type_synonym auth_file = "(string, stored_auth) assoc"

datatype auth_error = Empty_Username

definition auth_store :: "auth_file \<Rightarrow> string \<Rightarrow> string \<Rightarrow> string \<Rightarrow> (auth_error, auth_file) result" where
  "auth_store f server username password =
     (if username = [] then Err Empty_Username
      else Ok (assoc_put f (normalize_server server)
                 \<lparr>sa_username = username, sa_password = password, sa_auth = []\<rparr>))"

definition auth_remove :: "auth_file \<Rightarrow> string \<Rightarrow> auth_file \<times> bool" where
  "auth_remove f server =
     (if has_key f (normalize_server server) then (assoc_del f (normalize_server server), True) else (f, False))"

definition credentials_for :: "(string \<Rightarrow> string option) \<Rightarrow> auth_file \<Rightarrow> string \<Rightarrow> (string \<times> string) option" where
  "credentials_for decode f server =
     (case assoc_get f (normalize_server server) of
        None \<Rightarrow> None
      | Some e \<Rightarrow>
          if sa_username e \<noteq> [] \<or> sa_password e \<noteq> [] then Some (sa_username e, sa_password e)
          else if sa_auth e \<noteq> [] then
            (case decode (trim (sa_auth e)) of Some s \<Rightarrow> split_once CHR '':'' s | None \<Rightarrow> None)
          else None)"

definition auth_header_for_image ::
  "(string \<Rightarrow> string) \<Rightarrow> (string \<Rightarrow> string option) \<Rightarrow> auth_file \<Rightarrow> string \<Rightarrow> string option" where
  "auth_header_for_image encode decode f img =
     (let server = registry_host_for_image img in
      case credentials_for decode f server of
        None \<Rightarrow> None
      | Some (username, password) \<Rightarrow>
          Some (encode (show_json (JObj [(''password'', JStr password), (''serveraddress'', JStr server),
                                         (''username'', JStr username)]))))"

section \<open>Escaping and request paths\<close>

definition upper_hex :: "nat \<Rightarrow> char" where
  "upper_hex d = (if d < 10 then char_of (48 + d) else char_of (55 + d))"

definition url_plain :: "char \<Rightarrow> bool" where
  "url_plain c = (is_alphanumeric c \<or> c \<in> {CHR ''-'', CHR ''_'', CHR ''.'', CHR ''~'', CHR '':'', CHR ''/''})"

definition escape_byte :: "char \<Rightarrow> string" where
  "escape_byte c = [CHR ''%'', upper_hex (of_char c div 16), upper_hex (of_char c mod 16)]"

definition url_escape :: "string \<Rightarrow> string" where
  "url_escape s = concat (map (\<lambda>c. if url_plain c then [c] else escape_byte c) s)"

definition replace_slash :: "string \<Rightarrow> string" where
  "replace_slash s = concat (map (\<lambda>c. if c = CHR ''/'' then ''%2F'' else [c]) s)"

definition path_escape :: "string \<Rightarrow> string" where
  "path_escape s = replace_slash (url_escape s)"

definition qualified_repo :: "image_ref \<Rightarrow> string" where
  "qualified_repo r = (if registry_is_default r then ir_repo r else ir_registry r @ ''/'' @ ir_repo r)"

definition push_path :: "string \<Rightarrow> (ref_error, string \<times> string option) result" where
  "push_path img = and_then (image_ref_parse img) (\<lambda>r. Ok (path_escape (qualified_repo r), ir_tag r))"

definition pull_url :: "string \<Rightarrow> string option \<Rightarrow> (ref_error, string) result" where
  "pull_url img platform = and_then (image_ref_parse img) (\<lambda>r.
     let tag_or_digest = (case ir_digest r of Some d \<Rightarrow> d | None \<Rightarrow> (case ir_tag r of Some t \<Rightarrow> t | None \<Rightarrow> ''latest''))
     in Ok (''/images/create?fromImage='' @ url_escape (qualified_repo r) @ ''&tag='' @ url_escape tag_or_digest
            @ (case platform of Some p \<Rightarrow> ''&platform='' @ p | None \<Rightarrow> [])))"

section \<open>Escaped text decodes\<close>

text \<open>The decoder of the receiving side: a percent sign with two hexadecimal digits is a byte.\<close>

definition upper_hex_val :: "char \<Rightarrow> nat" where
  "upper_hex_val c = (if is_digit c then of_char c - 48 else of_char c - 55)"

fun percent_decode :: "string \<Rightarrow> string" where
  "percent_decode (c # s) =
     (if c = CHR ''%'' then
        (case s of a # b # t \<Rightarrow> char_of (16 * upper_hex_val a + upper_hex_val b) # percent_decode t | _ \<Rightarrow> c # s)
      else c # percent_decode s)"
| "percent_decode [] = []"

lemma upper_hex_val_hex: "d < 16 \<Longrightarrow> upper_hex_val (upper_hex d) = d"
  by (auto simp: upper_hex_val_def upper_hex_def is_digit_def)

lemma of_char_bound: "(of_char c :: nat) < 256"
  by (metis char_of_char mod_less_divisor of_char_of zero_less_numeral)

lemma decode_escape_byte: "percent_decode (escape_byte c @ t) = c # percent_decode t"
  using of_char_bound [of c] by (simp add: escape_byte_def upper_hex_val_hex div_less_iff_less_mult)

lemma decode_encoded:
  assumes "\<And>c. plain c \<Longrightarrow> c \<noteq> CHR ''%''"
  shows "percent_decode (concat (map (\<lambda>c. if plain c then [c] else escape_byte c) s)) = s"
  by (induction s) (use assms in \<open>auto simp: decode_escape_byte\<close>)

lemma upper_hex_no_slash: "d < 16 \<Longrightarrow> upper_hex d \<noteq> CHR ''/''"
  by (auto simp: upper_hex_def dest!: arg_cong [where f = "of_char :: char \<Rightarrow> nat"])

lemma escape_byte_no_slash: "CHR ''/'' \<notin> set (escape_byte c)"
proof -
  have "(of_char c :: nat) div 16 < 16" "(of_char c :: nat) mod 16 < 16"
    using of_char_bound [of c] by (simp_all add: div_less_iff_less_mult)
  then show ?thesis
    using upper_hex_no_slash [of "of_char c div 16"] upper_hex_no_slash [of "of_char c mod 16"]
    by (auto simp: escape_byte_def)
qed

lemma replace_slash_append: "replace_slash (a @ b) = replace_slash a @ replace_slash b"
  by (simp add: replace_slash_def)

lemma replace_slash_id: "CHR ''/'' \<notin> set s \<Longrightarrow> replace_slash s = s"
  by (induction s) (auto simp: replace_slash_def)

lemma path_escape_alt:
  "path_escape s = concat (map (\<lambda>c. if url_plain c \<and> c \<noteq> CHR ''/'' then [c] else escape_byte c) s)"
proof (induction s)
  case Nil
  then show ?case by (simp add: path_escape_def url_escape_def replace_slash_def)
next
  case (Cons c s)
  have "replace_slash (if url_plain c then [c] else escape_byte c)
      = (if url_plain c \<and> c \<noteq> CHR ''/'' then [c] else escape_byte c)"
  proof (cases "c = CHR ''/''")
    case True
    moreover have "replace_slash ''/'' = escape_byte CHR ''/''" "url_plain CHR ''/''" by code_simp+
    ultimately show ?thesis by simp
  next
    case False
    then show ?thesis using escape_byte_no_slash [of c] by (simp add: replace_slash_id)
  qed
  then show ?case using Cons by (simp add: path_escape_def url_escape_def replace_slash_append)
qed

text \<open>An image name travels as one path segment: the escaped name has no slash, and decoding
  it gives the name back; the same holds for the query escaping, which keeps slashes.\<close>

theorem escaped_name_roundtrip:
  "percent_decode (path_escape s) = s \<and> CHR ''/'' \<notin> set (path_escape s) \<and> percent_decode (url_escape s) = s"
proof -
  have "\<not> url_plain CHR ''%''" by code_simp
  then have "\<And>c. url_plain c \<Longrightarrow> c \<noteq> CHR ''%''" by blast
  then have "percent_decode (path_escape s) = s" "percent_decode (url_escape s) = s"
    unfolding path_escape_alt url_escape_def by (intro decode_encoded; blast)+
  moreover have "CHR ''/'' \<notin> set (path_escape s)"
    using escape_byte_no_slash by (auto simp: path_escape_alt)
  ultimately show ?thesis by blast
qed

section \<open>Credentials and registries\<close>

lemma trim_no_ws: "no_ws s \<Longrightarrow> trim s = s"
  by (simp add: no_ws_def trim_id)

lemma takeWhile_char: "c \<notin> set a \<Longrightarrow> takeWhile (\<lambda>x. x \<noteq> c) (a @ c # b) = a" "c \<notin> set a \<Longrightarrow> takeWhile (\<lambda>x. x \<noteq> c) a = a"
  by (induction a) auto

lemma parse_registry:
  assumes "image_ref_parse s = Ok r"
  shows "ir_registry r = fst (split_registry (takeWhile (\<lambda>c. c \<noteq> CHR ''@'') (trim s)))"
proof (rule image_ref_parse_Ok [OF assms])
  fix rest digest registry path repo tag
  assume cut: "(case split_once CHR ''@'' (trim s) of Some (r, d) \<Rightarrow> (r, Some d) | None \<Rightarrow> (trim s, None)) = (rest, digest)"
    and reg: "split_registry rest = (registry, path)"
    and r: "r = \<lparr>ir_registry = registry, ir_repo = normalize_repo repo (registry = DEFAULT_REGISTRY),
                   ir_tag = (if tag = None \<and> digest = None then Some DEFAULT_TAG else tag), ir_digest = digest\<rparr>"
  have "rest = takeWhile (\<lambda>c. c \<noteq> CHR ''@'') (trim s)"
  proof (cases "split_once CHR ''@'' (trim s)")
    case None
    then have "CHR ''@'' \<notin> set (trim s)" by (rule split_once_None [THEN iffD1])
    then have "takeWhile (\<lambda>c. c \<noteq> CHR ''@'') (trim s) = trim s" by (rule takeWhile_char(2))
    moreover have "rest = trim s" using cut None by simp
    ultimately show ?thesis by (simp only:)
  next
    case (Some ab)
    then obtain b where "split_once CHR ''@'' (trim s) = Some (rest, b)" using cut by (cases ab) simp
    then have "trim s = rest @ CHR ''@'' # b \<and> CHR ''@'' \<notin> set rest" by (rule split_once_Some [THEN iffD1])
    then show ?thesis by (metis takeWhile_char(1))
  qed
  then show ?thesis using reg r by simp
qed

text \<open>For an image with a slash in its name, the credential lookup uses the registry that the
  image reference names.\<close>

theorem credential_host_agrees:
  assumes "image_ref_parse img = Ok r" "no_ws img" "CHR ''/'' \<in> set (takeWhile (\<lambda>c. c \<noteq> CHR ''@'') img)"
  shows "registry_host_for_image img = normalize_server (ir_registry r)"
proof -
  let ?rest = "takeWhile (\<lambda>c. c \<noteq> CHR ''@'') img"
  obtain first p where rest: "?rest = first @ CHR ''/'' # p" and f: "CHR ''/'' \<notin> set first"
    using split_list_first [OF assms(3)] by blast
  have img: "img = first @ CHR ''/'' # p @ dropWhile (\<lambda>c. c \<noteq> CHR ''@'') img"
    using takeWhile_dropWhile_id [of "\<lambda>c. c \<noteq> CHR ''@''" img] rest by simp
  have hd_img: "hd (split_on CHR ''/'' img) = first"
    by (subst img) (simp add: split_on_append [OF f])
  have ws: "no_ws first" using assms(2) by (subst (asm) img) (simp add: no_ws_def)
  have reg: "ir_registry r = (if looks_like_host first \<and> \<not> registry_is_default_host first then first else DEFAULT_REGISTRY)"
    using parse_registry [OF assms(1)] rest f
    by (auto simp: trim_no_ws [OF assms(2)] split_registry_def split_on_append split_once_Some [THEN iffD2])
  have dflt: "normalize_server DEFAULT_REGISTRY = ''docker.io''" by code_simp
  have hub: "normalize_server first = ''docker.io''" if "registry_is_default_host first"
    using that unfolding registry_is_default_host_def DEFAULT_REGISTRY_def by (elim disjE; simp only:; code_simp)
  show ?thesis
    using hub by (auto simp: registry_host_for_image_def hd_img reg dflt looks_like_host_def Let_def)
qed

theorem credential_host_agrees_witness:
  "\<exists>r. image_ref_parse ''GHCR.io/owner/app:1'' = Ok r \<and> registry_host_for_image ''GHCR.io/owner/app:1'' = normalize_server (ir_registry r)"
proof -
  let ?r = "\<lparr>ir_registry = ''GHCR.io'', ir_repo = ''owner/app'', ir_tag = Some ''1'', ir_digest = None\<rparr>"
  have "image_ref_parse ''GHCR.io/owner/app:1'' = Ok ?r" "no_ws ''GHCR.io/owner/app:1''"
    "CHR ''/'' \<in> set (takeWhile (\<lambda>c. c \<noteq> CHR ''@'') ''GHCR.io/owner/app:1'')" by code_simp+
  from credential_host_agrees [OF this] this(1) show ?thesis by blast
qed

text \<open>An image of Docker Hub named without a slash but with a tag is looked up under the
  image name itself, so stored Docker Hub credentials are never attached to its pull or push.\<close>

theorem hub_tag_loses_credentials:
  assumes "auth_store [] ''docker.io'' u p = Ok f"
  shows "auth_header_for_image encode decode f ''busybox:1.36'' = None
    \<and> auth_header_for_image encode decode f ''busybox'' \<noteq> None"
proof -
  have n: "normalize_server ''docker.io'' = ''docker.io''" "registry_host_for_image ''busybox:1.36'' = ''busybox:1.36''"
    "registry_host_for_image ''busybox'' = ''docker.io''" "normalize_server ''busybox:1.36'' = ''busybox:1.36''" by code_simp+
  have "u \<noteq> []" "f = [(''docker.io'', \<lparr>sa_username = u, sa_password = p, sa_auth = []\<rparr>)]"
    using assms n(1) by (auto simp: auth_store_def split: if_splits)
  then show ?thesis
    by (simp add: auth_header_for_image_def credentials_for_def n assoc_get_def)
qed

theorem hub_tag_loses_credentials_witness:
  "auth_header_for_image id Some [(''docker.io'', \<lparr>sa_username = ''u'', sa_password = ''p'', sa_auth = []\<rparr>)] ''busybox:1.36'' = None"
proof -
  have "auth_store [] ''docker.io'' ''u'' ''p'' = Ok [(''docker.io'', \<lparr>sa_username = ''u'', sa_password = ''p'', sa_auth = []\<rparr>)]"
    by code_simp
  from hub_tag_loses_credentials [OF this, of id Some] show ?thesis by blast
qed

text \<open>A login is scoped to its registry: afterwards the images of that registry are sent with
  the stored user and password, the headers of all other images are as before, and a logout takes
  the credentials away again and touches no other registry.\<close>

theorem login_scoped:
  assumes "auth_store f server u p = Ok f'"
  shows "auth_header_for_image encode decode f' img =
     (if normalize_server (registry_host_for_image img) = normalize_server server
      then Some (encode (show_json (JObj [(''password'', JStr p), (''serveraddress'', JStr (registry_host_for_image img)),
                                          (''username'', JStr u)])))
      else auth_header_for_image encode decode f img)
   \<and> auth_header_for_image encode decode (fst (auth_remove f' server)) img =
     (if normalize_server (registry_host_for_image img) = normalize_server server
      then None else auth_header_for_image encode decode f img)"
proof -
  have f': "f' = assoc_put f (normalize_server server) \<lparr>sa_username = u, sa_password = p, sa_auth = []\<rparr>" "u \<noteq> []"
    using assms by (auto simp: auth_store_def split: if_splits)
  have "fst (auth_remove f' server) = assoc_del f' (normalize_server server)"
    by (simp add: auth_remove_def f' has_key_def)
  then show ?thesis
    using f'(2) by (auto simp: auth_header_for_image_def credentials_for_def f'(1) Let_def)
qed

theorem login_scoped_witness:
  "auth_header_for_image id Some (fst (auth_remove (assoc_put [] ''ghcr.io'' \<lparr>sa_username = ''u'', sa_password = ''p'', sa_auth = []\<rparr>) ''ghcr.io'')) ''ghcr.io/a/b'' = None"
proof -
  have s: "auth_store [] ''https://ghcr.io/v2/'' ''u'' ''p'' = Ok (assoc_put [] ''ghcr.io'' \<lparr>sa_username = ''u'', sa_password = ''p'', sa_auth = []\<rparr>)"
    by code_simp
  have n: "normalize_server (registry_host_for_image ''ghcr.io/a/b'') = normalize_server ''https://ghcr.io/v2/''"
    "normalize_server ''ghcr.io'' = normalize_server ''https://ghcr.io/v2/''" by code_simp+
  then have "auth_remove f ''ghcr.io'' = auth_remove f ''https://ghcr.io/v2/''" for f
    by (simp add: auth_remove_def)
  with n show ?thesis using login_scoped [OF s, of id Some "''ghcr.io/a/b''"] by simp
qed

end
