(* ===== verification/Port_Publish.thy ===== *)
theory Port_Publish
  imports Net_Addr Create_Validation "HOL-Library.Multiset"
begin

text \<open>
  Published ports: the rule table, the conflict check, the iptables commands and the userland
  proxies of \<open>crates/network/src/lib.rs\<close> (\<open>publish_port\<close>, \<open>unpublish_all\<close>,
  \<open>allocate_ephemeral_port\<close>), and the expansion of a container's declared ports in
  \<open>publish_declared_ports\<close> of \<open>crates/runtime/src/manager.rs\<close>.

  The host is a parameter: which sockets can be bound and which iptables commands succeed, as
  functions of the state (whose command log grows with every command, so the answers may change
  over time), and the ports the kernel picks. A proxy task ends when its shutdown sender is used
  or dropped, so the live proxies are the entries of \<open>proxy_handles\<close>.
\<close>

section \<open>Addresses and rules\<close>

datatype ip_addr = V4 u32 | V6 u128

text \<open>\<open>str::parse::<IpAddr>\<close> and \<open>str::parse::<SocketAddr>\<close> on \<open>host:port\<close> with a decimal port.\<close>

definition parse_ip :: "string \<Rightarrow> ip_addr option" where
  "parse_ip s = (case parse_ipv4 s of Some a \<Rightarrow> Some (V4 a) | None \<Rightarrow> map_option V6 (parse_ipv6 s))"

definition scope_ok :: "string \<Rightarrow> bool" where
  "scope_ok s = (s \<noteq> [] \<and> list_all is_digit s \<and> dec_value s \<le> 4294967295)"

definition parse_sock_ip :: "string \<Rightarrow> ip_addr option" where
  "parse_sock_ip s = (case parse_ipv4 s of
     Some a \<Rightarrow> Some (V4 a)
   | None \<Rightarrow>
      (case strip_prefix ''['' s of
         None \<Rightarrow> None
       | Some t \<Rightarrow>
          (case strip_suffix '']'' t of
             None \<Rightarrow> None
           | Some u \<Rightarrow>
              (case split_once (CHR ''%'') u of
                 None \<Rightarrow> map_option V6 (parse_ipv6 u)
               | Some (a, sc) \<Rightarrow> if scope_ok sc then map_option V6 (parse_ipv6 a) else None))))"

record port_rule =
  pr_container_id :: string
  pr_host_ip :: string
  pr_host_port :: nat
  pr_container_ip :: string
  pr_container_port :: nat
  pr_proto :: string

definition proxy_key :: "port_rule \<Rightarrow> string" where
  "proxy_key r = pr_container_id r @ ''|'' @ pr_proto r @ ''|'' @ pr_host_ip r @ '':''
     @ show_nat (pr_host_port r)"

record port_conflict =
  pc_proto :: string
  pc_host_ip :: string
  pc_host_port :: nat
  pc_occupier :: "string option"

definition display_ip :: "string \<Rightarrow> string" where
  "display_ip ip = (if ip = [] then ''0.0.0.0'' else ip)"

definition port_conflict_fmt :: "port_conflict \<Rightarrow> string" where
  "port_conflict_fmt c =
     ''port '' @ display_ip (pc_host_ip c) @ '':'' @ show_nat (pc_host_port c) @ ''/'' @ pc_proto c @
     (case pc_occupier c of
        Some i \<Rightarrow> '' is already allocated by container '' @ take (min 12 (length i)) i
      | None \<Rightarrow> '' is already in use'')"

definition publish_ip_wild :: "string \<Rightarrow> bool" where
  "publish_ip_wild ip = (ip = [] \<or> ip = ''0.0.0.0'' \<or> ip = ''::'')"

definition publish_overlaps :: "string \<Rightarrow> string \<Rightarrow> nat \<Rightarrow> port_rule \<Rightarrow> bool" where
  "publish_overlaps proto ip port r =
     (pr_proto r = proto \<and> pr_host_port r = port
      \<and> (publish_ip_wild ip \<or> publish_ip_wild (pr_host_ip r) \<or> ip = pr_host_ip r))"

section \<open>State and host\<close>

record proxy =
  px_bind :: ip_addr
  px_port :: nat
  px_target :: "ip_addr \<times> nat"
  px_proto :: string

record port_state =
  published :: "port_rule list"
  proxy_handles :: "(string, proxy) assoc"
  iptables_log :: "(string list \<times> bool) list"

text \<open>\<open>bind_ok s udp ip port\<close>: the host lets the daemon bind this socket;
  \<open>iptables_ok s args\<close>: the command exits with success.\<close>

record net_host =
  bind_ok :: "port_state \<Rightarrow> bool \<Rightarrow> ip_addr \<Rightarrow> nat \<Rightarrow> bool"
  iptables_ok :: "port_state \<Rightarrow> string list \<Rightarrow> bool"

datatype publish_error =
    Port_Conflict port_conflict
  | Command_Failed "string list"
  | Bad_Address string
  | Allocated_By string nat string string

definition bind_addr :: "string \<Rightarrow> ip_addr option" where
  "bind_addr ip = (if ip = [] then Some (V4 0) else parse_ip ip)"

definition host_port_free :: "net_host \<Rightarrow> port_state \<Rightarrow> string \<Rightarrow> nat \<Rightarrow> string \<Rightarrow> bool" where
  "host_port_free h s ip port proto =
     (if port = 0 then False
      else case bind_addr ip of None \<Rightarrow> False | Some a \<Rightarrow> bind_ok h s (proto = ''udp'') a port)"

definition sh_iptables ::
  "net_host \<Rightarrow> string list \<Rightarrow> port_state \<Rightarrow> (publish_error, unit) result \<times> port_state" where
  "sh_iptables h args s =
     (let ok = iptables_ok h s args in
      (if ok then Ok () else Err (Command_Failed args),
       s\<lparr>iptables_log := iptables_log s @ [(args, ok)]\<rparr>))"

section \<open>Publishing one port\<close>

definition dnat_dst :: "port_rule \<Rightarrow> string" where
  "dnat_dst r = (if publish_ip_wild (pr_host_ip r) then ''0.0.0.0/0'' else pr_host_ip r)"

text \<open>The two commands of a rule; \<open>act\<close> is \<open>-A\<close> when publishing and \<open>-D\<close> when withdrawing.\<close>

definition dnat_args :: "string \<Rightarrow> port_rule \<Rightarrow> string list" where
  "dnat_args act r =
     [''-t'', ''nat'', act, ''INGOT-DNAT'', ''-p'', pr_proto r, ''-d'', dnat_dst r, ''--dport'',
      show_nat (pr_host_port r), ''-j'', ''DNAT'', ''--to-destination'',
      pr_container_ip r @ '':'' @ show_nat (pr_container_port r)]"

definition forward_args :: "string \<Rightarrow> port_rule \<Rightarrow> string list" where
  "forward_args act r =
     [act, ''FORWARD'', ''-p'', pr_proto r, ''-d'', pr_container_ip r, ''--dport'',
      show_nat (pr_container_port r), ''-j'', ''ACCEPT'']"

text \<open>The source compares all six fields, that is, the rules.\<close>

definition publish_check :: "net_host \<Rightarrow> port_rule \<Rightarrow> port_state \<Rightarrow> (publish_error, bool) result" where
  "publish_check h r s =
     (if r \<in> set (published s) then Ok False
      else case find (\<lambda>q. pr_container_id q \<noteq> pr_container_id r
                    \<and> publish_overlaps (pr_proto r) (pr_host_ip r) (pr_host_port r) q) (published s) of
        Some q \<Rightarrow> Err (Port_Conflict \<lparr>pc_proto = pr_proto r, pc_host_ip = pr_host_ip r,
                     pc_host_port = pr_host_port r, pc_occupier = Some (pr_container_id q)\<rparr>)
      | None \<Rightarrow> Ok True)"

definition publish_exec ::
  "net_host \<Rightarrow> port_rule \<Rightarrow> port_state \<Rightarrow> (publish_error, proxy) result \<times> port_state" where
  "publish_exec h r s =
     (if \<not> host_port_free h s (pr_host_ip r) (pr_host_port r) (pr_proto r)
      then (Err (Port_Conflict \<lparr>pc_proto = pr_proto r, pc_host_ip = pr_host_ip r,
                   pc_host_port = pr_host_port r, pc_occupier = None\<rparr>), s)
      else case sh_iptables h (dnat_args ''-A'' r) s of
        (Inl e, s1) \<Rightarrow> (Err e, s1)
      | (Inr _, s1) \<Rightarrow>
         (case sh_iptables h (forward_args ''-A'' r) s1 of
            (Inl e, s2) \<Rightarrow> (Err e, s2)
          | (Inr _, s2) \<Rightarrow>
             (case parse_sock_ip (pr_container_ip r) of
                None \<Rightarrow> (Err (Bad_Address (pr_container_ip r)), s2)
              | Some t \<Rightarrow>
                 (case bind_addr (pr_host_ip r) of
                    None \<Rightarrow> (Err (Bad_Address (pr_host_ip r)), s2)
                  | Some b \<Rightarrow> (Ok \<lparr>px_bind = b, px_port = pr_host_port r,
                                  px_target = (t, pr_container_port r), px_proto = pr_proto r\<rparr>, s2)))))"

definition publish_commit :: "port_rule \<Rightarrow> proxy \<Rightarrow> port_state \<Rightarrow> port_state" where
  "publish_commit r px s =
     (if r \<in> set (published s) then s
      else s\<lparr>proxy_handles := assoc_put (proxy_handles s) (proxy_key r) px,
             published := published s @ [r]\<rparr>)"

definition publish_port ::
  "net_host \<Rightarrow> port_rule \<Rightarrow> port_state \<Rightarrow> (publish_error, unit) result \<times> port_state" where
  "publish_port h r s =
     (case publish_check h r s of
        Inl e \<Rightarrow> (Err e, s)
      | Inr False \<Rightarrow> (Ok (), s)
      | Inr True \<Rightarrow>
         (case publish_exec h r s of
            (Inl e, s1) \<Rightarrow> (Err e, s1)
          | (Inr px, s1) \<Rightarrow> (Ok (), publish_commit r px s1)))"

section \<open>Ephemeral ports, queries and withdrawal\<close>

definition used_ports :: "port_state \<Rightarrow> string \<Rightarrow> nat list" where
  "used_ports s proto = map pr_host_port (filter (\<lambda>r. pr_proto r = proto) (published s))"

definition port_usable :: "net_host \<Rightarrow> port_state \<Rightarrow> string \<Rightarrow> nat \<Rightarrow> bool" where
  "port_usable h s proto p = (p \<notin> set (used_ports s proto) \<and> host_port_free h s [] p proto)"

text \<open>\<open>pick i\<close> is the port the kernel gives to the \<open>i\<close>-th \<open>bind\<close> to port 0, if that succeeds.\<close>

definition kernel_port ::
  "net_host \<Rightarrow> port_state \<Rightarrow> string \<Rightarrow> (nat \<Rightarrow> nat option) \<Rightarrow> nat \<Rightarrow> nat option" where
  "kernel_port h s proto pick i = (case pick i of
     None \<Rightarrow> None
   | Some p \<Rightarrow> if p \<noteq> 0 \<and> port_usable h s proto p then Some p else None)"

definition first_some :: "('a \<Rightarrow> 'b option) \<Rightarrow> 'a list \<Rightarrow> 'b option" where
  "first_some f xs = foldr (\<lambda>x r. case f x of None \<Rightarrow> r | Some y \<Rightarrow> Some y) xs None"

definition allocate_ephemeral_port ::
  "net_host \<Rightarrow> (nat \<Rightarrow> nat option) \<Rightarrow> string \<Rightarrow> port_state \<Rightarrow> nat" where
  "allocate_ephemeral_port h pick proto s =
     (case first_some (kernel_port h s proto pick) [0..<16] of
        Some p \<Rightarrow> p
      | None \<Rightarrow> (case find (port_usable h s proto) [32768..<61000] of Some p \<Rightarrow> p | None \<Rightarrow> 32768))"

definition published_for :: "string \<Rightarrow> port_state \<Rightarrow> port_rule list" where
  "published_for c s = filter (\<lambda>r. pr_container_id r = c) (published s)"

fun withdraw_rules :: "net_host \<Rightarrow> port_rule list \<Rightarrow> port_state \<Rightarrow> port_state" where
  "withdraw_rules h [] s = s"
| "withdraw_rules h (r # rs) s =
     withdraw_rules h rs
       (snd (sh_iptables h (forward_args ''-D'' r) (snd (sh_iptables h (dnat_args ''-D'' r) s))))"

definition unpublish_all :: "net_host \<Rightarrow> string \<Rightarrow> port_state \<Rightarrow> port_state" where
  "unpublish_all h c s =
     (let mine = filter (\<lambda>r. pr_container_id r = c) (published s);
          kept = filter (\<lambda>r. pr_container_id r \<noteq> c) (published s);
          handles = filter (\<lambda>(k, _). \<not> starts_with (c @ ''|'') k) (proxy_handles s)
      in withdraw_rules h mine (s\<lparr>proxy_handles := handles, published := kept\<rparr>))"

section \<open>The ports a container declares\<close>

definition split_port_key :: "string \<Rightarrow> (nat \<times> string) option" where
  "split_port_key k =
     (let (port_str, proto) = (case split_once (CHR ''/'') k of Some (p, t) \<Rightarrow> (p, t) | None \<Rightarrow> (k, ''tcp''))
      in if proto \<noteq> ''tcp'' \<and> proto \<noteq> ''udp'' then None
         else case parse_u16 port_str of None \<Rightarrow> None | Some p \<Rightarrow> if p \<noteq> 0 then Some (p, proto) else None)"

type_synonym port_spec = "nat \<times> string \<times> string \<times> nat"

text \<open>The expansion threads the number of ephemeral allocations made so far, which selects the
  kernel's answers for the next one.\<close>

definition binding_spec ::
  "(nat \<Rightarrow> string \<Rightarrow> nat) \<Rightarrow> nat \<Rightarrow> string \<Rightarrow> port_binding \<Rightarrow> nat \<Rightarrow> port_spec \<times> nat" where
  "binding_spec eph cport proto b n =
     (case parse_u16 (HostPort b) of
        Some p \<Rightarrow> if p \<noteq> 0 then ((cport, proto, HostIp b, p), n) else ((cport, proto, HostIp b, eph n proto), Suc n)
      | None \<Rightarrow> ((cport, proto, HostIp b, eph n proto), Suc n))"

fun binding_specs ::
  "(nat \<Rightarrow> string \<Rightarrow> nat) \<Rightarrow> nat \<Rightarrow> string \<Rightarrow> port_binding list \<Rightarrow> nat \<Rightarrow> port_spec list \<times> nat" where
  "binding_specs eph cport proto [] n = ([], n)"
| "binding_specs eph cport proto (b # bs) n =
     (case binding_spec eph cport proto b n of
        (sp, n1) \<Rightarrow> (case binding_specs eph cport proto bs n1 of (sps, n2) \<Rightarrow> (sp # sps, n2)))"

fun explicit_specs ::
  "(nat \<Rightarrow> string \<Rightarrow> nat) \<Rightarrow> (string, port_binding list) assoc \<Rightarrow> string list \<Rightarrow> nat \<Rightarrow> port_spec list \<times> nat" where
  "explicit_specs eph m [] n = ([], n)"
| "explicit_specs eph m (k # ks) n =
     (case split_port_key k of
        None \<Rightarrow> explicit_specs eph m ks n
      | Some (cport, proto) \<Rightarrow>
         (case binding_specs eph cport proto (case assoc_get m k of None \<Rightarrow> [] | Some bs \<Rightarrow> bs) n of
            (sps, n1) \<Rightarrow> (case explicit_specs eph m ks n1 of (sps', n2) \<Rightarrow> (sps @ sps', n2))))"

fun exposed_specs ::
  "(nat \<Rightarrow> string \<Rightarrow> nat) \<Rightarrow> (nat \<times> string) list \<Rightarrow> string list \<Rightarrow> nat \<Rightarrow> port_spec list" where
  "exposed_specs eph covered [] n = []"
| "exposed_specs eph covered (k # ks) n =
     (case split_port_key k of
        None \<Rightarrow> exposed_specs eph covered ks n
      | Some (cport, proto) \<Rightarrow>
          if (cport, proto) \<in> set covered then exposed_specs eph covered ks n
          else (cport, proto, [], eph n proto) # exposed_specs eph covered ks (Suc n))"

definition declared_specs ::
  "(nat \<Rightarrow> string \<Rightarrow> nat) \<Rightarrow> container_record \<Rightarrow> port_spec list" where
  "declared_specs eph rec =
     (let hc = cr_hostconfig rec;
          (specs, n) = explicit_specs eph (PortBindings hc)
                         (sort_by str_le (assoc_keys (PortBindings hc))) 0;
          covered = map (\<lambda>(cport, proto, _). (cport, proto)) specs
      in if PublishAllPorts hc
         then specs @ exposed_specs eph covered
                (sort_by str_le (case c_ExposedPorts (cr_config rec) of None \<Rightarrow> [] | Some m \<Rightarrow> assoc_keys m)) n
         else specs)"

definition spec_rule :: "string \<Rightarrow> string \<Rightarrow> port_spec \<Rightarrow> port_rule" where
  "spec_rule cid cip sp = (case sp of (cport, proto, ip, hport) \<Rightarrow>
     \<lparr>pr_container_id = cid, pr_host_ip = ip, pr_host_port = hport, pr_container_ip = cip,
      pr_container_port = cport, pr_proto = proto\<rparr>)"

definition name_occupier :: "(string \<Rightarrow> string option) \<Rightarrow> publish_error \<Rightarrow> publish_error" where
  "name_occupier names e = (case e of
     Port_Conflict c \<Rightarrow>
       (case pc_occupier c of
          Some i \<Rightarrow> Allocated_By (display_ip (pc_host_ip c)) (pc_host_port c) (pc_proto c)
                      (case names i of Some n \<Rightarrow> n | None \<Rightarrow> take (min 12 (length i)) i)
        | None \<Rightarrow> e)
   | _ \<Rightarrow> e)"

fun publish_seq ::
  "('r \<Rightarrow> 's \<Rightarrow> ('e, unit) result \<times> 's) \<Rightarrow> 'r list \<Rightarrow> 's \<Rightarrow> ('e, unit) result \<times> 's" where
  "publish_seq publish [] s = (Ok (), s)"
| "publish_seq publish (r # rs) s =
     (case publish r s of
        (Inl e, s1) \<Rightarrow> (Err e, s1)
      | (Inr _, s1) \<Rightarrow> publish_seq publish rs s1)"

definition publish_declared_ports ::
  "net_host \<Rightarrow> (nat \<Rightarrow> nat \<Rightarrow> nat option) \<Rightarrow> (string \<Rightarrow> string option) \<Rightarrow> container_record \<Rightarrow> string
    \<Rightarrow> port_state \<Rightarrow> (publish_error, unit) result \<times> port_state" where
  "publish_declared_ports h picks names rec cip s =
     (let specs = declared_specs (\<lambda>n proto. allocate_ephemeral_port h (picks n) proto s) rec in
      case publish_seq (publish_port h) (map (spec_rule (cr_id rec) cip) specs) s of
        (Inl e, s1) \<Rightarrow> (Err (name_occupier names e), s1)
      | (Inr _, s1) \<Rightarrow> (Ok (), s1))"

text \<open>The rollback of a start whose ports cannot be published, as far as ports are concerned.\<close>

definition publish_or_rollback ::
  "net_host \<Rightarrow> (nat \<Rightarrow> nat \<Rightarrow> nat option) \<Rightarrow> (string \<Rightarrow> string option) \<Rightarrow> container_record \<Rightarrow> string
    \<Rightarrow> port_state \<Rightarrow> (publish_error, unit) result \<times> port_state" where
  "publish_or_rollback h picks names rec cip s =
     (case publish_declared_ports h picks names rec cip s of
        (Inl e, s1) \<Rightarrow> (Err e, unpublish_all h (cr_id rec) s1)
      | (Inr _, s1) \<Rightarrow> (Ok (), s1))"

section \<open>Concurrent publications\<close>

text \<open>The table's lock is held during the check and during the commit, not in between: a publication
  is a task of three steps and other tasks run between them.\<close>

datatype publish_task =
    T_Check port_rule
  | T_Exec port_rule
  | T_Commit port_rule proxy
  | T_Done "(publish_error, unit) result"

fun task_step :: "net_host \<Rightarrow> publish_task \<Rightarrow> port_state \<Rightarrow> publish_task \<times> port_state" where
  "task_step h (T_Check r) s = (case publish_check h r s of
     Inl e \<Rightarrow> (T_Done (Err e), s)
   | Inr False \<Rightarrow> (T_Done (Ok ()), s)
   | Inr True \<Rightarrow> (T_Exec r, s))"
| "task_step h (T_Exec r) s = (case publish_exec h r s of
     (Inl e, s1) \<Rightarrow> (T_Done (Err e), s1)
   | (Inr px, s1) \<Rightarrow> (T_Commit r px, s1))"
| "task_step h (T_Commit r px) s = (T_Done (Ok ()), publish_commit r px s)"
| "task_step h (T_Done x) s = (T_Done x, s)"

inductive interleave ::
  "net_host \<Rightarrow> publish_task list \<times> port_state \<Rightarrow> publish_task list \<times> port_state \<Rightarrow> bool"
  for h :: net_host where
  start: "interleave h c c"
| sched: "interleave h c (ts, s) \<Longrightarrow> i < length ts \<Longrightarrow> task_step h (ts ! i) s = (t, s')
    \<Longrightarrow> interleave h c (ts[i := t], s')"

fun run_schedule ::
  "net_host \<Rightarrow> nat list \<Rightarrow> publish_task list \<times> port_state \<Rightarrow> publish_task list \<times> port_state" where
  "run_schedule h [] c = c"
| "run_schedule h (i # is) (ts, s) =
     (if i < length ts
      then case task_step h (ts ! i) s of (t, s') \<Rightarrow> run_schedule h is (ts[i := t], s')
      else run_schedule h is (ts, s))"

section \<open>The contract of the rule table\<close>

text \<open>What the start of a container relies on: publishing a rule either appends it, without a
  clash with another owner's rule, or leaves the table as it was; withdrawing removes exactly one
  owner's rules.\<close>

locale port_table =
  fixes rules :: "'s \<Rightarrow> 'r list"
    and owner :: "'r \<Rightarrow> 'o"
    and clash :: "'r \<Rightarrow> 'r \<Rightarrow> bool"
    and publish :: "'r \<Rightarrow> 's \<Rightarrow> ('e, unit) result \<times> 's"
    and withdraw :: "'o \<Rightarrow> 's \<Rightarrow> 's"
  assumes clash_sym: "clash p q \<Longrightarrow> clash q p"
    and publish_known: "r \<in> set (rules s) \<Longrightarrow> publish r s = (Ok (), s)"
    and publish_new: "publish r s = (Ok (), s') \<Longrightarrow> r \<notin> set (rules s) \<Longrightarrow> rules s' = rules s @ [r]"
    and publish_fresh: "publish r s = (Ok (), s') \<Longrightarrow> r \<notin> set (rules s) \<Longrightarrow> q \<in> set (rules s)
      \<Longrightarrow> owner q \<noteq> owner r \<Longrightarrow> \<not> clash r q"
    and publish_Err: "publish r s = (Err e, s') \<Longrightarrow> rules s' = rules s"
    and withdraw_rules: "rules (withdraw c s) = filter (\<lambda>r. owner r \<noteq> c) (rules s)"
begin

definition exclusive :: "'s \<Rightarrow> bool" where
  "exclusive s = (\<forall>p \<in> set (rules s). \<forall>q \<in> set (rules s). owner p \<noteq> owner q \<longrightarrow> \<not> clash p q)"

lemma publish_exclusive:
  assumes "exclusive s"
  shows "exclusive (snd (publish r s))"
proof (cases "publish r s")
  case (Pair res s')
  show ?thesis
  proof (cases res)
    case (Inl e)
    with Pair have "publish r s = (Err e, s')" by simp
    then show ?thesis
      using assms publish_Err by (simp add: exclusive_def)
  next
    case (Inr u)
    with Pair have ok: "publish r s = (Ok (), s')" by simp
    show ?thesis
    proof (cases "r \<in> set (rules s)")
      case True
      then show ?thesis using assms publish_known by simp
    next
      case False
      then show ?thesis
        using assms publish_new [OF ok False] publish_fresh [OF ok False]
        by (auto simp: ok exclusive_def dest: clash_sym)
    qed
  qed
qed

lemma withdraw_exclusive: "exclusive s \<Longrightarrow> exclusive (withdraw c s)"
  by (auto simp: exclusive_def withdraw_rules)

lemma publish_rules_cases:
  assumes "publish r s = (res, s')"
  shows "rules s' = rules s \<and> (is_ok res \<longrightarrow> r \<in> set (rules s))
    \<or> is_ok res \<and> r \<notin> set (rules s) \<and> rules s' = rules s @ [r]"
  using assms publish_known [of r s] publish_new [of r s s'] publish_Err [of r s _ s']
  by (cases res; cases "r \<in> set (rules s)") auto

lemma seq_exclusive:
  "exclusive s \<Longrightarrow> exclusive (snd (publish_seq publish rs s))"
proof (induction rs arbitrary: s)
  case (Cons r rs)
  then show ?case
    using publish_exclusive [OF Cons.prems, of r]
    by (auto split: prod.splits sum.splits)
qed simp

lemma seq_rules:
  assumes "publish_seq publish rs s = (res, s')"
  shows "\<exists>ps. rules s' = rules s @ ps \<and> set ps \<subseteq> set rs \<and> distinct ps \<and> set ps \<inter> set (rules s) = {}
    \<and> (is_ok res \<longrightarrow> set rs \<subseteq> set (rules s'))"
  using assms
proof (induction rs arbitrary: s)
  case (Cons r rs)
  obtain res1 s1 where p: "publish r s = (res1, s1)" by (cases "publish r s")
  show ?case
  proof (cases res1)
    case (Inl e)
    with Cons.prems p show ?thesis using publish_Err [of r s e s1] by auto
  next
    case (Inr u)
    with Cons.prems p have "publish_seq publish rs s1 = (res, s')" by simp
    from Cons.IH [OF this] obtain ps where ps: "rules s' = rules s1 @ ps" "set ps \<subseteq> set rs"
      "distinct ps" "set ps \<inter> set (rules s1) = {}" "is_ok res \<longrightarrow> set rs \<subseteq> set (rules s')"
      by blast
    from publish_rules_cases [OF p] Inr consider
      "rules s1 = rules s" "r \<in> set (rules s)" | "r \<notin> set (rules s)" "rules s1 = rules s @ [r]"
      by auto
    then show ?thesis
    proof cases
      case 1
      with ps show ?thesis by (intro exI [of _ ps]) auto
    next
      case 2
      with ps show ?thesis by (intro exI [of _ "r # ps"]) auto
    qed
  qed
qed simp

lemma seq_rollback:
  assumes "publish_seq publish rs s = (res, s')" "\<And>r. r \<in> set rs \<Longrightarrow> owner r = c"
  shows "rules (withdraw c s') = rules (withdraw c s)"
proof -
  obtain ps where "rules s' = rules s @ ps" "set ps \<subseteq> set rs"
    using seq_rules [OF assms(1)] by auto
  moreover then have "filter (\<lambda>r. owner r \<noteq> c) ps = []"
    using assms(2) by (auto simp: filter_empty_conv)
  ultimately show ?thesis by (simp add: withdraw_rules)
qed

end

section \<open>The model's table satisfies the contract\<close>

definition rules_clash :: "port_rule \<Rightarrow> port_rule \<Rightarrow> bool" where
  "rules_clash p q = publish_overlaps (pr_proto p) (pr_host_ip p) (pr_host_port p) q"

lemma rules_clash_sym: "rules_clash p q \<Longrightarrow> rules_clash q p"
  by (auto simp: rules_clash_def publish_overlaps_def)

lemma sh_iptables_frame [simp]:
  "published (snd (sh_iptables h args s)) = published s"
  "proxy_handles (snd (sh_iptables h args s)) = proxy_handles s"
  by (simp_all add: sh_iptables_def Let_def)

lemma sh_iptables_frame_eq:
  "sh_iptables h args s = (x, s') \<Longrightarrow> published s' = published s \<and> proxy_handles s' = proxy_handles s"
  using sh_iptables_frame [of h args s] by simp

lemma publish_exec_frame:
  "publish_exec h r s = (x, s') \<Longrightarrow> published s' = published s \<and> proxy_handles s' = proxy_handles s"
  by (auto simp: publish_exec_def split: if_splits prod.splits sum.splits option.splits
      dest!: sh_iptables_frame_eq)

lemma withdraw_rules_frame [simp]:
  "published (withdraw_rules h rs s) = published s"
  "proxy_handles (withdraw_rules h rs s) = proxy_handles s"
  by (induction rs arbitrary: s) simp_all

lemma publish_check_True:
  "publish_check h r s = Ok True \<longleftrightarrow> r \<notin> set (published s)
     \<and> (\<forall>q \<in> set (published s). pr_container_id q \<noteq> pr_container_id r \<longrightarrow> \<not> rules_clash r q)"
  by (auto simp: publish_check_def rules_clash_def find_None_iff split: option.splits
      dest!: find_SomeD)

lemma publish_check_False: "publish_check h r s = Ok False \<longleftrightarrow> r \<in> set (published s)"
  by (auto simp: publish_check_def split: option.splits)

text \<open>The outcomes of a publication that starts and ends without another one in between.\<close>

lemma publish_port_cases:
  assumes "publish_port h r s = (res, s')"
  obtains (known) "r \<in> set (published s)" "res = Ok ()" "s' = s"
  | (refused) e where "publish_check h r s = Err e" "res = Err e" "s' = s"
  | (failed) e where "publish_check h r s = Ok True" "publish_exec h r s = (Err e, s')" "res = Err e"
  | (committed) px s1 where "publish_check h r s = Ok True" "publish_exec h r s = (Ok px, s1)"
      "res = Ok ()" "s' = publish_commit r px s1"
proof (cases "publish_check h r s")
  case (Inl e)
  with assms show thesis by (intro refused) (auto simp: publish_port_def)
next
  case (Inr go)
  show thesis
  proof (cases go)
    case True
    obtain x s1 where x: "publish_exec h r s = (x, s1)" by (cases "publish_exec h r s")
    show thesis
    proof (cases x)
      case (Inl e)
      with assms Inr True x show thesis
        by (intro failed [of e]) (auto simp: publish_port_def)
    next
      case (Inr px)
      with assms \<open>publish_check h r s = Ok go\<close> True x show thesis
        by (intro committed [of px s1]) (auto simp: publish_port_def)
    qed
  next
    case False
    with assms Inr show thesis
      by (intro known) (auto simp: publish_port_def publish_check_False)
  qed
qed

lemma publish_port_known: "r \<in> set (published s) \<Longrightarrow> publish_port h r s = (Ok (), s)"
  by (simp add: publish_port_def publish_check_def)

lemma publish_port_Err_frame:
  assumes "publish_port h r s = (Err e, s')"
  shows "published s' = published s" and "proxy_handles s' = proxy_handles s"
  using assms by (auto elim!: publish_port_cases dest: publish_exec_frame)

lemma publish_port_new:
  assumes "publish_port h r s = (Ok (), s')" "r \<notin> set (published s)"
  shows "published s' = published s @ [r]"
    and "\<exists>px. proxy_handles s' = assoc_put (proxy_handles s) (proxy_key r) px"
    and "publish_check h r s = Ok True"
  using assms by (auto elim!: publish_port_cases simp: publish_commit_def dest!: publish_exec_frame)

lemma published_unpublish_all [simp]:
  "published (unpublish_all h c s) = filter (\<lambda>r. pr_container_id r \<noteq> c) (published s)"
  by (simp add: unpublish_all_def)

lemma handles_unpublish_all [simp]:
  "proxy_handles (unpublish_all h c s) = filter (\<lambda>(k, _). \<not> starts_with (c @ ''|'') k) (proxy_handles s)"
  by (simp add: unpublish_all_def)

interpretation pt: port_table published pr_container_id rules_clash "publish_port h" "unpublish_all h"
  for h :: net_host
proof unfold_locales
  fix p q r :: port_rule and s s' :: port_state and e :: publish_error and c :: string
  show "rules_clash p q \<Longrightarrow> rules_clash q p" by (rule rules_clash_sym)
  show "r \<in> set (published s) \<Longrightarrow> publish_port h r s = (Ok (), s)" by (rule publish_port_known)
  show "publish_port h r s = (Ok (), s') \<Longrightarrow> r \<notin> set (published s) \<Longrightarrow> published s' = published s @ [r]"
    by (rule publish_port_new)
  show "publish_port h r s = (Ok (), s') \<Longrightarrow> r \<notin> set (published s) \<Longrightarrow> q \<in> set (published s)
    \<Longrightarrow> pr_container_id q \<noteq> pr_container_id r \<Longrightarrow> \<not> rules_clash r q"
    using publish_port_new(3) by (simp add: publish_check_True)
  show "publish_port h r s = (Err e, s') \<Longrightarrow> published s' = published s"
    by (rule publish_port_Err_frame)
  show "published (unpublish_all h c s) = filter (\<lambda>r. pr_container_id r \<noteq> c) (published s)" by simp
qed

section \<open>Invariant of the table and its proxies\<close>

abbreviation no_clash :: "port_state \<Rightarrow> bool" where "no_clash \<equiv> pt.exclusive"

lemma no_clash_iff:
  "no_clash s \<longleftrightarrow> (\<forall>p \<in> set (published s). \<forall>q \<in> set (published s).
     pr_container_id p \<noteq> pr_container_id q \<longrightarrow> \<not> rules_clash p q)"
  by (simp add: pt.exclusive_def)

text \<open>The table has no rule twice and every rule has a live proxy under its key, and no other proxy
  is live. Container ids are hexadecimal, so they have no bar.\<close>

definition table_wf :: "port_state \<Rightarrow> bool" where
  "table_wf s \<longleftrightarrow> distinct (published s) \<and> (\<forall>r \<in> set (published s). CHR ''|'' \<notin> set (pr_container_id r))
     \<and> fst ` set (proxy_handles s) = proxy_key ` set (published s)"

datatype port_op = Publish port_rule | Withdraw string

fun port_exec :: "net_host \<Rightarrow> port_op \<Rightarrow> port_state \<Rightarrow> port_state" where
  "port_exec h (Publish r) s = snd (publish_port h r s)"
| "port_exec h (Withdraw c) s = unpublish_all h c s"

definition port_run :: "net_host \<Rightarrow> port_op list \<Rightarrow> port_state \<Rightarrow> port_state" where
  "port_run h ops s = foldl (\<lambda>s op. port_exec h op s) s ops"

fun op_ids_ok :: "port_op \<Rightarrow> bool" where
  "op_ids_ok (Publish r) = (CHR ''|'' \<notin> set (pr_container_id r))"
| "op_ids_ok (Withdraw c) = (CHR ''|'' \<notin> set c)"

lemma table_wf_commit:
  assumes "table_wf s" "CHR ''|'' \<notin> set (pr_container_id r)"
  shows "table_wf (publish_commit r px s)"
  using assms by (auto simp: table_wf_def publish_commit_def set_assoc_put_keys)

lemma table_wf_cong:
  "published s' = published s \<Longrightarrow> proxy_handles s' = proxy_handles s \<Longrightarrow> table_wf s' = table_wf s"
  by (simp add: table_wf_def)

lemma table_wf_exec: "publish_exec h r s = (x, s') \<Longrightarrow> table_wf s' = table_wf s"
  using publish_exec_frame table_wf_cong by blast

lemma table_wf_publish:
  assumes "table_wf s" "CHR ''|'' \<notin> set (pr_container_id r)"
  shows "table_wf (snd (publish_port h r s))"
proof (cases "publish_port h r s")
  case (Pair res s')
  then show ?thesis
    using assms table_wf_commit table_wf_exec
    by (elim publish_port_cases) (auto simp: Pair)
qed

lemma proxy_key_starts_with:
  assumes "CHR ''|'' \<notin> set c" "CHR ''|'' \<notin> set (pr_container_id r)"
  shows "starts_with (c @ ''|'') (proxy_key r) \<longleftrightarrow> pr_container_id r = c"
proof
  assume "starts_with (c @ ''|'') (proxy_key r)"
  then obtain t where "pr_container_id r @ CHR ''|'' # pr_proto r @ ''|'' @ pr_host_ip r @ '':''
      @ show_nat (pr_host_port r) = c @ CHR ''|'' # t"
    by (auto simp: starts_with_iff proxy_key_def)
  then show "pr_container_id r = c"
    using assms by (simp add: separator_unique)
qed (auto simp: starts_with_iff proxy_key_def)

lemma table_wf_unpublish:
  assumes wf: "table_wf s" and c: "CHR ''|'' \<notin> set c"
  shows "table_wf (unpublish_all h c s)"
proof -
  have "fst ` set (filter (\<lambda>(k, _). \<not> starts_with (c @ ''|'') k) (proxy_handles s))
      = {k \<in> fst ` set (proxy_handles s). \<not> starts_with (c @ ''|'') k}"
    by force
  also have "\<dots> = {k \<in> proxy_key ` set (published s). \<not> starts_with (c @ ''|'') k}"
    using wf by (simp add: table_wf_def)
  also have "\<dots> = proxy_key ` {r \<in> set (published s). pr_container_id r \<noteq> c}"
    using wf c by (auto simp: table_wf_def proxy_key_starts_with)
  finally show ?thesis
    using wf by (simp add: table_wf_def)
qed

lemma port_exec_inv:
  assumes "op_ids_ok op" "table_wf s" "no_clash s"
  shows "table_wf (port_exec h op s) \<and> no_clash (port_exec h op s)"
  using assms
  by (cases op) (simp_all add: table_wf_publish table_wf_unpublish pt.publish_exclusive pt.withdraw_exclusive)

definition empty_ports :: port_state where
  "empty_ports = \<lparr>published = [], proxy_handles = [], iptables_log = []\<rparr>"

lemma port_run_snoc [simp]: "port_run h (ops @ [op]) s = port_exec h op (port_run h ops s)"
  by (simp add: port_run_def)

lemma port_run_Nil [simp]: "port_run h [] s = s"
  by (simp add: port_run_def)


section \<open>The firewall follows the table\<close>

text \<open>What the logged commands leave in the firewall: \<open>-A\<close> appends a rule, \<open>-D\<close> deletes one
  matching rule, a failed command changes nothing.\<close>

fun fw_command :: "string list \<Rightarrow> string \<times> string list" where
  "fw_command (t # n # act # rest) = (if t = ''-t'' then (act, t # n # rest) else (t, n # act # rest))"
| "fw_command args = ([], args)"

definition fw_apply :: "string list multiset \<Rightarrow> string list \<times> bool \<Rightarrow> string list multiset" where
  "fw_apply m c = (case c of (args, ok) \<Rightarrow> case fw_command args of (act, rule) \<Rightarrow>
     if \<not> ok then m else if act = ''-A'' then add_mset rule m
     else if act = ''-D'' then m - {#rule#} else m)"

definition firewall :: "port_state \<Rightarrow> string list multiset" where
  "firewall s = foldl fw_apply {#} (iptables_log s)"

definition fw_dnat :: "port_rule \<Rightarrow> string list" where
  "fw_dnat r = snd (fw_command (dnat_args ''-A'' r))"

definition fw_forward :: "port_rule \<Rightarrow> string list" where
  "fw_forward r = snd (fw_command (forward_args ''-A'' r))"

fun fw_rules :: "port_rule list \<Rightarrow> string list multiset" where
  "fw_rules [] = {#}"
| "fw_rules (r # rs) = {#fw_dnat r, fw_forward r#} + fw_rules rs"

lemma fw_rules_append [simp]: "fw_rules (xs @ ys) = fw_rules xs + fw_rules ys"
  by (induction xs) simp_all

lemma fw_rules_split: "fw_rules (filter P rs) + fw_rules (filter (\<lambda>r. \<not> P r) rs) = fw_rules rs"
  by (induction rs) auto

lemma fw_command_args [simp]:
  "fw_command (dnat_args act r) = (act, fw_dnat r)"
  "act = ''-A'' \<or> act = ''-D'' \<Longrightarrow> fw_command (forward_args act r) = (act, fw_forward r)"
  by (auto simp: fw_dnat_def fw_forward_def dnat_args_def forward_args_def)

lemma firewall_sh:
  assumes "iptables_ok h s args"
  shows "firewall (snd (sh_iptables h args s)) = fw_apply (firewall s) (args, True)"
  using assms by (simp add: firewall_def sh_iptables_def Let_def)

lemma firewall_cong: "iptables_log s' = iptables_log s \<Longrightarrow> firewall s' = firewall s"
  by (simp add: firewall_def)

lemma fw_apply_args [simp]:
  "fw_apply m (dnat_args ''-A'' r, True) = add_mset (fw_dnat r) m"
  "fw_apply m (dnat_args ''-D'' r, True) = m - {#fw_dnat r#}"
  "fw_apply m (forward_args ''-A'' r, True) = add_mset (fw_forward r) m"
  "fw_apply m (forward_args ''-D'' r, True) = m - {#fw_forward r#}"
  by (simp_all add: fw_apply_def)

definition iptables_works :: "net_host \<Rightarrow> bool" where
  "iptables_works h \<longleftrightarrow> (\<forall>s args. iptables_ok h s args)"

lemma firewall_withdraw:
  assumes "iptables_works h"
  shows "firewall (withdraw_rules h rs s) = firewall s - fw_rules rs"
  using assms
  by (induction rs arbitrary: s) (simp_all add: iptables_works_def firewall_sh add_mset_commute)

lemma sh_iptables_works: "iptables_works h \<Longrightarrow> fst (sh_iptables h args s) = Ok ()"
  by (simp add: iptables_works_def sh_iptables_def Let_def)

lemma publish_exec_firewall:
  assumes "iptables_works h" "parse_sock_ip (pr_container_ip r) \<noteq> None" "publish_exec h r s = (x, s')"
  shows "case x of Inl e \<Rightarrow> s' = s | Inr _ \<Rightarrow> firewall s' = firewall s + {#fw_dnat r, fw_forward r#}"
proof (cases "host_port_free h s (pr_host_ip r) (pr_host_port r) (pr_proto r)")
  case False
  then show ?thesis using assms(3) by (auto simp: publish_exec_def)
next
  case True
  then obtain b where b: "bind_addr (pr_host_ip r) = Some b"
    by (auto simp: host_port_free_def split: if_splits option.splits)
  obtain t where t: "parse_sock_ip (pr_container_ip r) = Some t" using assms(2) by blast
  have sh: "sh_iptables h args u = (Ok (), snd (sh_iptables h args u))" for args u
    using sh_iptables_works [OF assms(1)] by (metis prod.collapse)
  define s1 where "s1 = snd (sh_iptables h (dnat_args ''-A'' r) s)"
  define s2 where "s2 = snd (sh_iptables h (forward_args ''-A'' r) s1)"
  have "firewall s2 = firewall s + {#fw_dnat r, fw_forward r#}"
    using assms(1) by (simp add: s1_def s2_def iptables_works_def firewall_sh add_mset_commute)
  moreover have "is_ok x \<and> s' = s2"
    using assms(3) True b t sh [of "dnat_args ''-A'' r" s, folded s1_def]
      sh [of "forward_args ''-A'' r" s1, folded s2_def]
    by (auto simp: publish_exec_def)
  ultimately show ?thesis by (auto simp: is_ok_iff)
qed

definition firewall_sync :: "port_state \<Rightarrow> bool" where
  "firewall_sync s \<longleftrightarrow> firewall s = fw_rules (published s)"

lemma firewall_commit [simp]: "firewall (publish_commit r px s) = firewall s"
  by (simp add: publish_commit_def firewall_def)

lemma firewall_sync_publish:
  assumes "iptables_works h" "parse_sock_ip (pr_container_ip r) \<noteq> None" "firewall_sync s"
  shows "firewall_sync (snd (publish_port h r s))"
proof (cases "publish_port h r s")
  case (Pair res s')
  then show ?thesis
  proof (cases rule: publish_port_cases)
    case (failed e)
    with publish_exec_firewall [OF assms(1,2) failed(2)] assms(3) Pair show ?thesis by simp
  next
    case (committed px s1)
    have "firewall s1 = firewall s + {#fw_dnat r, fw_forward r#}"
      using publish_exec_firewall [OF assms(1,2) committed(2)] by simp
    moreover have "published s' = published s @ [r]"
      using committed publish_exec_frame [OF committed(2)]
      by (simp add: publish_commit_def publish_check_True)
    ultimately show ?thesis
      using assms(3) committed(4) Pair by (simp add: firewall_sync_def)
  qed (use assms(3) Pair in simp_all)
qed

lemma firewall_sync_unpublish:
  assumes "iptables_works h" "firewall_sync s"
  shows "firewall_sync (unpublish_all h c s)"
proof -
  have "firewall (unpublish_all h c s)
      = firewall s - fw_rules (filter (\<lambda>r. pr_container_id r = c) (published s))"
    using assms(1) by (simp add: unpublish_all_def firewall_withdraw) (simp add: firewall_def)
  also have "\<dots> = fw_rules (filter (\<lambda>r. pr_container_id r \<noteq> c) (published s))"
    using assms(2) fw_rules_split [of "\<lambda>r. pr_container_id r = c" "published s"]
    by (simp add: firewall_sync_def) (metis add_diff_cancel_left')
  finally show ?thesis by (simp add: firewall_sync_def)
qed

fun op_addr_ok :: "port_op \<Rightarrow> bool" where
  "op_addr_ok (Publish r) = (parse_sock_ip (pr_container_ip r) \<noteq> None)"
| "op_addr_ok (Withdraw c) = True"


section \<open>Starting and rolling back\<close>

lemma spec_rule_owner [simp]: "pr_container_id (spec_rule cid cip sp) = cid"
  by (simp add: spec_rule_def split: prod.splits)

definition declared_rules ::
  "net_host \<Rightarrow> (nat \<Rightarrow> nat \<Rightarrow> nat option) \<Rightarrow> container_record \<Rightarrow> string \<Rightarrow> port_state \<Rightarrow> port_rule list" where
  "declared_rules h picks rec cip s = map (spec_rule (cr_id rec) cip)
     (declared_specs (\<lambda>n proto. allocate_ephemeral_port h (picks n) proto s) rec)"

lemma publish_declared_ports_seq:
  "publish_declared_ports h picks names rec cip s =
     (case publish_seq (publish_port h) (declared_rules h picks rec cip s) s of
        (Inl e, s1) \<Rightarrow> (Err (name_occupier names e), s1)
      | (Inr _, s1) \<Rightarrow> (Ok (), s1))"
  by (simp add: publish_declared_ports_def declared_rules_def Let_def)

lemma declared_rules_owner: "r \<in> set (declared_rules h picks rec cip s) \<Longrightarrow> pr_container_id r = cr_id rec"
  by (auto simp: declared_rules_def)


section \<open>Ephemeral ports\<close>

lemma first_some_simps [simp]:
  "first_some f [] = None"
  "first_some f (x # xs) = (case f x of None \<Rightarrow> first_some f xs | Some y \<Rightarrow> Some y)"
  by (simp_all add: first_some_def split: option.splits)

lemma first_some_SomeD: "first_some f xs = Some y \<Longrightarrow> \<exists>x \<in> set xs. f x = Some y"
  by (induction xs) (auto split: option.splits)

lemma first_some_None: "first_some f xs = None \<longleftrightarrow> (\<forall>x \<in> set xs. f x = None)"
  by (induction xs) (auto split: option.splits)

lemma port_usable_nonzero: "port_usable h s proto p \<Longrightarrow> p \<noteq> 0"
  by (auto simp: port_usable_def host_port_free_def split: if_splits)

text \<open>The chosen port is one that no published rule of the protocol uses and that the host can
  bind, or else every port of the fallback range is unusable, and the answer is 32768.\<close>

theorem ephemeral_port_usable:
  "port_usable h s proto (allocate_ephemeral_port h pick proto s)
   \<or> (\<forall>p. 32768 \<le> p \<and> p \<le> 60999 \<longrightarrow> \<not> port_usable h s proto p)
     \<and> allocate_ephemeral_port h pick proto s = 32768"
proof (cases "first_some (kernel_port h s proto pick) [0..<16]")
  case (Some p)
  then obtain i where "kernel_port h s proto pick i = Some p"
    using first_some_SomeD by metis
  then have "port_usable h s proto p"
    by (auto simp: kernel_port_def split: option.splits if_splits)
  with Some show ?thesis by (simp add: allocate_ephemeral_port_def del: upt_rec_numeral)
next
  case None
  show ?thesis
  proof (cases "find (port_usable h s proto) [32768..<61000]")
    case None
    then have "\<forall>p. 32768 \<le> p \<and> p \<le> 60999 \<longrightarrow> \<not> port_usable h s proto p"
      by (auto simp: find_None_iff simp del: upt_rec_numeral)
    with None \<open>first_some _ _ = None\<close> show ?thesis
      by (simp add: allocate_ephemeral_port_def del: upt_rec_numeral)
  next
    case (Some p)
    with \<open>first_some _ _ = None\<close> show ?thesis
      using find_SomeD [OF Some] by (simp add: allocate_ephemeral_port_def del: upt_rec_numeral)
  qed
qed

section \<open>Interleavings\<close>

fun task_rule :: "publish_task \<Rightarrow> port_rule option" where
  "task_rule (T_Check r) = Some r"
| "task_rule (T_Exec r) = Some r"
| "task_rule (T_Commit r px) = Some r"
| "task_rule (T_Done x) = None"

definition tasks_ids_ok :: "publish_task list \<Rightarrow> bool" where
  "tasks_ids_ok ts \<longleftrightarrow> (\<forall>t \<in> set ts. \<forall>r. task_rule t = Some r \<longrightarrow> CHR ''|'' \<notin> set (pr_container_id r))"

lemma task_step_rule:
  "task_step h t s = (t', s') \<Longrightarrow> task_rule t' = None \<or> task_rule t' = task_rule t"
  by (cases t) (auto split: sum.splits bool.splits prod.splits)

lemma task_step_wf:
  assumes "task_step h t s = (t', s')" "table_wf s"
    and "\<And>r. task_rule t = Some r \<Longrightarrow> CHR ''|'' \<notin> set (pr_container_id r)"
  shows "table_wf s'"
  using assms
  by (cases t) (auto split: sum.splits bool.splits prod.splits
      simp: table_wf_commit dest: table_wf_exec)

lemma task_step_grows:
  assumes "task_step h t s = (t', s')"
  shows "\<exists>ps. published s' = published s @ ps"
  using assms
  by (cases t) (auto split: sum.splits bool.splits prod.splits
      simp: publish_commit_def dest: publish_exec_frame)

text \<open>However publications interleave, the table stays well formed: rules once, proxies in step
  with the rules; and committed rules stay.\<close>

theorem interleaved_table_wf:
  assumes "interleave h (ts, s) (ts', s')" "table_wf s" "tasks_ids_ok ts"
  shows "table_wf s' \<and> tasks_ids_ok ts' \<and> (\<exists>ps. published s' = published s @ ps)"
  using assms
proof (induction "(ts, s)" "(ts', s')" arbitrary: ts' s' rule: interleave.induct)
  case start
  then show ?case by simp
next
  case (sched ts1 s1 i t s2)
  then have wf: "table_wf s1" "tasks_ids_ok ts1" and "\<exists>ps. published s1 = published s @ ps"
    by auto
  have old: "\<And>r. task_rule (ts1 ! i) = Some r \<Longrightarrow> CHR ''|'' \<notin> set (pr_container_id r)"
    using wf(2) sched.hyps(3) by (auto simp: tasks_ids_ok_def)
  have "table_wf s2"
    using task_step_wf [OF sched.hyps(4) wf(1) old] .
  moreover have "tasks_ids_ok (ts1[i := t])"
    using wf(2) old task_step_rule [OF sched.hyps(4)]
    by (auto simp: tasks_ids_ok_def dest!: set_update_subset_insert [THEN subsetD])
  moreover have "\<exists>ps. published s2 = published s @ ps"
    using task_step_grows [OF sched.hyps(4)] \<open>\<exists>ps. published s1 = _\<close> by auto
  ultimately show ?case by blast
qed

lemma run_schedule_interleave: "interleave h c (ts, s) \<Longrightarrow> interleave h c (run_schedule h is (ts, s))"
proof (induction "is" arbitrary: ts s)
  case (Cons i "is")
  show ?case
  proof (cases "i < length ts")
    case True
    obtain t s' where "task_step h (ts ! i) s = (t, s')" by (cases "task_step h (ts ! i) s")
    then show ?thesis
      using True Cons.IH [OF interleave.sched [OF Cons.prems True]] by simp
  next
    case False
    then show ?thesis using Cons by simp
  qed
qed simp

text \<open>A task that runs its steps without another one in between is \<open>publish_port\<close>.\<close>

lemma task_alone:
  "\<exists>n. run_schedule h (replicate n 0) ([T_Check r], s) =
     ([T_Done (fst (publish_port h r s))], snd (publish_port h r s))"
proof (cases "publish_port h r s")
  case (Pair res s')
  then show ?thesis
  proof (cases rule: publish_port_cases)
    case known
    then show ?thesis using Pair
      by (intro exI [of _ "Suc 0"]) (simp add: publish_check_def)
  next
    case (refused e)
    then show ?thesis using Pair by (intro exI [of _ "Suc 0"]) simp
  next
    case (failed e)
    then show ?thesis using Pair by (intro exI [of _ "Suc (Suc 0)"]) simp
  next
    case (committed px s1)
    then show ?thesis using Pair by (intro exI [of _ "Suc (Suc (Suc 0))"]) simp
  qed
qed

section \<open>Concrete runs\<close>

definition calm_host :: net_host where
  "calm_host = \<lparr>bind_ok = (\<lambda>s udp ip port. True), iptables_ok = (\<lambda>s args. True)\<rparr>"

definition web_rule :: "string \<Rightarrow> string \<Rightarrow> string \<Rightarrow> port_rule" where
  "web_rule cid ip cip = \<lparr>pr_container_id = cid, pr_host_ip = ip, pr_host_port = 8080,
     pr_container_ip = cip, pr_container_port = 80, pr_proto = ''tcp''\<rparr>"

definition web_ops :: "port_op list" where
  "web_ops = [Publish (web_rule ''a1'' [] ''172.18.0.2''), Publish (web_rule ''b2'' ''127.0.0.1'' ''172.18.0.3''),
     Withdraw ''a1'', Publish (web_rule ''b2'' ''127.0.0.1'' ''172.18.0.3'')]"

lemma web_ops_run:
  "published (port_run calm_host web_ops empty_ports) = [web_rule ''b2'' ''127.0.0.1'' ''172.18.0.3'']"
  by code_simp

lemma web_ops_ids_ok: "op \<in> set web_ops \<Longrightarrow> op_ids_ok op"
  by (auto simp: web_ops_def web_rule_def)


lemma web_ops_addr_ok: "op \<in> set web_ops \<Longrightarrow> op_addr_ok op"
proof -
  have "list_all op_addr_ok web_ops" by code_simp
  then show "op \<in> set web_ops \<Longrightarrow> op_addr_ok op" by (simp add: list_all_iff)
qed


text \<open>The commit looks for the identical rule only, so two containers that publish the same host
  port at the same time both succeed.\<close>

theorem concurrent_publish_race:
  "interleave calm_host ([T_Check (web_rule ''a1'' [] ''172.18.0.2''), T_Check (web_rule ''b2'' [] ''172.18.0.3'')],
      empty_ports)
    (run_schedule calm_host [0, 1, 0, 1, 0, 1]
      ([T_Check (web_rule ''a1'' [] ''172.18.0.2''), T_Check (web_rule ''b2'' [] ''172.18.0.3'')], empty_ports))
   \<and> fst (run_schedule calm_host [0, 1, 0, 1, 0, 1]
      ([T_Check (web_rule ''a1'' [] ''172.18.0.2''), T_Check (web_rule ''b2'' [] ''172.18.0.3'')], empty_ports))
     = [T_Done (Ok ()), T_Done (Ok ())]
   \<and> published (snd (run_schedule calm_host [0, 1, 0, 1, 0, 1]
      ([T_Check (web_rule ''a1'' [] ''172.18.0.2''), T_Check (web_rule ''b2'' [] ''172.18.0.3'')], empty_ports)))
     = [web_rule ''a1'' [] ''172.18.0.2'', web_rule ''b2'' [] ''172.18.0.3'']
   \<and> rules_clash (web_rule ''a1'' [] ''172.18.0.2'') (web_rule ''b2'' [] ''172.18.0.3'')"
  by (intro conjI run_schedule_interleave interleave.start; code_simp)

text \<open>A failing second command leaves the first rule in the firewall although the publication is
  refused and the table has no entry that would remove it later.\<close>

definition half_host :: net_host where
  "half_host = \<lparr>bind_ok = (\<lambda>s udp ip port. True), iptables_ok = (\<lambda>s args. hd args = ''-t'')\<rparr>"

theorem failed_forward_leaves_dnat:
  "\<not> is_ok (fst (publish_port half_host (web_rule ''a1'' [] ''172.18.0.2'') empty_ports))
   \<and> firewall (unpublish_all half_host ''a1''
        (snd (publish_port half_host (web_rule ''a1'' [] ''172.18.0.2'') empty_ports)))
     = {#fw_dnat (web_rule ''a1'' [] ''172.18.0.2'')#}"
  by code_simp

text \<open>Ephemeral ports of one start are all chosen before the first is published: when the kernel
  gives no port, two declared ports get the same host port.\<close>

definition two_ports :: container_record where
  "two_ports = \<lparr>cr_id = ''a1'', cr_name = ''web'', cr_created = [], cr_image_id = [], cr_image_name = [],
     cr_config = default_container_config,
     cr_hostconfig = default_host_config\<lparr>PortBindings :=
       [(''80/tcp'', [\<lparr>HostIp = [], HostPort = []\<rparr>]), (''443/tcp'', [\<lparr>HostIp = [], HostPort = []\<rparr>])]\<rparr>,
     cr_cmd_display = [], cr_endpoints = [], cr_wired_once = False, cr_mounts = []\<rparr>"

definition one_port :: container_record where
  "one_port = two_ports\<lparr>cr_hostconfig := default_host_config\<lparr>PortBindings :=
     [(''80/tcp'', [\<lparr>HostIp = [], HostPort = ''8080''\<rparr>])]\<rparr>\<rparr>"

lemma two_ports_specs:
  "declared_specs eph two_ports = [(443, ''tcp'', [], eph 0 ''tcp''), (80, ''tcp'', [], eph 1 ''tcp'')]"
  by (code_simp, simp)

lemma one_port_specs: "declared_specs eph one_port = [(80, ''tcp'', [], 8080)]"
  by code_simp

theorem ephemeral_ports_may_coincide:
  "declared_rules h (\<lambda>_ _. None) two_ports cip s =
     [spec_rule ''a1'' cip (443, ''tcp'', [], allocate_ephemeral_port h (\<lambda>_. None) ''tcp'' s),
      spec_rule ''a1'' cip (80, ''tcp'', [], allocate_ephemeral_port h (\<lambda>_. None) ''tcp'' s)]"
  by (simp add: declared_rules_def two_ports_specs) (simp add: two_ports_def)

definition busy_ports :: port_state where
  "busy_ports = port_run calm_host [Publish (web_rule ''b2'' [] ''172.18.0.3'')] empty_ports"

lemma one_port_rules: "declared_rules h picks one_port cip s = [web_rule ''a1'' [] cip]"
  by (simp add: declared_rules_def one_port_specs)
    (simp add: one_port_def two_ports_def spec_rule_def web_rule_def)

lemma one_port_conflict:
  "publish_or_rollback calm_host (\<lambda>_ _. None) (\<lambda>_. Some ''db'') one_port ''172.18.0.2'' busy_ports
   = (Err (Allocated_By ''0.0.0.0'' 8080 ''tcp'' ''db''), unpublish_all calm_host ''a1'' busy_ports)"
proof -
  have "publish_seq (publish_port calm_host) [web_rule ''a1'' [] ''172.18.0.2''] busy_ports =
     (Err (Port_Conflict \<lparr>pc_proto = ''tcp'', pc_host_ip = [], pc_host_port = 8080,
         pc_occupier = Some ''b2''\<rparr>), busy_ports)"
    by code_simp
  then show ?thesis
    by (simp add: publish_or_rollback_def publish_declared_ports_seq one_port_rules name_occupier_def
        display_ip_def) (simp add: one_port_def two_ports_def)
qed


end
