(* ===== verification/Port_Spec.thy ===== *)
theory Port_Spec
  imports Port_Publish Container_Files
begin

text \<open>
  The port specifications of the command line (\<open>crates/ingot-cli/src/ports.rs\<close>), shared by
  \<open>ingot run -p\<close> and the \<open>ports\<close> key of a compose service:
  \<open>[host_ip:][host_port[-range]:]container[-range][/proto]\<close>. Ranges expand on the client into one
  mapping per port. The theory shows that the expansion of a well-formed specification is the
  pointwise pairing of the two ranges, and how the daemon receives the mappings: the keys are
  read back by \<^const>\<open>split_port_key\<close>, and the create-time validation takes a mapping unless
  its host address is an IPv6 one.
\<close>

section \<open>The parser\<close>

datatype port_spec_error =
    Empty_Port string
  | Invalid_Port string string
  | Invalid_Range string string
  | Unsupported_Protocol string
  | Missing_Container_Port string
  | Invalid_Host_Part string
  | Invalid_Host_Ip string
  | Unbracketed_Ipv6 string
  | Length_Mismatch string

record port_mapping =
  pm_container_key :: string
  pm_host_ip :: string
  pm_host_port :: string

definition parse_range :: "string \<Rightarrow> string \<Rightarrow> (port_spec_error, nat list) result" where
  "parse_range s what =
     (if s = [] then Err (Empty_Port what)
      else let (lo_s, hi_s) = (case split_once CHR ''-'' s of Some (a, b) \<Rightarrow> (a, b) | None \<Rightarrow> (s, s)) in
        and_then (ok_or (Invalid_Port what lo_s) (parse_u16 lo_s)) (\<lambda>lo.
        and_then (ok_or (Invalid_Port what hi_s) (parse_u16 hi_s)) (\<lambda>hi.
          if lo = 0 \<or> hi = 0 \<or> hi < lo then Err (Invalid_Range what s)
          else Ok [lo ..< Suc hi])))"

text \<open>The host part: an optional address, bracketed when it has colons, and the port text.\<close>

definition split_host_part :: "string \<Rightarrow> string \<Rightarrow> (port_spec_error, string \<times> string) result" where
  "split_host_part spec host_part =
     (if host_part = [] then Ok ([], [])
      else case strip_prefix ''['' host_part of
        Some bracketed \<Rightarrow>
          (case split_once_str '']:'' bracketed of
             Some (ip, port) \<Rightarrow> Ok (ip, port)
           | None \<Rightarrow> Err (Invalid_Host_Part spec))
      | None \<Rightarrow>
          (case split_once CHR '':'' host_part of
             Some (ip, port) \<Rightarrow>
               if CHR '':'' \<in> set ip then Err (Unbracketed_Ipv6 ip) else Ok (ip, port)
           | None \<Rightarrow> Ok ([], host_part)))"

definition host_ports :: "string \<Rightarrow> string \<Rightarrow> nat list \<Rightarrow> (port_spec_error, string list) result" where
  "host_ports spec host_port_s containers =
     (if host_port_s = [] then Ok (replicate (length containers) [])
      else and_then (parse_range host_port_s ''host'') (\<lambda>nums.
        if length nums \<noteq> length containers then Err (Length_Mismatch spec)
        else Ok (map show_nat nums)))"

definition expand_mapping :: "string \<Rightarrow> string \<Rightarrow> nat \<times> string \<Rightarrow> port_mapping" where
  "expand_mapping proto ip p = (case p of (cport, hport) \<Rightarrow>
     \<lparr>pm_container_key = show_nat cport @ ''/'' @ proto, pm_host_ip = ip,
      pm_host_port = (if hport = ''0'' then [] else hport)\<rparr>)"

definition parse_port_spec :: "string \<Rightarrow> (port_spec_error, port_mapping list) result" where
  "parse_port_spec spec =
     (let (rest, proto) = (case rsplit_once CHR ''/'' spec of Some (r, p) \<Rightarrow> (r, p) | None \<Rightarrow> (spec, ''tcp''))
      in if proto \<noteq> ''tcp'' \<and> proto \<noteq> ''udp'' then Err (Unsupported_Protocol proto)
         else let (host_part, container_part) =
                    (case rsplit_once CHR '':'' rest of Some (h, c) \<Rightarrow> (h, c) | None \<Rightarrow> ([], rest))
              in if container_part = [] then Err (Missing_Container_Port spec)
                 else and_then (split_host_part spec host_part) (\<lambda>(host_ip, host_port_s).
                   if host_ip \<noteq> [] \<and> parse_ip host_ip = None then Err (Invalid_Host_Ip host_ip)
                   else and_then (parse_range container_part ''container'') (\<lambda>containers.
                        and_then (host_ports spec host_port_s containers) (\<lambda>hosts.
                          Ok (map (expand_mapping proto host_ip) (zip containers hosts))))))"

section \<open>Ranges\<close>

lemma parse_range_Ok:
  "parse_range s w = Ok ns \<Longrightarrow>
    \<exists>lo hi. 0 < lo \<and> lo \<le> hi \<and> hi \<le> 65535 \<and> ns = [lo ..< Suc hi]"
  by (auto simp: parse_range_def and_then_Ok Let_def split: if_splits option.splits
        dest!: parse_uint_le simp del: upt_Suc) (metis le_refl not_le)+

lemma show_nat_no_dash [simp]: "CHR ''-'' \<notin> set (show_nat n)" "CHR '':'' \<notin> set (show_nat n)"
    "CHR ''/'' \<notin> set (show_nat n)" "CHR '']'' \<notin> set (show_nat n)" "CHR ''['' \<notin> set (show_nat n)"
  by (rule show_nat_no_char, simp add: is_digit_def)+

definition show_range :: "nat \<Rightarrow> nat \<Rightarrow> string" where
  "show_range lo hi = (if lo = hi then show_nat lo else show_nat lo @ ''-'' @ show_nat hi)"

lemma show_range_facts [simp]:
  "show_range lo hi \<noteq> []" "CHR '':'' \<notin> set (show_range lo hi)" "CHR ''/'' \<notin> set (show_range lo hi)"
  by (simp_all add: show_range_def)

lemma show_range_no_bracket: "CHR ''['' \<notin> set (show_range lo hi)"
  by (simp add: show_range_def)

lemma parse_show_range:
  assumes "0 < lo" "lo \<le> hi" "hi \<le> 65535"
  shows "parse_range (show_range lo hi) w = Ok [lo ..< Suc hi]"
proof -
  have "split_once CHR ''-'' (show_nat lo @ ''-'' @ show_nat hi) = Some (show_nat lo, show_nat hi)"
    by (simp add: split_once_Some)
  moreover have "split_once CHR ''-'' (show_nat lo) = None"
    by (simp add: split_once_None)
  ultimately show ?thesis
    using assms by (auto simp: parse_range_def show_range_def simp del: upt_Suc)
qed

section \<open>Specifications as text\<close>

text \<open>A specification as a user writes it: nothing, an address, a port range, or both in front of
  the container range.\<close>

definition range_text :: "(nat \<times> nat) option \<Rightarrow> string" where
  "range_text hr = (case hr of None \<Rightarrow> [] | Some (l, h) \<Rightarrow> show_range l h)"

definition host_part_text :: "string \<Rightarrow> (nat \<times> nat) option \<Rightarrow> string" where
  "host_part_text ip hr =
     (if ip = [] then range_text hr
      else if CHR '':'' \<in> set ip then ''['' @ ip @ '']:'' @ range_text hr
      else ip @ '':'' @ range_text hr)"

definition host_text :: "string \<Rightarrow> (nat \<times> nat) option \<Rightarrow> string" where
  "host_text ip hr = (if ip = [] \<and> hr = None then [] else host_part_text ip hr @ '':'')"

definition spec_text :: "string \<Rightarrow> (nat \<times> nat) option \<Rightarrow> nat \<times> nat \<Rightarrow> string \<Rightarrow> string" where
  "spec_text ip hr cr proto = host_text ip hr @ show_range (fst cr) (snd cr) @ ''/'' @ proto"

definition range_ok :: "nat \<times> nat \<Rightarrow> bool" where
  "range_ok r = (0 < fst r \<and> fst r \<le> snd r \<and> snd r \<le> 65535)"

text \<open>What the expansion should be: container port \<open>c + i\<close> with host port \<open>h + i\<close>.\<close>

definition spec_mappings ::
  "string \<Rightarrow> (nat \<times> nat) option \<Rightarrow> nat \<times> nat \<Rightarrow> string \<Rightarrow> port_mapping list" where
  "spec_mappings ip hr cr proto =
     map (\<lambda>i. \<lparr>pm_container_key = show_nat (fst cr + i) @ ''/'' @ proto, pm_host_ip = ip,
               pm_host_port = (case hr of None \<Rightarrow> [] | Some r \<Rightarrow> show_nat (fst r + i))\<rparr>)
         [0 ..< Suc (snd cr) - fst cr]"

lemma upt_offset: "[a ..< b] = map (\<lambda>i. a + i) [0 ..< b - a]"
  by (rule nth_equalityI) auto

lemma show_nat_not_zero: "0 < n \<Longrightarrow> show_nat n \<noteq> ''0''"
proof -
  have "show_nat 0 = ''0''" by code_simp
  then show "0 < n \<Longrightarrow> ?thesis" using show_nat_inj [of n 0] by auto
qed

lemma split_host_text:
  assumes "CHR '']'' \<notin> set ip" "hd ip \<noteq> CHR ''['' \<or> ip = []"
  shows "split_host_part spec (host_part_text ip hr) = Ok (ip, range_text hr)"
proof -
  consider "ip = []" "hr = None" | l h where "ip = []" "hr = Some (l, h)"
    | "ip \<noteq> []" "CHR '':'' \<in> set ip" | "ip \<noteq> []" "CHR '':'' \<notin> set ip"
    by (cases "ip = []"; cases hr) auto
  then show ?thesis
  proof cases
    case 1
    then show ?thesis by (simp add: split_host_part_def host_part_text_def range_text_def)
  next
    case 2
    moreover have "strip_prefix ''['' (show_range l h) = None"
      by (cases "show_range l h") (use show_range_no_bracket [of l h] in auto)
    moreover have "split_once CHR '':'' (show_range l h) = None"
      by (simp add: split_once_None)
    ultimately show ?thesis
      by (simp add: split_host_part_def host_part_text_def range_text_def)
  next
    case 3
    then show ?thesis
      using split_once_str_head [of "CHR '']''" ip "'':''" "range_text hr"] assms(1)
      by (simp add: split_host_part_def host_part_text_def)
  next
    case 4
    then have "split_once CHR '':'' (host_part_text ip hr) = Some (ip, range_text hr)"
      by (simp add: split_once_Some host_part_text_def)
    moreover have "strip_prefix ''['' (host_part_text ip hr) = None"
      using assms(2) 4 by (cases ip) (auto simp: host_part_text_def)
    ultimately show ?thesis
      using 4 by (simp add: split_host_part_def host_part_text_def)
  qed
qed

lemma parse_ip_chars: "parse_ip ip \<noteq> None \<Longrightarrow> \<forall>c \<in> set ip. addr_char c"
  by (auto simp: parse_ip_def split: option.splits dest: parse_ipv4_chars parse_ipv6_chars)

lemma parse_ip_shape:
  assumes "ip = [] \<or> parse_ip ip \<noteq> None"
  shows "CHR '']'' \<notin> set ip" "hd ip \<noteq> CHR ''['' \<or> ip = []" "CHR ''/'' \<notin> set ip"
proof -
  have "\<not> addr_char CHR '']''" "\<not> addr_char CHR ''[''" "\<not> addr_char CHR ''/''" by code_simp+
  moreover have "\<forall>c \<in> set ip. addr_char c" using assms parse_ip_chars by auto
  ultimately show "CHR '']'' \<notin> set ip" "hd ip \<noteq> CHR ''['' \<or> ip = []" "CHR ''/'' \<notin> set ip"
    by (auto dest: hd_in_set) (metis hd_in_set)
qed

lemma rsplit_spec_text:
  assumes "proto \<in> {''tcp'', ''udp''}"
  shows "rsplit_once CHR ''/'' (spec_text ip hr cr proto)
       = Some (host_text ip hr @ show_range (fst cr) (snd cr), proto)"
  using assms by (auto simp: rsplit_once_Some spec_text_def)

lemma zip_expand:
  assumes "0 < c" "pred_option (\<lambda>h. 0 < h) hb"
  shows "map (expand_mapping proto ip)
           (zip [c ..< Suc (c + n)]
                (case hb of None \<Rightarrow> replicate (Suc n) [] | Some h \<Rightarrow> map show_nat [h ..< Suc (h + n)]))
       = spec_mappings ip (map_option (\<lambda>h. (h, h + n)) hb) (c, c + n) proto"
proof -
  have "h + i = 0 \<longleftrightarrow> False" if "hb = Some h" for h i using that assms(2) by simp
  then show ?thesis
    using show_nat_not_zero
    by (cases hb) (auto simp: list_eq_iff_nth_eq spec_mappings_def expand_mapping_def
        simp del: upt_Suc replicate_Suc)
qed

text \<open>A specification with an optional host address (IPv4, or IPv6 in brackets), an optional
  host range and a container range of the same length expands to one mapping per port, pairing
  the ranges pointwise.\<close>

theorem port_spec_roundtrip:
  assumes "ip = [] \<or> parse_ip ip \<noteq> None"
    and "range_ok cr" "pred_option range_ok hr"
    and "pred_option (\<lambda>r. snd r - fst r = snd cr - fst cr) hr"
    and "proto \<in> {''tcp'', ''udp''}"
  shows "parse_port_spec (spec_text ip hr cr proto) = Ok (spec_mappings ip hr cr proto)"
proof -
  obtain c n where cr: "cr = (c, c + n)" "0 < c" "c + n \<le> 65535"
    using assms(2) by (cases cr) (auto simp: range_ok_def dest: le_Suc_ex)
  obtain hb where hr: "hr = map_option (\<lambda>h. (h, h + n)) hb" "pred_option (\<lambda>h. 0 < h \<and> h + n \<le> 65535) hb"
  proof (cases hr)
    case None
    then show ?thesis using that [of None] by simp
  next
    case (Some r)
    then show ?thesis
      using that [of "Some (fst r)"] assms(3,4) cr by (cases r) (auto simp: range_ok_def)
  qed
  let ?spec = "spec_text ip hr cr proto" and ?c = "show_range c (c + n)"
  let ?hosts = "case hb of None \<Rightarrow> replicate (Suc n) [] | Some h \<Rightarrow> map show_nat [h ..< Suc (h + n)]"
  have crange: "parse_range ?c w = Ok [c ..< Suc (c + n)]" for w
    using cr by (simp add: parse_show_range del: upt_Suc)
  have hosts: "host_ports ?spec (range_text hr) [c ..< Suc (c + n)] = Ok ?hosts"
    using hr by (cases hb) (simp_all add: host_ports_def range_text_def parse_show_range del: upt_Suc)
  have expand: "map (expand_mapping proto ip) (zip [c ..< Suc (c + n)] ?hosts) = spec_mappings ip hr cr proto"
    unfolding hr(1) cr(1) by (rule zip_expand) (use cr hr in \<open>auto simp: option.pred_set\<close>)
  have cut: "rsplit_once CHR '':'' (host_text ip hr @ ?c)
      = (if ip = [] \<and> hr = None then None else Some (host_part_text ip hr, ?c))"
    by (simp add: host_text_def rsplit_once_None rsplit_once_Some)
  have part: "split_host_part ?spec (host_part_text ip hr) = Ok (ip, range_text hr)"
    by (rule split_host_text [OF parse_ip_shape(1,2) [OF assms(1)]])
  have none: "ip = [] \<and> hr = None \<Longrightarrow> host_part_text ip hr = []"
    by (simp add: host_part_text_def range_text_def)
  have rs: "rsplit_once CHR ''/'' ?spec = Some (host_text ip hr @ ?c, proto)"
    using rsplit_spec_text [OF assms(5), of ip hr cr] cr by simp
  have "parse_port_spec ?spec = and_then (split_host_part ?spec (host_part_text ip hr)) (\<lambda>(host_ip, host_port_s).
      if host_ip \<noteq> [] \<and> parse_ip host_ip = None then Err (Invalid_Host_Ip host_ip)
      else and_then (parse_range ?c ''container'') (\<lambda>containers.
           and_then (host_ports ?spec host_port_s containers) (\<lambda>hosts.
             Ok (map (expand_mapping proto host_ip) (zip containers hosts)))))"
    unfolding parse_port_spec_def rs using assms(5) none by (auto simp: cut host_text_def [of "[]" None])
  also have "\<dots> = and_then (host_ports ?spec (range_text hr) [c ..< Suc (c + n)]) (\<lambda>hosts.
      Ok (map (expand_mapping proto ip) (zip [c ..< Suc (c + n)] hosts)))"
    using assms(1) by (auto simp: part crange simp del: upt_Suc)
  also have "\<dots> = Ok (spec_mappings ip hr cr proto)"
    unfolding hosts and_then_simps expand ..
  finally show ?thesis .
qed

lemma loopback_parses: "parse_ipv4 ''127.0.0.1'' = Some 2130706433"
  by code_simp

theorem port_spec_roundtrip_witness:
  "parse_port_spec (spec_text ''127.0.0.1'' (Some (8000, 8001)) (80, 81) ''tcp'')
     = Ok (spec_mappings ''127.0.0.1'' (Some (8000, 8001)) (80, 81) ''tcp'')"
  by (rule port_spec_roundtrip) (simp_all add: range_ok_def parse_ip_def loopback_parses)

section \<open>What the daemon makes of the mappings\<close>

lemma parse_port_spec_mapping:
  assumes "parse_port_spec spec = Ok ms" "m \<in> set ms"
  obtains c proto where "pm_container_key m = show_nat c @ ''/'' @ proto" "0 < c" "c \<le> 65535"
    "proto = ''tcp'' \<or> proto = ''udp''"
    "pm_host_ip m = [] \<or> parse_ip (pm_host_ip m) \<noteq> None"
    "pm_host_port m = [] \<or> (\<exists>h. 0 < h \<and> h \<le> 65535 \<and> pm_host_port m = show_nat h)"
proof -
  obtain proto ip hps cs hosts where
    ok: "proto = ''tcp'' \<or> proto = ''udp''" "ip = [] \<or> parse_ip ip \<noteq> None"
    and ms: "ms = map (expand_mapping proto ip) (zip cs hosts)"
    and hs: "host_ports spec hps cs = Ok hosts"
    and cs: "\<exists>t. parse_range t ''container'' = Ok cs"
    using assms(1)
    by (auto simp: parse_port_spec_def Let_def and_then_Ok split: if_splits option.splits prod.splits) blast+
  obtain c h where m: "m = expand_mapping proto ip (c, h)" "c \<in> set cs" "h \<in> set hosts"
    using assms(2) ms by (auto dest: set_zip_leftD set_zip_rightD)
  have "0 < c" "c \<le> 65535"
    using cs m(2) by (auto dest!: parse_range_Ok)
  moreover have "h = [] \<or> (\<exists>n. 0 < n \<and> n \<le> 65535 \<and> h = show_nat n)"
  proof (cases "hps = []")
    case True
    then show ?thesis using hs m(3) by (auto simp: host_ports_def)
  next
    case False
    then obtain nums where "parse_range hps ''host'' = Ok nums" "hosts = map show_nat nums"
      using hs by (auto simp: host_ports_def and_then_Ok split: if_splits)
    then obtain n where "n \<in> set nums" "h = show_nat n" "0 < n" "n \<le> 65535"
      using m(3) by (auto dest!: parse_range_Ok simp del: upt_Suc)
    then show ?thesis by blast
  qed
  ultimately show thesis
    using that ok m(1) by (auto simp: expand_mapping_def split: if_splits)
qed

definition mapping_binding :: "port_mapping \<Rightarrow> port_binding" where
  "mapping_binding m = \<lparr>HostIp = pm_host_ip m, HostPort = pm_host_port m\<rparr>"

lemma is_ok_unit: "is_ok (r :: check) \<longleftrightarrow> r = Ok ()"
  by (simp add: is_ok_iff)

lemma valid_port_show: "0 < n \<Longrightarrow> n \<le> 65535 \<Longrightarrow> valid_port (show_nat n)"
  by (simp add: valid_port_def)

lemma split_show_key:
  assumes "0 < c" "c \<le> 65535" "proto = ''tcp'' \<or> proto = ''udp''"
  shows "split_port_key (show_nat c @ ''/'' @ proto) = Some (c, proto)"
proof -
  have "split_once CHR ''/'' (show_nat c @ ''/'' @ proto) = Some (show_nat c, proto)"
    by (simp add: split_once_Some)
  then show ?thesis using assms by (auto simp: split_port_key_def)
qed

text \<open>What the client expands, the daemon understands: every mapping's key reads back as
  a port from 1 to 65535 of protocol tcp or udp, its host port is absent or such a port, and the
  create-time validation takes the binding exactly when the host address is absent or an IPv4
  one. A bracketed IPv6 address, which the client takes, is therefore always refused.\<close>

theorem expanded_mappings_accepted:
  assumes "parse_port_spec spec = Ok ms" "m \<in> set ms"
  shows "\<exists>c proto. split_port_key (pm_container_key m) = Some (c, proto) \<and> 0 < c \<and> c \<le> 65535
      \<and> (pm_host_port m = [] \<or> valid_port (pm_host_port m))
      \<and> (is_ok (validate_binding (mapping_binding m)) \<longleftrightarrow>
            pm_host_ip m = [] \<or> parse_ipv4 (pm_host_ip m) \<noteq> None)"
proof -
  obtain c proto where k: "pm_container_key m = show_nat c @ ''/'' @ proto" "0 < c" "c \<le> 65535"
      "proto = ''tcp'' \<or> proto = ''udp''"
    and h: "pm_host_port m = [] \<or> (\<exists>h. 0 < h \<and> h \<le> 65535 \<and> pm_host_port m = show_nat h)"
    by (rule parse_port_spec_mapping [OF assms])
  have v: "pm_host_port m = [] \<or> valid_port (pm_host_port m)"
    using h by (elim disjE exE conjE) (simp_all add: valid_port_show)
  have "is_ok (validate_binding (mapping_binding m)) \<longleftrightarrow>
      pm_host_ip m = [] \<or> parse_ipv4 (pm_host_ip m) \<noteq> None"
    using v by (simp add: is_ok_unit validate_binding_def mapping_binding_def in_order_Ok)
  moreover have "split_port_key (pm_container_key m) = Some (c, proto)"
    unfolding k(1) by (rule split_show_key [OF k(2-4)])
  ultimately show ?thesis using k(2,3) v by blast
qed

theorem expanded_mappings_accepted_witness:
  "\<exists>c proto. split_port_key (pm_container_key (hd (spec_mappings ''::1'' None (80, 80) ''tcp''))) = Some (c, proto)
      \<and> \<not> is_ok (validate_binding (mapping_binding (hd (spec_mappings ''::1'' None (80, 80) ''tcp''))))"
proof -
  let ?ms = "spec_mappings ''::1'' None (80, 80) ''tcp''"
  have "parse_port_spec ''[::1]::80/tcp'' = Ok ?ms" by code_simp
  moreover have "hd ?ms \<in> set ?ms" by code_simp
  ultimately have "\<exists>c proto. split_port_key (pm_container_key (hd ?ms)) = Some (c, proto) \<and> 0 < c \<and> c \<le> 65535
      \<and> (pm_host_port (hd ?ms) = [] \<or> valid_port (pm_host_port (hd ?ms)))
      \<and> (is_ok (validate_binding (mapping_binding (hd ?ms))) \<longleftrightarrow>
            pm_host_ip (hd ?ms) = [] \<or> parse_ipv4 (pm_host_ip (hd ?ms)) \<noteq> None)"
    by (rule expanded_mappings_accepted)
  moreover have "pm_host_ip (hd ?ms) \<noteq> [] \<and> parse_ipv4 (pm_host_ip (hd ?ms)) = None" by code_simp
  ultimately show ?thesis by metis
qed

end
