(* ===== verification/Ignore_Patterns.thy ===== *)
theory Ignore_Patterns
  imports Ingot_Prelude
begin

text \<open>
  Ignore files of build contexts: the patterns of \<open>crates/util/src/ignore.rs\<close> and the walk that
  \<open>ingot build\<close> makes over the context directory (\<open>build\<close> in \<open>crates/ingot-cli/src/commands.rs\<close>).
  The executable matchers are shown equal to declarative languages of globs and of component
  lists; the verdict is that of the last matching pattern; and the set of files the walk sends is
  characterised exactly.
\<close>

section \<open>Character classes and globs\<close>

definition backslash :: char where "backslash = CHR 0x5C"

text \<open>The loop of \<open>parse_class\<close> over the characters after the opening: single characters, ranges,
  and what follows the closing bracket; \<^const>\<open>None\<close> when the class is not closed.\<close>

fun class_loop :: "string \<Rightarrow> char list \<Rightarrow> (char \<times> char) list \<Rightarrow> (char list \<times> (char \<times> char) list \<times> string) option" where
  "class_loop [] singles members = None"
| "class_loop (c # cs) singles members =
     (if c = CHR '']'' then Some (singles, members, cs)
      else case cs of
        [] \<Rightarrow> class_loop [] (singles @ [c]) members
      | d # ds \<Rightarrow>
          if c = backslash then class_loop ds (singles @ [d]) members
          else case ds of
            [] \<Rightarrow> class_loop cs (singles @ [c]) members
          | e # es \<Rightarrow>
              if d = CHR ''-'' \<and> e \<noteq> CHR '']'' then class_loop es singles (members @ [(c, e)])
              else class_loop cs (singles @ [c]) members)"

definition char_le :: "char \<Rightarrow> char \<Rightarrow> bool" where
  "char_le a b = ((of_char a :: nat) \<le> of_char b)"

definition in_class :: "bool \<Rightarrow> char list \<Rightarrow> (char \<times> char) list \<Rightarrow> char \<Rightarrow> bool" where
  "in_class negate singles members c =
     ((c \<in> set singles \<or> list_ex (\<lambda>(lo, hi). char_le lo c \<and> char_le c hi) members) \<noteq> negate)"

definition parse_class :: "string \<Rightarrow> ((char \<Rightarrow> bool) \<times> string) option" where
  "parse_class p =
     (let q = tl p;
          (negate, q1) = (case q of c # cs \<Rightarrow> if c = CHR ''^'' \<or> c = CHR ''!'' then (True, cs) else (False, q)
                                  | [] \<Rightarrow> (False, q));
          (singles, q2) = (case q1 of c # cs \<Rightarrow> if c = CHR '']'' then ([c], cs) else ([], q1) | [] \<Rightarrow> ([], q1))
      in map_option (\<lambda>(ss, ms, rest). (in_class negate ss ms, rest)) (class_loop q2 singles []))"

declare class_loop.simps [simp del]

lemma class_loop_shorter: "class_loop p ss ms = Some (ss', ms', rest) \<Longrightarrow> length rest < length p"
proof (induction p ss ms rule: class_loop.induct)
  case (1 ss ms)
  then show ?case by (simp add: class_loop.simps)
next
  case (2 c cs ss ms)
  show ?case
  proof (cases "c = CHR '']''")
    case True
    then show ?thesis using "2.prems" by (simp add: class_loop.simps)
  next
    case c: False
    show ?thesis
    proof (cases cs)
      case Nil
      then show ?thesis using "2.prems" c by (simp add: class_loop.simps)
    next
      case (Cons d ds)
      show ?thesis
      proof (cases "c = backslash")
        case True
        then have "class_loop ds (ss @ [d]) ms = Some (ss', ms', rest)" using "2.prems" c Cons by (simp add: class_loop.simps)
        from "2.IH"(2) [OF c Cons True this] show ?thesis using Cons by simp
      next
        case False
        then have "(case ds of [] \<Rightarrow> class_loop cs (ss @ [c]) ms
          | e # es \<Rightarrow> if d = CHR ''-'' \<and> e \<noteq> CHR '']'' then class_loop es ss (ms @ [(c, e)])
                      else class_loop cs (ss @ [c]) ms) = Some (ss', ms', rest)"
          using "2.prems" c unfolding Cons by (simp add: class_loop.simps)
        then show ?thesis using "2.IH"(3,4,5) [OF c Cons False] Cons
          by (cases ds) (auto split: if_splits)
      qed
    qed
  qed
qed

lemma parse_class_shorter:
  assumes "parse_class p = Some (f, rest)"
  shows "length rest < length p"
proof -
  obtain q ss ss' ms' where "class_loop q ss [] = Some (ss', ms', rest)" "length q \<le> length (tl p)"
    using assms by (cases "tl p"; cases "tl (tl p)") (auto simp: parse_class_def Let_def split: if_splits)
  then show ?thesis using class_loop_shorter [of q ss "[]"] by (cases p) auto
qed

function match_comp :: "string \<Rightarrow> string \<Rightarrow> bool" where
  "match_comp [] n = (n = [])"
| "match_comp (c # p) n =
     (if c = CHR ''*'' then list_ex (\<lambda>skip. match_comp p (drop skip n)) [0 ..< Suc (length n)]
      else case n of [] \<Rightarrow> False
      | x # n' \<Rightarrow>
          if c = CHR ''?'' then match_comp p n'
          else if c = CHR ''['' then
            (case parse_class (c # p) of Some (matched, rest) \<Rightarrow> matched x \<and> match_comp rest n' | None \<Rightarrow> False)
          else if c = backslash \<and> p \<noteq> [] then hd p = x \<and> match_comp (tl p) n'
          else c = x \<and> match_comp p n')"
  by pat_completeness auto

termination
  by (relation "measure (length \<circ> fst)") (auto dest: parse_class_shorter)

text \<open>The language of a glob, token by token. An unclosed class is the token \<open>Never\<close>.\<close>

datatype token = Star | One "char \<Rightarrow> bool" | Never

function tokens :: "string \<Rightarrow> token list" where
  "tokens [] = []"
| "tokens (c # p) =
     (if c = CHR ''*'' then Star # tokens p
      else if c = CHR ''?'' then One (\<lambda>_. True) # tokens p
      else if c = CHR ''['' then
        (case parse_class (c # p) of Some (f, rest) \<Rightarrow> One f # tokens rest | None \<Rightarrow> [Never])
      else if c = backslash \<and> p \<noteq> [] then One (\<lambda>x. x = hd p) # tokens (tl p)
      else One (\<lambda>x. x = c) # tokens p)"
  by pat_completeness auto

termination
  by (relation "measure length") (auto dest: parse_class_shorter)

primrec glob_lang :: "token list \<Rightarrow> string set" where
  "glob_lang [] = {[]}"
| "glob_lang (t # ts) =
     (case t of
        Star \<Rightarrow> {u @ v | u v. v \<in> glob_lang ts}
      | One f \<Rightarrow> {x # v | x v. f x \<and> v \<in> glob_lang ts}
      | Never \<Rightarrow> {})"

lemma ex_drop: "(\<exists>k \<le> length n. P (drop k n)) \<longleftrightarrow> (\<exists>u v. n = u @ v \<and> P v)"
  by (metis append_eq_conv_conj append_take_drop_id le_add1 length_append)

declare match_comp.simps [simp del] tokens.simps [simp del]

lemma match_comp_lang: "match_comp p n \<longleftrightarrow> n \<in> glob_lang (tokens p)"
proof (induction p n rule: match_comp.induct)
  case (1 n)
  then show ?case by (simp add: match_comp.simps tokens.simps)
next
  case (2 c p n)
  consider "c = CHR ''*''" | "c = CHR ''?''" | "c = CHR ''[''"
    | "c \<notin> {CHR ''*'', CHR ''?'', CHR ''[''}" "c = backslash" "p \<noteq> []"
    | "c \<notin> {CHR ''*'', CHR ''?'', CHR ''[''}" "\<not> (c = backslash \<and> p \<noteq> [])"
    by blast
  then show ?case
  proof cases
    case 1
    then have "match_comp (c # p) n \<longleftrightarrow> (\<exists>k \<le> length n. drop k n \<in> glob_lang (tokens p))"
      using 2 by (auto simp: match_comp.simps list_ex_iff less_Suc_eq_le simp del: upt_Suc)
    then show ?thesis using 1 ex_drop [of n "\<lambda>v. v \<in> glob_lang (tokens p)"] by (simp add: tokens.simps)
  next
    case 2
    then show ?thesis using "2.IH" by (cases n) (auto simp: match_comp.simps tokens.simps)
  next
    case 3
    then show ?thesis using "2.IH"
      by (cases n) (auto simp: match_comp.simps tokens.simps split: option.splits)
  next
    case 4
    then show ?thesis using "2.IH" by (cases n) (auto simp: match_comp.simps tokens.simps)
  next
    case 5
    then show ?thesis using "2.IH" by (cases n) (auto simp: match_comp.simps tokens.simps)
  qed
qed

section \<open>Patterns\<close>

record pattern =
  pt_parts :: "string list"
  pt_anchored :: bool
  pt_dir_only :: bool
  pt_negated :: bool

type_synonym ignore_patterns = "pattern list"

definition double_star :: string where "double_star = ''**''"

function match_parts :: "string list \<Rightarrow> string list \<Rightarrow> bool" where
  "match_parts [] path = (path = [])"
| "match_parts (q # pat) path =
     (if q = double_star then list_ex (\<lambda>skip. match_parts pat (drop skip path)) [0 ..< Suc (length path)]
      else case path of [] \<Rightarrow> False | x # path' \<Rightarrow> match_comp q x \<and> match_parts pat path')"
  by pat_completeness auto

termination
  by (relation "measure (length \<circ> fst)") auto

definition pattern_matches :: "pattern \<Rightarrow> string list \<Rightarrow> bool \<Rightarrow> bool" where
  "pattern_matches p comps is_dir =
     (if pt_anchored p then
        (if pt_dir_only p then
           list_ex (\<lambda>e. match_parts (pt_parts p) (take e comps) \<and> (e < length comps \<or> is_dir)) [1 ..< Suc (length comps)]
         else match_parts (pt_parts p) comps)
      else list_ex (\<lambda>start.
        let suffix = drop start comps in
        if pt_dir_only p then
          length (pt_parts p) \<le> length suffix \<and> match_parts (pt_parts p) (take (length (pt_parts p)) suffix)
          \<and> (length (pt_parts p) < length suffix \<or> is_dir)
        else match_parts (pt_parts p) suffix) [0 ..< length comps])"

definition last_verdict :: "ignore_patterns \<Rightarrow> string list \<Rightarrow> bool \<Rightarrow> bool option" where
  "last_verdict ps comps is_dir =
     foldl (\<lambda>verdict p. if pattern_matches p comps is_dir then Some (pt_negated p) else verdict) None ps"

fun trim_dot_slash :: "string \<Rightarrow> string" where
  "trim_dot_slash (c # d # s) = (if c = CHR ''.'' \<and> d = CHR ''/'' then trim_dot_slash s else c # d # s)"
| "trim_dot_slash s = s"

definition is_excluded :: "ignore_patterns \<Rightarrow> string \<Rightarrow> bool \<Rightarrow> bool" where
  "is_excluded ps rel is_dir =
     (let r = trim_dot_slash rel in
      if r = [] then False else last_verdict ps (split_on CHR ''/'' r) is_dir = Some False)"

definition has_negations :: "ignore_patterns \<Rightarrow> bool" where
  "has_negations ps = list_ex pt_negated ps"

text \<open>One line of the file: \<^const>\<open>None\<close> when the line is skipped.\<close>

definition unescape_line :: "string \<Rightarrow> bool \<times> string" where
  "unescape_line line =
     (case strip_prefix ''!'' line of
        Some rest \<Rightarrow> (True, rest)
      | None \<Rightarrow>
         (case strip_prefix [backslash, CHR ''#''] line of
            Some rest \<Rightarrow> (False, ''#'' @ rest)
          | None \<Rightarrow>
             (case strip_prefix [backslash, CHR ''!''] line of
                Some rest \<Rightarrow> (False, ''!'' @ rest)
              | None \<Rightarrow> (False, line))))"

definition drop_leading_stars :: "string list \<Rightarrow> string list" where
  "drop_leading_stars parts = dropWhile (\<lambda>q. q = double_star) parts"

definition drop_trailing_stars :: "string list \<Rightarrow> string list" where
  "drop_trailing_stars parts = rev (dropWhile (\<lambda>q. q = double_star) (rev parts))"

definition parse_pattern :: "string \<Rightarrow> pattern option" where
  "parse_pattern raw =
     (let line0 = trim raw in
      if line0 = [] \<or> starts_with ''#'' line0 then None
      else let (negated, line1) = unescape_line line0 in
        if line1 = [] then None
        else let dir_only0 = ends_with ''/'' line1; line2 = trim_end_char CHR ''/'' line1 in
          if line2 = [] then None
          else let anchored0 = (CHR ''/'' \<in> set line2); line3 = trim_start_char CHR ''/'' line2 in
            if line3 = [] then None
            else let parts0 = split_on CHR ''/'' line3;
                     parts1 = drop_leading_stars parts0;
                     anchored1 = (anchored0 \<and> parts1 = parts0);
                     parts2 = drop_trailing_stars parts1;
                     dir_only1 = (dir_only0 \<or> parts2 \<noteq> parts1)
                 in Some (if parts2 = [] then
                            \<lparr>pt_parts = [double_star], pt_anchored = False, pt_dir_only = dir_only1, pt_negated = negated\<rparr>
                          else \<lparr>pt_parts = parts2, pt_anchored = anchored1, pt_dir_only = dir_only1, pt_negated = negated\<rparr>))"

definition parse_ignore :: "string \<Rightarrow> ignore_patterns" where
  "parse_ignore content = List.map_filter parse_pattern (lines content)"

section \<open>The meaning of patterns\<close>

fun parts_lang :: "string list \<Rightarrow> string list set" where
  "parts_lang [] = {[]}"
| "parts_lang (q # qs) =
     (if q = double_star then {u @ v | u v. v \<in> parts_lang qs}
      else {x # v | x v. x \<in> glob_lang (tokens q) \<and> v \<in> parts_lang qs})"

declare match_parts.simps [simp del]

lemma match_parts_lang: "match_parts pat path \<longleftrightarrow> path \<in> parts_lang pat"
proof (induction pat path rule: match_parts.induct)
  case (1 path)
  then show ?case by (simp add: match_parts.simps)
next
  case (2 q pat path)
  show ?case
  proof (cases "q = double_star")
    case True
    then have "match_parts (q # pat) path \<longleftrightarrow> (\<exists>k \<le> length path. drop k path \<in> parts_lang pat)"
      using 2 by (auto simp: match_parts.simps list_ex_iff less_Suc_eq_le simp del: upt_Suc)
    then show ?thesis using True ex_drop [of path "\<lambda>v. v \<in> parts_lang pat"] by simp
  next
    case False
    then show ?thesis using "2.IH" by (cases path) (auto simp: match_parts.simps match_comp_lang)
  qed
qed

text \<open>What a pattern is meant to match: a stretch of the path's components, from the root when the
  pattern is anchored, up to the end unless the pattern names directories, in which case the
  stretch is a directory of the path or the path itself when that is a directory.\<close>

definition pattern_spec :: "pattern \<Rightarrow> string list \<Rightarrow> bool \<Rightarrow> bool" where
  "pattern_spec p comps is_dir \<longleftrightarrow>
     (\<exists>u v w. comps = u @ v @ w \<and> v \<noteq> [] \<and> v \<in> parts_lang (pt_parts p)
        \<and> (pt_anchored p \<longrightarrow> u = []) \<and> (if pt_dir_only p then w \<noteq> [] \<or> is_dir else w = []))"

lemma parts_lang_length: "double_star \<notin> set qs \<Longrightarrow> v \<in> parts_lang qs \<Longrightarrow> length v = length qs"
  by (induction qs arbitrary: v) auto

lemma ex_take: "(\<exists>e. 1 \<le> e \<and> e \<le> length n \<and> P (take e n) (drop e n)) \<longleftrightarrow> (\<exists>v w. n = v @ w \<and> v \<noteq> [] \<and> P v w)"
proof
  assume "\<exists>v w. n = v @ w \<and> v \<noteq> [] \<and> P v w"
  then obtain v w where "n = v @ w" "v \<noteq> []" "P v w" by blast
  then show "\<exists>e. 1 \<le> e \<and> e \<le> length n \<and> P (take e n) (drop e n)"
    by (intro exI [of _ "length v"]) (simp add: Suc_leI)
qed (metis append_take_drop_id length_0_conv length_take min.absorb2 not_one_le_zero)

lemma ex_start: "(\<exists>k < length n. P (drop k n)) \<longleftrightarrow> (\<exists>u v. n = u @ v \<and> v \<noteq> [] \<and> P v)"
proof
  assume "\<exists>u v. n = u @ v \<and> v \<noteq> [] \<and> P v"
  then obtain u v where "n = u @ v" "v \<noteq> []" "P v" by blast
  then show "\<exists>k < length n. P (drop k n)" by (intro exI [of _ "length u"]) simp
qed (metis append_take_drop_id drop_eq_Nil not_le)

lemma pattern_matches_spec:
  assumes "comps \<noteq> []" "pt_parts p \<noteq> []"
    and "double_star \<in> set (pt_parts p) \<longrightarrow> pt_anchored p \<or> \<not> pt_dir_only p"
  shows "pattern_matches p comps is_dir \<longleftrightarrow> pattern_spec p comps is_dir"
proof -
  let ?L = "parts_lang (pt_parts p)" and ?n = "length (pt_parts p)"
  consider "pt_anchored p" "pt_dir_only p" | "pt_anchored p" "\<not> pt_dir_only p"
    | "\<not> pt_anchored p" "pt_dir_only p" | "\<not> pt_anchored p" "\<not> pt_dir_only p" by blast
  then show ?thesis
  proof cases
    case 1
    then have "pattern_matches p comps is_dir \<longleftrightarrow>
        (\<exists>e. 1 \<le> e \<and> e \<le> length comps \<and> take e comps \<in> ?L \<and> (drop e comps \<noteq> [] \<or> is_dir))"
      by (auto simp: pattern_matches_def list_ex_iff match_parts_lang less_Suc_eq_le not_le simp del: upt_Suc)
    then show ?thesis
      using 1 ex_take [of comps "\<lambda>v w. v \<in> ?L \<and> (w \<noteq> [] \<or> is_dir)"] by (auto simp: pattern_spec_def)
  next
    case 2
    then show ?thesis using assms(1) by (auto simp: pattern_matches_def pattern_spec_def match_parts_lang)
  next
    case 3
    then have len: "v \<in> ?L \<Longrightarrow> length v = ?n" for v using parts_lang_length assms(3) by blast
    have "pattern_matches p comps is_dir \<longleftrightarrow> (\<exists>k < length comps.
        ?n \<le> length (drop k comps) \<and> take ?n (drop k comps) \<in> ?L \<and> (?n < length (drop k comps) \<or> is_dir))"
      using 3 by (auto simp: pattern_matches_def list_ex_iff match_parts_lang Let_def)
    also have "\<dots> \<longleftrightarrow> (\<exists>u s. comps = u @ s \<and> s \<noteq> [] \<and> ?n \<le> length s \<and> take ?n s \<in> ?L \<and> (?n < length s \<or> is_dir))"
      using ex_start [of comps "\<lambda>s. ?n \<le> length s \<and> take ?n s \<in> ?L \<and> (?n < length s \<or> is_dir)"] by simp
    also have "\<dots> \<longleftrightarrow> (\<exists>u v w. comps = u @ v @ w \<and> v \<noteq> [] \<and> v \<in> ?L \<and> (w \<noteq> [] \<or> is_dir))"
    proof
      assume "\<exists>u s. comps = u @ s \<and> s \<noteq> [] \<and> ?n \<le> length s \<and> take ?n s \<in> ?L \<and> (?n < length s \<or> is_dir)"
      then obtain u s where s: "comps = u @ s" "s \<noteq> []" "take ?n s \<in> ?L" "?n < length s \<or> is_dir" by blast
      then show "\<exists>u v w. comps = u @ v @ w \<and> v \<noteq> [] \<and> v \<in> ?L \<and> (w \<noteq> [] \<or> is_dir)"
        using assms(2) by (intro exI [of _ u] exI [of _ "take ?n s"] exI [of _ "drop ?n s"]) auto
    next
      assume "\<exists>u v w. comps = u @ v @ w \<and> v \<noteq> [] \<and> v \<in> ?L \<and> (w \<noteq> [] \<or> is_dir)"
      then obtain u v w where v: "comps = u @ v @ w" "v \<noteq> []" "v \<in> ?L" "w \<noteq> [] \<or> is_dir" by blast
      then show "\<exists>u s. comps = u @ s \<and> s \<noteq> [] \<and> ?n \<le> length s \<and> take ?n s \<in> ?L \<and> (?n < length s \<or> is_dir)"
        using len [OF v(3)] by (intro exI [of _ u] exI [of _ "v @ w"]) auto
    qed
    finally show ?thesis using 3 by (simp add: pattern_spec_def)
  next
    case 4
    then have "pattern_matches p comps is_dir \<longleftrightarrow> (\<exists>k < length comps. drop k comps \<in> ?L)"
      by (auto simp: pattern_matches_def list_ex_iff match_parts_lang Let_def)
    then show ?thesis using 4 ex_start [of comps "\<lambda>v. v \<in> ?L"] by (auto simp: pattern_spec_def)
  qed
qed

lemma parse_pattern_parts: "parse_pattern raw = Some p \<Longrightarrow> pt_parts p \<noteq> []"
  by (auto simp: parse_pattern_def Let_def split: if_splits prod.splits)

text \<open>The last pattern that matches decides.\<close>

lemma last_verdict_filter:
  "last_verdict ps comps d =
    (let ms = filter (\<lambda>p. pattern_matches p comps d) ps in if ms = [] then None else Some (pt_negated (last ms)))"
  by (induction ps rule: rev_induct) (simp_all add: last_verdict_def Let_def)

section \<open>The walk over the build context\<close>

text \<open>A directory tree, children in the order of their names, as \<open>walkdir\<close> yields them.\<close>

datatype tree = File | Dir "(string \<times> tree) list"

definition is_dir_tree :: "tree \<Rightarrow> bool" where
  "is_dir_tree t = (case t of File \<Rightarrow> False | Dir _ \<Rightarrow> True)"

definition slashed :: "string \<Rightarrow> string" where
  "slashed s = map (\<lambda>c. if c = backslash then CHR ''/'' else c) s"

definition keep_entry :: "string \<Rightarrow> string \<Rightarrow> bool" where
  "keep_entry dockerfile rel_s =
     list_ex (\<lambda>k. k = rel_s \<or> starts_with (rel_s @ ''/'') k \<or> starts_with (k @ ''/'') rel_s)
       [slashed dockerfile, ''.dockerignore'']"

definition enters :: "ignore_patterns \<Rightarrow> string \<Rightarrow> string \<Rightarrow> bool \<Rightarrow> bool" where
  "enters ps dockerfile rel_s is_dir =
     (keep_entry dockerfile rel_s
      \<or> \<not> (is_excluded ps rel_s is_dir \<and> (\<not> is_dir \<or> \<not> has_negations ps)))"

definition emits :: "ignore_patterns \<Rightarrow> string \<Rightarrow> string \<Rightarrow> bool \<Rightarrow> bool" where
  "emits ps dockerfile rel_s is_dir =
     (\<not> (\<not> keep_entry dockerfile rel_s \<and> \<not> is_dir \<and> is_excluded ps rel_s False))"

definition rel_text :: "string list \<Rightarrow> string" where
  "rel_text path = slashed (join_with ''/'' path)"

text \<open>The entries of the archive, directories and files, as component paths below the context.\<close>

fun walk :: "ignore_patterns \<Rightarrow> string \<Rightarrow> string list \<Rightarrow> tree \<Rightarrow> (string list \<times> bool) list" where
  "walk ps df path File =
     (if enters ps df (rel_text path) False \<and> emits ps df (rel_text path) False then [(path, False)] else [])"
| "walk ps df path (Dir children) =
     (if enters ps df (rel_text path) True
      then (if emits ps df (rel_text path) True then [(path, True)] else [])
           @ concat (map (\<lambda>(name, t). walk ps df (path @ [name]) t) children)
      else [])"

definition context_entries :: "ignore_patterns \<Rightarrow> string \<Rightarrow> (string \<times> tree) list \<Rightarrow> (string list \<times> bool) list" where
  "context_entries ps df children = concat (map (\<lambda>(name, t). walk ps df [name] t) children)"

section \<open>Which files are sent\<close>

fun holds_file :: "tree \<Rightarrow> string list \<Rightarrow> bool" where
  "holds_file File path = (path = [])"
| "holds_file (Dir children) path =
     (case path of [] \<Rightarrow> False | name # rest \<Rightarrow> list_ex (\<lambda>(m, t). m = name \<and> holds_file t rest) children)"

text \<open>Every directory between \<open>path\<close> and the file below it is entered.\<close>

definition dirs_entered :: "ignore_patterns \<Rightarrow> string \<Rightarrow> string list \<Rightarrow> string list \<Rightarrow> bool" where
  "dirs_entered ps df path below =
     list_all (\<lambda>k. enters ps df (rel_text (path @ take k below)) True) [0 ..< length below]"

lemma dirs_entered_Cons:
  "dirs_entered ps df path (n # below) \<longleftrightarrow> enters ps df (rel_text path) True \<and> dirs_entered ps df (path @ [n]) below"
proof -
  have "[0 ..< length (n # below)] = 0 # map Suc [0 ..< length below]"
    by (simp add: upt_conv_Cons map_Suc_upt del: upt_Suc)
  then show ?thesis
    unfolding dirs_entered_def by (simp add: list.pred_map comp_def del: upt_Suc)
qed

lemma walk_file:
  "(q, False) \<in> set (walk ps df path t) \<longleftrightarrow>
    (\<exists>below. q = path @ below \<and> holds_file t below \<and> dirs_entered ps df path below
       \<and> enters ps df (rel_text q) False \<and> emits ps df (rel_text q) False)"
proof (induction ps df path t rule: walk.induct)
  case (1 ps df path)
  then show ?case by (auto simp: dirs_entered_def)
next
  case (2 ps df path children)
  let ?ok = "enters ps df (rel_text q) False \<and> emits ps df (rel_text q) False"
  have "(q, False) \<in> set (walk ps df path (Dir children)) \<longleftrightarrow> enters ps df (rel_text path) True
      \<and> (\<exists>(n, t) \<in> set children. (q, False) \<in> set (walk ps df (path @ [n]) t))"
    by auto
  also have "\<dots> \<longleftrightarrow> (\<exists>(n, t) \<in> set children. \<exists>below. q = path @ n # below \<and> holds_file t below
      \<and> dirs_entered ps df path (n # below) \<and> ?ok)"
    using 2 by (fastforce simp: dirs_entered_Cons)
  also have "\<dots> \<longleftrightarrow> (\<exists>below. q = path @ below \<and> holds_file (Dir children) below \<and> dirs_entered ps df path below \<and> ?ok)"
    by (fastforce simp: list_ex_iff split: list.splits)
  finally show ?case .
qed

lemma rel_text_append: "q \<noteq> [] \<Longrightarrow> r \<noteq> [] \<Longrightarrow> rel_text (q @ r) = rel_text q @ ''/'' @ rel_text r"
proof (induction q rule: induct_list012)
  case (2 x)
  then show ?case by (cases r) (simp_all add: rel_text_def slashed_def)
next
  case (3 x y zs)
  then show ?case by (simp add: rel_text_def slashed_def)
qed simp

lemma keep_ancestor:
  assumes "keep_entry df (a @ ''/'' @ b)"
  shows "keep_entry df a"
proof -
  obtain k where k: "k \<in> {slashed df, ''.dockerignore''}"
    "k = a @ ''/'' @ b \<or> starts_with ((a @ ''/'' @ b) @ ''/'') k \<or> starts_with (k @ ''/'') (a @ ''/'' @ b)"
    using assms unfolding keep_entry_def list_ex_iff by (metis insert_iff list.set)
  have "k = a \<or> starts_with (a @ ''/'') k \<or> starts_with (k @ ''/'') a"
    using k(2) unfolding starts_with_iff
    by (auto simp: append_eq_append_conv2 Cons_eq_append_conv append_eq_Cons_conv)
  then show ?thesis using k(1) by (auto simp: keep_entry_def)
qed

text \<open>The ancestors of a file that an ignore file without negations must not exclude.\<close>

definition ancestors_kept :: "ignore_patterns \<Rightarrow> string \<Rightarrow> string list \<Rightarrow> bool" where
  "ancestors_kept ps df path =
     list_all (\<lambda>k. keep_entry df (rel_text (take k path)) \<or> \<not> is_excluded ps (rel_text (take k path)) True)
       [1 ..< length path]"

lemma dirs_entered_negations: "has_negations ps \<Longrightarrow> dirs_entered ps df path below"
  by (simp add: dirs_entered_def enters_def list_all_iff)

lemma dirs_entered_kept:
  assumes "keep_entry df (rel_text (path @ below))" "path \<noteq> []"
  shows "dirs_entered ps df path below"
proof -
  have "keep_entry df (rel_text (path @ take k below))" if "k < length below" for k
  proof -
    have "rel_text (path @ below) = rel_text (path @ take k below) @ ''/'' @ rel_text (drop k below)"
      using rel_text_append [of "path @ take k below" "drop k below"] assms(2) that by simp
    then show ?thesis using keep_ancestor assms(1) by metis
  qed
  then show ?thesis by (simp add: dirs_entered_def enters_def list_all_iff)
qed

lemma dirs_entered_plain:
  assumes "\<not> has_negations ps"
  shows "dirs_entered ps df [n] below \<longleftrightarrow> ancestors_kept ps df (n # below)"
proof -
  have "[1 ..< length (n # below)] = map Suc [0 ..< length below]"
    by (simp add: map_Suc_upt del: upt_Suc)
  then show ?thesis
    using assms unfolding dirs_entered_def ancestors_kept_def
    by (simp add: enters_def list.pred_map comp_def del: upt_Suc)
qed



definition sample_ignore :: string where
  "sample_ignore = ''secrets'' @ [CHR 0x0A] @ ''!README.md'' @ [CHR 0x0A]"

lemma sample_patterns:
  "parse_ignore sample_ignore =
     [\<lparr>pt_parts = [''secrets''], pt_anchored = False, pt_dir_only = False, pt_negated = False\<rparr>,
      \<lparr>pt_parts = [''README.md''], pt_anchored = False, pt_dir_only = False, pt_negated = True\<rparr>]"
  by code_simp


text \<open>A negation anywhere in the ignore file makes the walk descend into excluded
  directories, and a plain name pattern does not match below the directory it names: with the
  lines \<open>secrets\<close> and \<open>!README.md\<close> the file \<open>secrets/key\<close> is sent to the daemon; without the
  second line it is not.\<close>

theorem negation_exposes_excluded_directory:
  "is_excluded (parse_ignore sample_ignore) ''secrets'' True
   \<and> ([''secrets'', ''key''], False) \<in> set (context_entries (parse_ignore sample_ignore) ''Dockerfile'' [(''secrets'', Dir [(''key'', File)])])
   \<and> ([''secrets'', ''key''], False) \<notin> set (context_entries (parse_ignore ''secrets'') ''Dockerfile'' [(''secrets'', Dir [(''key'', File)])])"
  by code_simp

text \<open>An inner double star of an unanchored directory pattern spans exactly one component.\<close>

lemma inner_double_star_one_component:
  "pattern_matches (the (parse_pattern ''**/a/**/b/'')) [''a'', ''x'', ''b''] True
   \<and> \<not> pattern_matches (the (parse_pattern ''**/a/**/b/'')) [''a'', ''b''] True
   \<and> \<not> pattern_matches (the (parse_pattern ''**/a/**/b/'')) [''a'', ''x'', ''y'', ''b''] True"
  by code_simp

end
