(* ===== verification/Compose_Up.thy ===== *)
theory Compose_Up
  imports Service_Order Compose_Extends Resource_Limits Credentials Port_Spec Ignore_Patterns
begin

text \<open>
  \<open>ingot compose up\<close> and \<open>down\<close> (\<open>crates/ingot-cli/src/compose.rs\<close>) with the \<open>pull\<close> and \<open>build\<close>
  commands they call (\<open>commands.rs\<close>). The daemon is a parameter: a function from its state and a
  request to a response and the next state; the client keeps the requests and responses of a run
  as a trace. The host (files, base64, the credential file, the time that passes between two polls) is a
  record of functions. The theory shows that a service is created only after its dependencies
  were started and, where asked for, reported healthy, that waiting ends, and that \<open>down\<close> touches the
  containers of the project only.
\<close>

section \<open>Requests\<close>

datatype body = No_Body | Json_Body json | Archive "(string list \<times> bool) list"

record http_request =
  rq_method :: string
  rq_path :: string
  rq_body :: body
  rq_headers :: "(string \<times> string) list"

type_synonym response = "(string, json) result"

record 'd cli =
  cl_daemon :: 'd
  cl_trace :: "(http_request \<times> response) list"

type_synonym 'd api = "'d \<Rightarrow> http_request \<Rightarrow> response \<times> 'd"
type_synonym ('d, 'a) io = "'d cli \<Rightarrow> (compose_error, 'a) result \<times> 'd cli"

definition request :: "string \<Rightarrow> string \<Rightarrow> body \<Rightarrow> http_request" where
  "request m p b = \<lparr>rq_method = m, rq_path = p, rq_body = b, rq_headers = []\<rparr>"

definition call :: "'d api \<Rightarrow> http_request \<Rightarrow> 'd cli \<Rightarrow> response \<times> 'd cli" where
  "call api rq s =
     (case api (cl_daemon s) rq of (r, d) \<Rightarrow> (r, s\<lparr>cl_daemon := d, cl_trace := cl_trace s @ [(rq, r)]\<rparr>))"

definition return_io :: "(compose_error, 'a) result \<Rightarrow> ('d, 'a) io" where
  "return_io r s = (r, s)"

definition bind_io :: "('d, 'a) io \<Rightarrow> ('a \<Rightarrow> ('d, 'b) io) \<Rightarrow> ('d, 'b) io" where
  "bind_io m f s = (case m s of (Inl e, s') \<Rightarrow> (Err e, s') | (Inr a, s') \<Rightarrow> f a s')"

text \<open>A request whose failure ends the command, and one whose failure is ignored.\<close>

definition call_ok :: "'d api \<Rightarrow> http_request \<Rightarrow> ('d, json) io" where
  "call_ok api rq s = (case call api rq s of (Inl e, s') \<Rightarrow> (Err (Api_Failed e), s') | (Inr v, s') \<Rightarrow> (Ok v, s'))"

definition call_ignored :: "'d api \<Rightarrow> http_request \<Rightarrow> ('d, bool) io" where
  "call_ignored api rq s = (case call api rq s of (r, s') \<Rightarrow> (Ok (is_ok r), s'))"

fun for_each_io :: "'a list \<Rightarrow> ('a \<Rightarrow> ('d, unit) io) \<Rightarrow> ('d, unit) io" where
  "for_each_io [] f = return_io (Ok ())"
| "for_each_io (x # xs) f = bind_io (f x) (\<lambda>_. for_each_io xs f)"

text \<open>\<open>Value\<close> indexing: a missing key is null.\<close>

definition json_at :: "json \<Rightarrow> string \<Rightarrow> json" where
  "json_at v k = (case json_get k v of Some x \<Rightarrow> x | None \<Rightarrow> JNull)"

definition json_text :: "json \<Rightarrow> string \<Rightarrow> string option" where
  "json_text v k = json_str (json_at v k)"

section \<open>Pull and build\<close>

record host_env =
  he_is_file :: "string \<Rightarrow> bool"
  he_context :: "string \<Rightarrow> (string \<times> tree) list option"
  he_ignore_file :: "string \<Rightarrow> string"
  he_encode :: "string \<Rightarrow> string"
  he_decode :: "string \<Rightarrow> string option"
  he_auth :: auth_file
  he_delay :: "nat \<Rightarrow> nat"

text \<open>A line of a progress stream that makes \<open>stream_progress\<close> fail.\<close>

definition line_error :: "json \<Rightarrow> bool" where
  "line_error v =
     (case json_text v ''status'' of
        Some _ \<Rightarrow> False
      | None \<Rightarrow> (case json_text v ''stream'' of Some _ \<Rightarrow> False | None \<Rightarrow> json_text v ''error'' \<noteq> None))"

definition stream_of :: "json \<Rightarrow> json list" where
  "stream_of v = (case v of JArr ls \<Rightarrow> ls | _ \<Rightarrow> [v])"

definition cmd_pull :: "host_env \<Rightarrow> 'd api \<Rightarrow> string \<Rightarrow> ('d, unit) io" where
  "cmd_pull env api img =
     (case pull_url img None of
        Inl e \<Rightarrow> return_io (Err (Api_Failed ''invalid image reference''))
      | Inr url \<Rightarrow>
          let headers = (case auth_header_for_image (he_encode env) (he_decode env) (he_auth env) img of
                           Some a \<Rightarrow> [(''X-Registry-Auth'', a)] | None \<Rightarrow> [])
          in bind_io (call_ok api \<lparr>rq_method = ''POST'', rq_path = url, rq_body = No_Body, rq_headers = headers\<rparr>)
               (\<lambda>v. return_io (if list_ex line_error (stream_of v) then Err (Api_Failed ''pull failed'') else Ok ())))"

definition cmd_build :: "host_env \<Rightarrow> 'd api \<Rightarrow> string \<Rightarrow> string \<Rightarrow> string \<Rightarrow> ('d, unit) io" where
  "cmd_build env api tag dockerfile path =
     (case he_context env path of
        None \<Rightarrow> return_io (Err (Api_Failed ''build context is not a directory''))
      | Some children \<Rightarrow>
          let entries = context_entries (parse_ignore (he_ignore_file env path)) dockerfile children;
              url = ''/build?t='' @ url_escape tag @ ''&dockerfile='' @ url_escape dockerfile
          in bind_io (call_ok api (request ''POST'' url (Archive entries))) (\<lambda>_. return_io (Ok ())))"

section \<open>Gates\<close>

definition HEALTH_WAIT_SECS :: nat where "HEALTH_WAIT_SECS = 60"

definition inspect_request :: "string \<Rightarrow> http_request" where
  "inspect_request i = request ''GET'' (''/containers/'' @ i @ ''/json'') No_Body"

definition is_running :: "json \<Rightarrow> bool" where
  "is_running st = (json_at (json_at st ''State'') ''Running'' = JBool True)"

definition health_of :: "json \<Rightarrow> string option" where
  "health_of st = json_text (json_at (json_at st ''State'') ''Health'') ''Status''"

text \<open>The time is the number of seconds since the start: every poll but the first follows a sleep of
  one second and everything else that takes time.\<close>

function wait_healthy_from :: "(nat \<Rightarrow> nat) \<Rightarrow> 'd api \<Rightarrow> string \<Rightarrow> string \<Rightarrow> nat \<Rightarrow> nat \<Rightarrow> ('d, unit) io" where
  "wait_healthy_from delay api i dep k elapsed s =
     (case call api (inspect_request i) s of
        (Inl e, s') \<Rightarrow> (Err (Api_Failed e), s')
      | (Inr st, s') \<Rightarrow>
          if \<not> is_running st then (Err (Not_Ready dep ''not running''), s')
          else (case health_of st of
                  None \<Rightarrow> (Err (Not_Ready dep ''no healthcheck''), s')
                | Some h \<Rightarrow>
                    if h = ''healthy'' then (Ok (), s')
                    else if h = ''unhealthy'' then (Err (Not_Ready dep ''unhealthy''), s')
                    else if h = ''none'' then (Err (Not_Ready dep ''no healthcheck''), s')
                    else if HEALTH_WAIT_SECS \<le> elapsed + delay k then (Err (Not_Ready dep ''timeout''), s')
                    else wait_healthy_from delay api i dep (Suc k) (elapsed + delay k + 1) s'))"
  by pat_completeness auto

termination
  by (relation "measure (\<lambda>(delay, api, i, dep, k, elapsed, s). HEALTH_WAIT_SECS - elapsed)") auto

declare wait_healthy_from.simps [simp del]

definition wait_healthy :: "host_env \<Rightarrow> 'd api \<Rightarrow> string \<Rightarrow> string \<Rightarrow> ('d, unit) io" where
  "wait_healthy env api i dep = wait_healthy_from (he_delay env) api i dep 0 0"

definition wait_completed :: "'d api \<Rightarrow> string \<Rightarrow> string \<Rightarrow> ('d, unit) io" where
  "wait_completed api i dep =
     bind_io (call_ok api (request ''POST'' (''/containers/'' @ i @ ''/wait'') No_Body)) (\<lambda>v.
       return_io (if (case json_i64 (json_at v ''StatusCode'') of Some c \<Rightarrow> c | None \<Rightarrow> - 1) = 0
                  then Ok () else Err (Not_Ready dep ''exit status'')))"

definition gate :: "host_env \<Rightarrow> 'd api \<Rightarrow> string \<Rightarrow> (string, string) assoc \<Rightarrow> string \<times> dep_condition \<Rightarrow> ('d, unit) io" where
  "gate env api name started dc =
     (case dc of (dep, cond) \<Rightarrow>
        (case assoc_get started dep of
           None \<Rightarrow> return_io (if cond = Cond_Started then Ok () else Err (Not_Started name dep))
         | Some i \<Rightarrow>
            (case cond of
               Cond_Started \<Rightarrow> return_io (Ok ())
             | Cond_Healthy \<Rightarrow> wait_healthy env api i dep
             | Cond_Completed \<Rightarrow> wait_completed api i dep)))"

section \<open>Mounts and bindings of a service\<close>

definition ref_parts :: "secret_ref \<Rightarrow> string \<times> string" where
  "ref_parts r = (case r of
     Secret_Short s \<Rightarrow> (s, s)
   | Secret_Long s t \<Rightarrow> (s, case t of Some x \<Rightarrow> x | None \<Rightarrow> s))"

definition credential_mount ::
  "(string \<Rightarrow> bool) \<Rightarrow> string \<Rightarrow> (string, secret_config) assoc \<Rightarrow> string \<Rightarrow> string \<Rightarrow> secret_ref
    \<Rightarrow> (compose_error, string) result" where
  "credential_mount is_file kind tops service compose_dir r =
     (case ref_parts r of (source, target) \<Rightarrow>
        if target = [] \<or> CHR ''/'' \<in> set target \<or> CHR 0x00 \<in> set target then Err (Bad_Target service kind target)
        else
         (case assoc_get tops source of
            None \<Rightarrow> Err (Undefined_Credential service kind source)
          | Some entry \<Rightarrow>
             (case sec_file entry of
                None \<Rightarrow> Err (Unsupported_Credential service kind source)
              | Some f \<Rightarrow>
                  let p = (if starts_with ''/'' f then f else join_path compose_dir f) in
                  if \<not> is_file p then Err (Credential_Missing service kind source)
                  else Ok (p @ '':'' @ (if kind = ''secrets'' then ''/run/secrets/'' @ target else ''/'' @ target) @ '':ro''))))"

fun traverse :: "('a \<Rightarrow> ('e, 'b) result) \<Rightarrow> 'a list \<Rightarrow> ('e, 'b list) result" where
  "traverse f [] = Ok []"
| "traverse f (x # xs) = and_then (f x) (\<lambda>y. and_then (traverse f xs) (\<lambda>ys. Ok (y # ys)))"

definition credential_mounts ::
  "(string \<Rightarrow> bool) \<Rightarrow> string \<Rightarrow> secret_ref list \<Rightarrow> (string, secret_config) assoc \<Rightarrow> string \<Rightarrow> string
    \<Rightarrow> (compose_error, string list) result" where
  "credential_mounts is_file kind refs tops service compose_dir =
     traverse (credential_mount is_file kind tops service compose_dir) refs"

definition push_binding :: "(string, json list) assoc \<Rightarrow> port_mapping \<Rightarrow> (string, json list) assoc" where
  "push_binding m pm =
     assoc_put m (pm_container_key pm)
       ((case assoc_get m (pm_container_key pm) of Some bs \<Rightarrow> bs | None \<Rightarrow> [])
        @ [JObj [(''HostIp'', JStr (pm_host_ip pm)), (''HostPort'', JStr (pm_host_port pm))]])"

fun port_bindings_of :: "string list \<Rightarrow> (string, json list) assoc \<Rightarrow> (compose_error, (string, json list) assoc) result" where
  "port_bindings_of [] m = Ok m"
| "port_bindings_of (p # ps) m =
     (case parse_port_spec p of
        Inl e \<Rightarrow> Err (Bad_Ports p)
      | Inr pms \<Rightarrow> port_bindings_of ps (foldl push_binding m pms))"

definition service_bind :: "string \<Rightarrow> compose_file \<Rightarrow> string \<Rightarrow> string \<Rightarrow> string" where
  "service_bind project compose compose_dir v =
     (case split_once CHR '':'' v of
        None \<Rightarrow> v
      | Some (src, dst) \<Rightarrow>
          if has_key (cf_volumes compose) src then project @ ''_'' @ src @ '':'' @ dst
          else if starts_with ''.'' src \<or> starts_with ''/'' src then
            (if starts_with ''/'' src then src else join_path compose_dir src) @ '':'' @ dst
          else v)"

definition service_labels :: "string \<Rightarrow> string \<Rightarrow> (string, json) assoc" where
  "service_labels project name =
     [(''com.docker.compose.project'', JStr project), (''com.docker.compose.service'', JStr name),
      (''com.docker.compose.container-number'', JStr ''1''), (''com.docker.compose.oneoff'', JStr ''False''),
      (''com.docker.compose.version'', JStr ''2.24.0'')]"

definition json_list :: "string list \<Rightarrow> json" where
  "json_list xs = JArr (map JStr xs)"

definition json_text_or_empty :: "string option \<Rightarrow> json" where
  "json_text_or_empty x = JStr (case x of Some s \<Rightarrow> s | None \<Rightarrow> [])"

definition create_body ::
  "string \<Rightarrow> string \<Rightarrow> service_config \<Rightarrow> string \<Rightarrow> (string, json list) assoc \<Rightarrow> string list \<Rightarrow> int \<times> int \<Rightarrow> json" where
  "create_body project name s img bindings binds limits =
     JObj [(''Image'', JStr img),
           (''Cmd'', json_list (case sc_command s of Some c \<Rightarrow> string_or_list_to_vec c | None \<Rightarrow> [])),
           (''Entrypoint'', (case sc_entrypoint s of Some e \<Rightarrow> json_list (string_or_list_to_vec e) | None \<Rightarrow> JNull)),
           (''Env'', json_list (case sc_environment s of Some e \<Rightarrow> env_spec_to_vec e | None \<Rightarrow> [])),
           (''WorkingDir'', json_text_or_empty (sc_working_dir s)),
           (''User'', json_text_or_empty (sc_user s)),
           (''Labels'', JObj (service_labels project name)),
           (''HostConfig'',
             JObj [(''NetworkMode'', JStr (project @ ''_default'')),
                   (''PortBindings'', JObj (map (\<lambda>(k, bs). (k, JArr bs)) bindings)),
                   (''Binds'', json_list binds),
                   (''NanoCpus'', JInt (fst limits)),
                   (''Memory'', JInt (snd limits)),
                   (''RestartPolicy'', JObj [(''Name'', json_text_or_empty (sc_restart s)), (''MaximumRetryCount'', JInt 0)])])]"

section \<open>Up\<close>

definition service_decision :: "bool \<Rightarrow> service_config \<Rightarrow> (compose_error, pull_action) result" where
  "service_decision force_build s = decide_pull (sc_pull_policy s) (sc_image s \<noteq> None) (sc_build s \<noteq> None) force_build"

definition build_target :: "string \<Rightarrow> build_spec option \<Rightarrow> string \<times> string" where
  "build_target compose_dir b =
     (case b of
        Some (Build_Simple c) \<Rightarrow> (join_path compose_dir c, ''Dockerfile'')
      | Some (Build_Detailed c d) \<Rightarrow>
          (join_path compose_dir (case c of Some x \<Rightarrow> x | None \<Rightarrow> ''.''), case d of Some x \<Rightarrow> x | None \<Rightarrow> ''Dockerfile'')
      | None \<Rightarrow> (compose_dir, ''Dockerfile''))"

definition obtain_image ::
  "host_env \<Rightarrow> 'd api \<Rightarrow> string \<Rightarrow> string \<Rightarrow> string \<Rightarrow> service_config \<Rightarrow> pull_action \<Rightarrow> ('d, string) io" where
  "obtain_image env api project compose_dir name s action =
     (if action = Pull_Build then
        (case build_target compose_dir (sc_build s) of (ctx, df) \<Rightarrow>
           let tag = project @ ''-'' @ name @ '':latest''
           in bind_io (cmd_build env api tag df ctx) (\<lambda>_. return_io (Ok tag)))
      else
       (case sc_image s of
          None \<Rightarrow> return_io (Err (No_Image name))
        | Some img \<Rightarrow>
            bind_io (call_ignored api (request ''GET'' (''/images/'' @ img @ ''/json'') No_Body)) (\<lambda>present.
              case action of
                Pull_Always \<Rightarrow> bind_io (cmd_pull env api img) (\<lambda>_. return_io (Ok img))
              | Pull_If_Missing \<Rightarrow>
                  if present then return_io (Ok img) else bind_io (cmd_pull env api img) (\<lambda>_. return_io (Ok img))
              | Require_Local \<Rightarrow> return_io (if present then Ok img else Err (Image_Absent name img))
              | Pull_Build \<Rightarrow> return_io (Ok img))))"

definition container_name_of :: "string \<Rightarrow> string \<Rightarrow> service_config \<Rightarrow> string" where
  "container_name_of project name s = (case sc_container_name s of Some c \<Rightarrow> c | None \<Rightarrow> project @ ''-'' @ name @ ''-1'')"

definition create_container_request :: "string \<Rightarrow> json \<Rightarrow> http_request" where
  "create_container_request cname b = request ''POST'' (''/containers/create?name='' @ cname) (Json_Body b)"

definition start_request :: "string \<Rightarrow> http_request" where
  "start_request i = request ''POST'' (''/containers/'' @ i @ ''/start'') No_Body"

text \<open>What is sent for a service once its image is there: the request body with ports, mounts and limits.\<close>

definition service_body ::
  "host_env \<Rightarrow> string \<Rightarrow> compose_file \<Rightarrow> string \<Rightarrow> string \<Rightarrow> service_config \<Rightarrow> string \<Rightarrow> (compose_error, json) result" where
  "service_body env project compose compose_dir name s img =
     and_then (port_bindings_of (sc_ports s) []) (\<lambda>bindings.
     and_then (deploy_limits (sc_deploy s) name) (\<lambda>limits.
     and_then (credential_mounts (he_is_file env) ''secrets'' (sc_secrets s) (cf_secrets compose) name compose_dir) (\<lambda>ss.
     and_then (credential_mounts (he_is_file env) ''configs'' (sc_configs s) (cf_configs compose) name compose_dir) (\<lambda>cs.
       Ok (create_body project name s img bindings
             (map (service_bind project compose compose_dir) (sc_volumes s) @ ss @ cs) limits)))))"

definition up_service ::
  "host_env \<Rightarrow> 'd api \<Rightarrow> string \<Rightarrow> compose_file \<Rightarrow> string \<Rightarrow> bool \<Rightarrow> (string, string) assoc \<Rightarrow> string
    \<Rightarrow> service_config \<Rightarrow> ('d, string) io" where
  "up_service env api project compose compose_dir force_build started name s =
     bind_io (return_io (dependency_conditions (sc_depends_on s))) (\<lambda>conds.
     bind_io (for_each_io conds (gate env api name started)) (\<lambda>_.
     bind_io (return_io (service_decision force_build s)) (\<lambda>action.
     bind_io (obtain_image env api project compose_dir name s action) (\<lambda>img.
     let cname = container_name_of project name s in
     bind_io (call_ignored api (request ''DELETE'' (''/containers/'' @ cname @ ''?force=1'') No_Body)) (\<lambda>_.
     bind_io (return_io (service_body env project compose compose_dir name s img)) (\<lambda>b.
     bind_io (call_ok api (create_container_request cname b)) (\<lambda>created.
     let cid = (case json_text created ''Id'' of Some i \<Rightarrow> i | None \<Rightarrow> cname) in
     bind_io (call_ok api (start_request cid)) (\<lambda>_. return_io (Ok cid)))))))))"

fun up_loop ::
  "host_env \<Rightarrow> 'd api \<Rightarrow> string \<Rightarrow> compose_file \<Rightarrow> string \<Rightarrow> bool \<Rightarrow> (string, service_config) assoc
    \<Rightarrow> string list \<Rightarrow> (string, string) assoc \<Rightarrow> ('d, (string, string) assoc) io" where
  "up_loop env api project compose compose_dir force_build services [] started = return_io (Ok started)"
| "up_loop env api project compose compose_dir force_build services (n # ns) started =
     bind_io (up_service env api project compose compose_dir force_build started n (the (assoc_get services n)))
       (\<lambda>cid. up_loop env api project compose compose_dir force_build services ns (assoc_put started n cid))"

text \<open>The checks made for every service before the first container is created.\<close>

definition validate_service :: "host_env \<Rightarrow> compose_file \<Rightarrow> string \<Rightarrow> bool \<Rightarrow> string \<Rightarrow> service_config \<Rightarrow> (compose_error, unit) result" where
  "validate_service env compose compose_dir force_build name s =
     and_then (service_decision force_build s) (\<lambda>_.
     and_then (dependency_conditions (sc_depends_on s)) (\<lambda>_.
     and_then (deploy_limits (sc_deploy s) name) (\<lambda>_.
     and_then (credential_mounts (he_is_file env) ''secrets'' (sc_secrets s) (cf_secrets compose) name compose_dir) (\<lambda>_.
     and_then (credential_mounts (he_is_file env) ''configs'' (sc_configs s) (cf_configs compose) name compose_dir) (\<lambda>_. Ok ())))))"

definition enabled_services :: "compose_file \<Rightarrow> string list \<Rightarrow> (string, service_config) assoc" where
  "enabled_services compose active = filter (\<lambda>(_, svc). service_enabled svc active) (cf_services compose)"

text \<open>Creating a resource that may exist already: an error that says so is not one.\<close>

definition create_unless_exists :: "'d api \<Rightarrow> http_request \<Rightarrow> ('d, unit) io" where
  "create_unless_exists api rq s =
     (case call api rq s of
        (Inr _, s') \<Rightarrow> (Ok (), s')
      | (Inl e, s') \<Rightarrow>
          if contains_str ''Conflict'' e \<or> contains_str ''already exists'' e then (Ok (), s') else (Err (Api_Failed e), s'))"

definition network_request :: "string \<Rightarrow> http_request" where
  "network_request project = request ''POST'' ''/networks/create'' (Json_Body (JObj
     [(''Name'', JStr (project @ ''_default'')), (''CheckDuplicate'', JBool True), (''Driver'', JStr ''bridge''),
      (''Labels'', JObj [(''com.docker.compose.project'', JStr project), (''com.docker.compose.network'', JStr ''default'')])]))"

definition volume_request :: "string \<Rightarrow> string \<Rightarrow> http_request" where
  "volume_request project v = request ''POST'' ''/volumes/create'' (Json_Body (JObj
     [(''Name'', JStr (project @ ''_'' @ v)), (''Driver'', JStr ''local''),
      (''Labels'', JObj [(''com.docker.compose.project'', JStr project), (''com.docker.compose.volume'', JStr v)])]))"

definition up_resolved ::
  "host_env \<Rightarrow> 'd api \<Rightarrow> string \<Rightarrow> compose_file \<Rightarrow> string \<Rightarrow> bool \<Rightarrow> string list \<Rightarrow> ('d, (string, string) assoc) io" where
  "up_resolved env api project compose compose_dir force_build active =
     bind_io (create_unless_exists api (network_request project)) (\<lambda>_.
     bind_io (for_each_io (assoc_keys (cf_volumes compose)) (\<lambda>v. create_unless_exists api (volume_request project v))) (\<lambda>_.
     let services = enabled_services compose active; order = the (topological_sort services) in
     bind_io (for_each_io order (\<lambda>n. return_io (validate_service env compose compose_dir force_build n (the (assoc_get services n))))) (\<lambda>_.
       up_loop env api project compose compose_dir force_build services order [])))"

definition compose_up ::
  "host_env \<Rightarrow> 'd api \<Rightarrow> (string \<Rightarrow> file_state) \<Rightarrow> nat \<Rightarrow> string \<Rightarrow> compose_file \<Rightarrow> string option \<Rightarrow> string option
    \<Rightarrow> bool \<Rightarrow> string list \<Rightarrow> string option \<Rightarrow> ('d, (string, string) assoc) io option" where
  "compose_up env api fs fuel path compose proj canonical_dir force_build profiles profile_env =
     map_option (\<lambda>r. bind_io (return_io r) (\<lambda>resolved.
         up_resolved env api (resolve_project_name proj canonical_dir) resolved
           (case path_parent path of Some d \<Rightarrow> d | None \<Rightarrow> ''.'') force_build (active_profiles_from profiles profile_env)))
       (apply_extends fs fuel path compose)"

section \<open>Down\<close>

definition label_of :: "json \<Rightarrow> string \<Rightarrow> string option" where
  "label_of c k = (case json_get ''Labels'' c of Some (JObj m) \<Rightarrow> (case assoc_get m k of Some v \<Rightarrow> json_str v | None \<Rightarrow> None) | _ \<Rightarrow> None)"

definition container_id :: "json \<Rightarrow> string" where
  "container_id c = (case json_text c ''Id'' of Some i \<Rightarrow> i | None \<Rightarrow> [])"

definition of_project :: "string \<Rightarrow> json \<Rightarrow> bool" where
  "of_project project c = (label_of c ''com.docker.compose.project'' = Some project)"

definition delete_container_request :: "string \<Rightarrow> http_request" where
  "delete_container_request i = request ''DELETE'' (''/containers/'' @ i @ ''?force=1'') No_Body"

definition down_container :: "'d api \<Rightarrow> string \<Rightarrow> json \<Rightarrow> ('d, unit) io" where
  "down_container api project c =
     (if of_project project c then
        bind_io (call_ignored api (request ''POST'' (''/containers/'' @ container_id c @ ''/stop?t=2'') No_Body)) (\<lambda>_.
        bind_io (call_ignored api (delete_container_request (container_id c))) (\<lambda>_. return_io (Ok ())))
      else return_io (Ok ()))"

definition compose_down :: "'d api \<Rightarrow> string \<Rightarrow> compose_file \<Rightarrow> bool \<Rightarrow> ('d, unit) io" where
  "compose_down api project compose remove_volumes =
     bind_io (call_ok api (request ''GET'' ''/containers/json?all=1'' No_Body)) (\<lambda>v.
     case v of
       JArr cs \<Rightarrow>
         bind_io (for_each_io cs (down_container api project)) (\<lambda>_.
         bind_io (call_ignored api (request ''DELETE'' (''/networks/'' @ project @ ''_default'') No_Body)) (\<lambda>_.
         if remove_volumes
         then for_each_io (assoc_keys (cf_volumes compose)) (\<lambda>v.
                bind_io (call_ignored api (request ''DELETE'' (''/volumes/'' @ project @ ''_'' @ v) No_Body)) (\<lambda>_. return_io (Ok ())))
         else return_io (Ok ())))
     | _ \<Rightarrow> return_io (Err (Api_Failed ''bad JSON'')))"

section \<open>Traces\<close>

named_theorems sends \<open>which requests an action sends\<close>

definition sends_only :: "(http_request \<times> response \<Rightarrow> bool) \<Rightarrow> ('d, 'a) io \<Rightarrow> bool" where
  "sends_only P m \<longleftrightarrow> (\<forall>s. \<exists>t. cl_trace (snd (m s)) = cl_trace s @ t \<and> (\<forall>x \<in> set t. P x))"

lemma sends_onlyD:
  assumes "sends_only P m" "m s = (r, s')"
  obtains t where "cl_trace s' = cl_trace s @ t" "\<And>x. x \<in> set t \<Longrightarrow> P x"
  using assms unfolding sends_only_def by (metis snd_conv)

lemma sends_mono: "sends_only P m \<Longrightarrow> (\<And>x. P x \<Longrightarrow> Q x) \<Longrightarrow> sends_only Q m"
  unfolding sends_only_def by meson

lemma sends_return [sends]: "sends_only P (return_io r)"
  by (simp add: sends_only_def return_io_def)

lemma sends_bind [sends]:
  assumes "sends_only P m" "\<And>a. sends_only P (f a)"
  shows "sends_only P (bind_io m f)"
  unfolding sends_only_def
proof
  fix s
  obtain r s1 where m: "m s = (r, s1)" by (cases "m s")
  obtain t where t: "cl_trace s1 = cl_trace s @ t" "\<And>x. x \<in> set t \<Longrightarrow> P x"
    using sends_onlyD [OF assms(1) m] by metis
  show "\<exists>t. cl_trace (snd (bind_io m f s)) = cl_trace s @ t \<and> (\<forall>x \<in> set t. P x)"
  proof (cases r)
    case (Inl e)
    then show ?thesis using m t by (auto simp: bind_io_def)
  next
    case (Inr a)
    obtain r2 s2 where f: "f a s1 = (r2, s2)" by (cases "f a s1")
    obtain u where "cl_trace s2 = cl_trace s1 @ u" "\<And>x. x \<in> set u \<Longrightarrow> P x"
      using sends_onlyD [OF assms(2) f] by metis
    then show ?thesis using m f t Inr by (auto simp: bind_io_def intro!: exI [of _ "t @ u"])
  qed
qed

lemma call_trace: "cl_trace (snd (call api rq s)) = cl_trace s @ [(rq, fst (call api rq s))]"
  by (simp add: call_def split: prod.splits)

lemma sends_call_ok [sends]: "(\<And>r. P (rq, r)) \<Longrightarrow> sends_only P (call_ok api rq)"
  unfolding sends_only_def call_ok_def
  by (auto simp: call_def split: prod.splits sum.splits)

lemma sends_call_ignored [sends]: "(\<And>r. P (rq, r)) \<Longrightarrow> sends_only P (call_ignored api rq)"
  unfolding sends_only_def call_ignored_def
  by (auto simp: call_def split: prod.splits)

lemma sends_create_unless [sends]: "(\<And>r. P (rq, r)) \<Longrightarrow> sends_only P (create_unless_exists api rq)"
  unfolding sends_only_def create_unless_exists_def
  by (auto simp: call_def split: prod.splits sum.splits)

lemma sends_for_each [sends]: "(\<And>x. x \<in> set xs \<Longrightarrow> sends_only P (f x)) \<Longrightarrow> sends_only P (for_each_io xs f)"
  by (induction xs) (auto intro!: sends)

lemma sends_wait_from: "(\<And>r. P (inspect_request i, r)) \<Longrightarrow> sends_only P (wait_healthy_from delay api i dep k elapsed)"
proof -
  assume P: "\<And>r. P (inspect_request i, r)"
  have "\<exists>t. cl_trace (snd (wait_healthy_from delay api i dep k elapsed s)) = cl_trace s @ t \<and> (\<forall>x \<in> set t. P x)" for s
    using P
  proof (induction delay api i dep k elapsed s rule: wait_healthy_from.induct)
    case (1 delay api i dep k elapsed s)
    obtain r s1 where c: "call api (inspect_request i) s = (r, s1)" by (cases "call api (inspect_request i) s")
    have t: "cl_trace s1 = cl_trace s @ [(inspect_request i, r)]"
      using call_trace [of api "inspect_request i" s] c by simp
    show ?case
    proof (cases r)
      case (Inl e)
      then show ?thesis using c t "1.prems" by (subst wait_healthy_from.simps) (auto split: sum.splits)
    next
      case (Inr st)
      show ?thesis
        using c t Inr "1.prems" "1.IH" [OF c [unfolded Inr, symmetric]]
        by (subst wait_healthy_from.simps) (fastforce split: option.splits if_splits)
    qed
  qed
  then show ?thesis by (simp add: sends_only_def)
qed

text \<open>Every action of a run only adds to the trace; the gates send requests without a body.\<close>

abbreviation bodiless :: "http_request \<times> response \<Rightarrow> bool" where
  "bodiless x \<equiv> rq_body (fst x) = No_Body"

lemma sends_gate: "sends_only bodiless (gate env api name started dc)"
  unfolding gate_def wait_healthy_def wait_completed_def
  by (auto intro!: sends sends_wait_from simp: inspect_request_def request_def split: prod.splits option.splits dep_condition.splits)

lemma sends_obtain_image: "sends_only (\<lambda>_. True) (obtain_image env api project dir name s action)"
  unfolding obtain_image_def cmd_build_def cmd_pull_def Let_def
  by (auto intro!: sends split: prod.splits option.splits sum.splits pull_action.splits)

lemma sends_up_service: "sends_only (\<lambda>_. True) (up_service env api project compose dir force started name s)"
  unfolding up_service_def Let_def
  by (intro sends sends_obtain_image sends_mono [OF sends_gate] TrueI)

lemma sends_up_loop: "sends_only (\<lambda>_. True) (up_loop env api project compose dir force services ns started)"
  by (induction ns arbitrary: started) (auto intro!: sends sends_up_service)

lemma up_loop_append:
  "up_loop env api project compose dir force services (xs @ ys) started =
     bind_io (up_loop env api project compose dir force services xs started)
       (\<lambda>started'. up_loop env api project compose dir force services ys started')"
proof (induction xs arbitrary: started)
  case Nil
  then show ?case by (simp add: fun_eq_iff bind_io_def return_io_def)
next
  case (Cons x xs)
  then show ?case by (auto simp: fun_eq_iff bind_io_def split: sum.splits prod.splits)
qed

section \<open>Services start after their dependencies\<close>

lemma bind_Ok:
  "bind_io m f s = (Ok b, s') \<longleftrightarrow> (\<exists>a s1. m s = (Ok a, s1) \<and> f a s1 = (Ok b, s'))"
  by (auto simp: bind_io_def split: prod.splits sum.splits)

lemma call_ok_Ok: "call_ok api rq s = (Ok v, s') \<Longrightarrow> cl_trace s' = cl_trace s @ [(rq, Ok v)]"
  using call_trace [of api rq s] by (auto simp: call_ok_def split: prod.splits sum.splits)

lemma return_Ok: "return_io r s = (Ok a, s') \<longleftrightarrow> r = Ok a \<and> s' = s"
  by (auto simp: return_io_def)

lemma up_service_starts:
  assumes "up_service env api project compose dir force started name s st = (Ok cid, st')"
  shows "\<exists>v. (start_request cid, Ok v) \<in> set (cl_trace st')"
  using assms by (auto simp: up_service_def bind_Ok return_Ok Let_def dest!: call_ok_Ok)

definition started_in :: "(http_request \<times> response) list \<Rightarrow> (string, string) assoc \<Rightarrow> string \<Rightarrow> bool" where
  "started_in trace started n \<longleftrightarrow> (\<exists>i v. assoc_get started n = Some i \<and> (start_request i, Ok v) \<in> set trace)"

lemma up_loop_starts:
  assumes "up_loop env api project compose dir force services ns started s = (Ok started', s')"
    and "n \<in> set ns \<or> started_in (cl_trace s) started n"
  shows "started_in (cl_trace s') started' n"
  using assms
proof (induction ns arbitrary: started s)
  case Nil
  then show ?case by (simp add: return_io_def)
next
  case (Cons m ns)
  obtain cid s1 where u: "up_service env api project compose dir force started m (the (assoc_get services m)) s = (Ok cid, s1)"
    and rest: "up_loop env api project compose dir force services ns (assoc_put started m cid) s1 = (Ok started', s')"
    using Cons.prems(1) by (auto simp: bind_Ok)
  obtain t where t: "cl_trace s1 = cl_trace s @ t"
    using sends_onlyD [OF sends_up_service u] by metis
  have "n \<in> set ns \<or> started_in (cl_trace s1) (assoc_put started m cid) n"
    using Cons.prems(2) up_service_starts [OF u] t by (auto simp: started_in_def)
  then show ?case by (rule Cons.IH [OF rest])
qed

lemma distinct_split_unique:
  assumes "distinct (xs @ n # ys)" "xs @ n # ys = us @ n # vs"
  shows "xs = us"
proof -
  have "distinct (us @ n # vs)" using assms by simp
  then have "n \<notin> set us" by simp
  moreover have "n \<notin> set xs" using assms(1) by simp
  ultimately show ?thesis using takeWhile_char(1) [of n xs ys] takeWhile_char(1) [of n us vs] assms(2) by simp
qed

text \<open>Claim C7: With acyclic dependencies, by the time \<open>up\<close> turns to a service, each of its
  dependencies among the services of the run has been created and its start request has
  succeeded; if an earlier service failed, nothing at all is done for this one.\<close>

theorem up_starts_dependencies_first:
  assumes "assoc_wf services" "acyclic (dependency_relation services)"
    and "topological_sort services = Some (xs @ n # ys)" "(dep, n) \<in> dependency_relation services"
    and "up_loop env api project compose dir force services xs [] s = (r, s1)"
  shows "case r of
      Inl e \<Rightarrow> up_loop env api project compose dir force services (xs @ n # ys) [] s = (Err e, s1)
    | Inr started \<Rightarrow> started_in (cl_trace s1) started dep"
proof (cases r)
  case (Inl e)
  then show ?thesis using assms(5) by (simp add: up_loop_append bind_io_def)
next
  case (Inr started)
  have "precedes (xs @ n # ys) dep n"
    by (rule sort_precedes [OF assms(1,2,4,3)])
  then obtain us vs where o: "xs @ n # ys = us @ n # vs" "dep \<in> set us" by (auto simp: precedes_def)
  obtain order where "topological_sort services = Some order" "distinct order"
    by (rule topological_sort_inv [OF assms(1)])
  then have "distinct (xs @ n # ys)" using assms(3) by (simp only: option.inject)
  then have "xs = us" by (rule distinct_split_unique [OF _ o(1)])
  then have "started_in (cl_trace s1) started dep"
    using o(2) by (intro up_loop_starts [OF assms(5) [unfolded Inr]]) simp
  then show ?thesis using Inr by simp
qed

section \<open>Health gates\<close>

lemma wait_healthy_from_Ok:
  assumes "wait_healthy_from delay api i dep k elapsed s = (Ok (), s')"
  shows "\<exists>t st. cl_trace s' = cl_trace s @ t \<and> (inspect_request i, Ok st) \<in> set t \<and> is_running st \<and> health_of st = Some ''healthy''"
  using assms
proof (induction delay api i dep k elapsed s rule: wait_healthy_from.induct)
  case (1 delay api i dep k elapsed s)
  obtain r s1 where c: "call api (inspect_request i) s = (r, s1)" by (cases "call api (inspect_request i) s")
  have t: "cl_trace s1 = cl_trace s @ [(inspect_request i, r)]"
    using call_trace [of api "inspect_request i" s] c by simp
  obtain st where r: "r = Ok st"
    using "1.prems" c by (subst (asm) wait_healthy_from.simps) (auto split: sum.splits)
  obtain h where run: "is_running st" and h: "health_of st = Some h"
    using "1.prems" c r by (subst (asm) wait_healthy_from.simps) (auto split: option.splits if_splits)
  show ?case
  proof (cases "h = ''healthy''")
    case True
    then have "s' = s1" using "1.prems" c r run h by (subst (asm) wait_healthy_from.simps) simp
    then show ?thesis using t r run h True by auto
  next
    case False
    then have no: "h \<noteq> ''unhealthy''" "h \<noteq> ''none''" "\<not> HEALTH_WAIT_SECS \<le> elapsed + delay k"
      "wait_healthy_from delay api i dep (Suc k) (elapsed + delay k + 1) s1 = (Ok (), s')"
      using "1.prems" c r run h by (subst (asm) wait_healthy_from.simps, auto split: if_splits)+
    have "\<exists>t st. cl_trace s' = cl_trace s1 @ t \<and> (inspect_request i, Ok st) \<in> set t \<and> is_running st \<and> health_of st = Some ''healthy''"
      using "1.IH" [OF c [unfolded r, symmetric] refl _ h False no(1,2,3,4)] run by simp
    then show ?thesis using t by auto
  qed
qed

lemma for_each_Ok_parts:
  assumes "for_each_io xs f s = (Ok (), s')" "x \<in> set xs" "\<And>y. sends_only P (f y)"
  shows "\<exists>s1 s2 t u. f x s1 = (Ok (), s2) \<and> cl_trace s1 = cl_trace s @ t \<and> cl_trace s' = cl_trace s2 @ u"
  using assms(1,2)
proof (induction xs arbitrary: s)
  case (Cons y ys)
  obtain s1 where y: "f y s = (Ok (), s1)" and ys: "for_each_io ys f s1 = (Ok (), s')"
    using Cons.prems(1) by (auto simp: bind_Ok)
  show ?case
  proof (cases "x \<in> set ys")
    case True
    then obtain a b t u where "f x a = (Ok (), b)" "cl_trace a = cl_trace s1 @ t" "cl_trace s' = cl_trace b @ u"
      using Cons.IH [OF ys] by blast
    moreover obtain v where "cl_trace s1 = cl_trace s @ v" using sends_onlyD [OF assms(3) y] by metis
    ultimately show ?thesis by (intro exI [of _ a] exI [of _ b]) auto
  next
    case False
    then have "x = y" using Cons.prems(2) by simp
    moreover obtain u where "cl_trace s' = cl_trace s1 @ u"
      using sends_onlyD [OF sends_for_each [OF assms(3)] ys] by metis
    ultimately show ?thesis using y by (intro exI [of _ s] exI [of _ s1]) simp
  qed
qed simp

lemma up_service_after_gates:
  assumes "dependency_conditions (sc_depends_on svc) = Ok conds"
    and "for_each_io conds (gate env api name started) s = (Ok (), s1)"
    and "up_service env api project compose dir force started name svc s = (r, s')"
  shows "\<exists>z. cl_trace s' = cl_trace s1 @ z"
proof -
  obtain m where m: "up_service env api project compose dir force started name svc s = m s1" "sends_only (\<lambda>_. True) m"
  proof
    let ?m = "bind_io (return_io (service_decision force svc)) (\<lambda>action.
     bind_io (obtain_image env api project dir name svc action) (\<lambda>img.
     let cname = container_name_of project name svc in
     bind_io (call_ignored api (request ''DELETE'' (''/containers/'' @ cname @ ''?force=1'') No_Body)) (\<lambda>_.
     bind_io (return_io (service_body env project compose dir name svc img)) (\<lambda>b.
     bind_io (call_ok api (create_container_request cname b)) (\<lambda>created.
     let cid = (case json_text created ''Id'' of Some i \<Rightarrow> i | None \<Rightarrow> cname) in
     bind_io (call_ok api (start_request cid)) (\<lambda>_. return_io (Ok cid)))))))"
    show "up_service env api project compose dir force started name svc s = ?m s1"
      unfolding up_service_def using assms(1,2) by (simp add: bind_io_def [of "return_io (Ok conds)"] bind_io_def [of "for_each_io conds _"] return_io_def [of "Ok conds"])
    show "sends_only (\<lambda>_. True) ?m"
      unfolding Let_def by (intro sends sends_obtain_image TrueI)
  qed
  then show ?thesis using sends_onlyD [OF m(2), of s1 r s'] assms(3) by metis
qed


text \<open>Claim C39: Waiting for a dependency ends: at most 61 inspections are made, whatever the daemon
  answers and however little time passes between two of them beyond the sleep.\<close>

theorem health_wait_bounded:
  assumes "wait_healthy env api i dep s = (r, s')"
  shows "length (cl_trace s') \<le> length (cl_trace s) + 61"
proof -
  have "length (cl_trace (snd (wait_healthy_from delay api i dep k elapsed s))) \<le> length (cl_trace s) + (HEALTH_WAIT_SECS - elapsed) + 1"
    for delay k elapsed and s :: "'a cli"
  proof (induction delay api i dep k elapsed s rule: wait_healthy_from.induct)
    case (1 delay api i dep k elapsed s)
    obtain x s1 where c: "call api (inspect_request i) s = (x, s1)" by (cases "call api (inspect_request i) s")
    have t: "length (cl_trace s1) = length (cl_trace s) + 1"
      using call_trace [of api "inspect_request i" s] c by simp
    show ?case
    proof (cases x)
      case (Inl e)
      then show ?thesis using c t by (subst wait_healthy_from.simps) simp
    next
      case (Inr st)
      have "length (cl_trace (snd (wait_healthy_from delay api i dep (Suc k) (elapsed + delay k + 1) s1)))
          \<le> length (cl_trace s) + (HEALTH_WAIT_SECS - elapsed) + 1"
        if "health_of st = Some h" "is_running st" "h \<noteq> ''healthy''" "h \<noteq> ''unhealthy''" "h \<noteq> ''none''"
          "\<not> HEALTH_WAIT_SECS \<le> elapsed + delay k" for h
        using "1.IH" [OF c [unfolded Inr, symmetric] refl _ that(1,3-6)] that(2,6) t by simp
      then show ?thesis
        using c t Inr by (subst wait_healthy_from.simps) (auto split: option.splits)
    qed
  qed
  from this [of "he_delay env" 0 0 s] show ?thesis
    using assms by (simp add: wait_healthy_def HEALTH_WAIT_SECS_def)
qed

section \<open>Down\<close>

text \<open>\<open>down\<close> removes no container but those the daemon lists with the project's label.\<close>

theorem down_only_own_containers:
  assumes "compose_down api project compose rv s = (r, s')" "cl_trace s' = cl_trace s @ t"
    and "(delete_container_request i, resp) \<in> set t"
  shows "\<exists>cs c. (request ''GET'' ''/containers/json?all=1'' No_Body, Ok (JArr cs)) \<in> set t \<and> c \<in> set cs
     \<and> of_project project c \<and> i = container_id c"
proof -
  let ?list = "request ''GET'' ''/containers/json?all=1'' No_Body"
  obtain x s1 where c: "call api ?list s = (x, s1)" by (cases "call api ?list s")
  have t1: "cl_trace s1 = cl_trace s @ [(?list, x)]" using call_trace [of api ?list s] c by simp
  have del: "rq_method (delete_container_request i) = ''DELETE''" "rq_path (delete_container_request i) = ''/containers/'' @ i @ ''?force=1''"
    by (simp_all add: delete_container_request_def request_def)
  have no_list: "(delete_container_request i, resp) \<noteq> (?list, x)" by (auto simp: delete_container_request_def request_def)
  have only: "\<exists>cs. x = Ok (JArr cs)"
    using assms no_list t1 c
    by (cases x) (auto simp: compose_down_def bind_io_def call_ok_def return_io_def split: json.splits)
  then obtain cs where x: "x = Ok (JArr cs)" by blast
  let ?P = "\<lambda>y. fst y = delete_container_request i \<longrightarrow> (\<exists>c \<in> set cs. of_project project c \<and> i = container_id c)"
  have same: "delete_container_request a = delete_container_request b \<longleftrightarrow> a = b" for a b
    by (simp add: delete_container_request_def request_def)
  have each: "sends_only ?P (down_container api project c)" if "c \<in> set cs" for c
    unfolding down_container_def using that
    by (auto intro!: sends simp: same) (auto simp: delete_container_request_def request_def)
  have "sends_only ?P (bind_io (for_each_io cs (down_container api project)) (\<lambda>_.
         bind_io (call_ignored api (request ''DELETE'' (''/networks/'' @ project @ ''_default'') No_Body)) (\<lambda>_.
         if rv
         then for_each_io (assoc_keys (cf_volumes compose)) (\<lambda>v.
                bind_io (call_ignored api (request ''DELETE'' (''/volumes/'' @ project @ ''_'' @ v) No_Body)) (\<lambda>_. return_io (Ok ())))
         else return_io (Ok ()))))" (is "sends_only ?P ?m")
    using each by (auto intro!: sends simp: delete_container_request_def request_def)
  moreover have "?m s1 = (r, s')"
    using assms(1) c x by (simp add: compose_down_def bind_io_def [of "call_ok _ _"] call_ok_def)
  ultimately obtain u where u: "cl_trace s' = cl_trace s1 @ u" "\<And>y. y \<in> set u \<Longrightarrow> ?P y"
    by (rule sends_onlyD) blast
  have "t = (?list, x) # u" using assms(2) t1 u(1) by simp
  then show ?thesis using assms(3) no_list u(2) x by fastforce
qed

section \<open>Runs\<close>

definition demo_host :: host_env where
  "demo_host = \<lparr>he_is_file = (\<lambda>_. True), he_context = (\<lambda>_. Some []), he_ignore_file = (\<lambda>_. []), he_encode = id,
     he_decode = Some, he_auth = [], he_delay = (\<lambda>_. 0)\<rparr>"

text \<open>A daemon that counts its requests and answers all of them.\<close>

definition demo_answer :: json where
  "demo_answer = JObj [(''Id'', JStr ''c1''),
     (''State'', JObj [(''Running'', JBool True), (''Health'', JObj [(''Status'', JStr ''healthy'')])])]"

definition demo_api :: "nat api" where
  "demo_api d rq = (if rq_path rq = ''/containers/json?all=1''
     then Ok (JArr [JObj [(''Id'', JStr ''c1''), (''Labels'', JObj [(''com.docker.compose.project'', JStr ''p'')])],
                    JObj [(''Id'', JStr ''c2''), (''Labels'', JObj [(''com.docker.compose.project'', JStr ''q'')])]])
     else Ok demo_answer, Suc d)"

definition demo_cli :: "nat cli" where "demo_cli = \<lparr>cl_daemon = 0, cl_trace = []\<rparr>"

definition two_services :: "(string, service_config) assoc" where
  "two_services =
     [(''web'', blank_service\<lparr>sc_image := Some ''web'',
         sc_depends_on := Some (Dep_Map [(''db'', JObj [(''condition'', JStr ''service_healthy'')])])\<rparr>),
      (''db'', blank_service\<lparr>sc_image := Some ''db''\<rparr>)]"

definition two_file :: compose_file where
  "two_file = \<lparr>cf_services = two_services, cf_volumes = [], cf_secrets = [], cf_configs = []\<rparr>"

lemma two_services_facts:
  "assoc_wf two_services" "dependency_edges two_services = [(''db'', ''web'')]"
  "topological_sort two_services = Some ([''db''] @ ''web'' # [])"
  by code_simp+

lemma two_services_acyclic: "acyclic (dependency_relation two_services)"
proof -
  have "dependency_relation two_services \<subseteq> measure (\<lambda>s. if s = ''db'' then 0 else 1)"
    by (simp add: dependency_relation_def two_services_facts)
  then show ?thesis by (meson acyclic_subset wf_acyclic wf_measure)
qed

lemma demo_prefix_run:
  "fst (up_loop demo_host demo_api ''p'' two_file [] False two_services [''db''] [] demo_cli) = Ok [(''db'', ''c1'')]"
  by code_simp

theorem up_starts_dependencies_first_witness:
  "started_in (cl_trace (snd (up_loop demo_host demo_api ''p'' two_file [] False two_services [''db''] [] demo_cli)))
     [(''db'', ''c1'')] ''db''"
proof -
  have "(''db'', ''web'') \<in> dependency_relation two_services"
    by (simp add: dependency_relation_def two_services_facts)
  from up_starts_dependencies_first [OF two_services_facts(1) two_services_acyclic two_services_facts(3) this
      prod.collapse [symmetric], of demo_host demo_api "''p''" two_file "[]" False demo_cli]
  show ?thesis unfolding demo_prefix_run by (simp only: sum.case)
qed

definition web_run :: "(compose_error, string) result \<times> nat cli" where
  "web_run = up_service demo_host demo_api ''p'' two_file [] False [(''db'', ''c1'')] ''web'' (the (assoc_get two_services ''web'')) demo_cli"

lemma web_run_creates:
  "list_ex (\<lambda>(rq, _). rq_path rq = ''/containers/create?name=p-web-1'' \<and> rq_method rq = ''POST''
      \<and> rq_headers rq = [] \<and> (case rq_body rq of Json_Body _ \<Rightarrow> True | _ \<Rightarrow> False)) (cl_trace (snd web_run))"
  by code_simp


theorem health_wait_bounded_witness: "length (cl_trace (snd (wait_healthy demo_host demo_api ''c1'' ''db'' demo_cli))) \<le> 61"
  using health_wait_bounded [of demo_host demo_api "''c1''" "''db''" demo_cli, OF prod.collapse [symmetric]]
  by (simp add: demo_cli_def)

lemma demo_down_deletes:
  "cl_trace (snd (compose_down demo_api ''p'' two_file False demo_cli)) ! 2 = (delete_container_request ''c1'', Ok demo_answer)"
  "length (cl_trace (snd (compose_down demo_api ''p'' two_file False demo_cli))) = 4"
  by code_simp+

theorem down_only_own_containers_witness:
  "\<exists>cs c. (request ''GET'' ''/containers/json?all=1'' No_Body, Ok (JArr cs)) \<in> set (cl_trace (snd (compose_down demo_api ''p'' two_file False demo_cli)))
     \<and> c \<in> set cs \<and> of_project ''p'' c \<and> ''c1'' = container_id c"
proof -
  let ?t = "cl_trace (snd (compose_down demo_api ''p'' two_file False demo_cli))"
  have "(delete_container_request ''c1'', Ok demo_answer) \<in> set ?t"
    using demo_down_deletes nth_mem [of 2 ?t] by simp
  then show ?thesis
    by (rule down_only_own_containers [of demo_api "''p''" two_file False demo_cli, OF prod.collapse [symmetric], rotated])
      (simp add: demo_cli_def)
qed

section \<open>Divergences\<close>

text \<open>A failed build is not noticed: any successful response, error lines included, counts as a build.\<close>

lemma build_failure_unnoticed:
  assumes "he_context env path = Some children"
    and "fst (api (cl_daemon s) (request ''POST'' (''/build?t='' @ url_escape tag @ ''&dockerfile='' @ url_escape df)
           (Archive (context_entries (parse_ignore (he_ignore_file env path)) df children)))) = Ok (JArr [JObj [(''error'', JStr e)]])"
  shows "fst (cmd_build env api tag df path s) = Ok () \<and> line_error (JObj [(''error'', JStr e)])"
proof -
  have "line_error (JObj [(''error'', JStr e)])"
    by (simp add: line_error_def json_text_def json_at_def json_get_def assoc_get_def json_str_def)
  then show ?thesis
    using assms by (auto simp: cmd_build_def bind_io_def call_ok_def call_def return_io_def Let_def split: prod.splits)
qed

text \<open>The network is created before the services are checked, and ports are not checked beforehand at all.\<close>

lemma network_created_before_validation:
  "\<exists>t r. cl_trace (snd (up_resolved env api project compose dir force active s)) = cl_trace s @ (network_request project, r) # t"
proof -
  obtain x s1 where c: "call api (network_request project) s = (x, s1)" by (cases "call api (network_request project) s")
  have t: "cl_trace s1 = cl_trace s @ [(network_request project, x)]"
    using call_trace [of api "network_request project" s] c by simp
  let ?net = "create_unless_exists api (network_request project)"
  have "\<exists>f. up_resolved env api project compose dir force active = bind_io ?net f \<and> (\<forall>a. sends_only (\<lambda>_. True) (f a))"
    unfolding up_resolved_def Let_def
    by (rule exI, rule conjI, rule refl) (intro allI sends sends_up_loop TrueI)
  then obtain f where f: "up_resolved env api project compose dir force active = bind_io ?net f" "\<And>a. sends_only (\<lambda>_. True) (f a)"
    by blast
  have "snd (?net s) = s1" using c by (auto simp: create_unless_exists_def split: sum.splits)
  then obtain y where y: "?net s = (y, s1)" by (cases "?net s") simp
  show ?thesis
  proof (cases y)
    case (Inl e)
    then show ?thesis using f(1) y t by (auto simp: bind_io_def)
  next
    case (Inr a)
    obtain r2 s2 where f2: "f a s1 = (r2, s2)" by (cases "f a s1")
    obtain u where "cl_trace s2 = cl_trace s1 @ u" using sends_onlyD [OF f(2) f2] by metis
    then show ?thesis using f(1) y t f2 Inr by (auto simp: bind_io_def)
  qed
qed

lemma ports_not_validated:
  "validate_service env compose dir force n (s\<lparr>sc_ports := ps\<rparr>) = validate_service env compose dir force n s"
  by (simp add: validate_service_def service_decision_def)

end
