(* ===== verification/Dockerfile.thy ===== *)
theory Dockerfile
  imports Ingot_Prelude
begin

text \<open>
  The Dockerfile parser (\<open>crates/builder/src/parser.rs\<close>): physical lines are joined into
  instructions, flags and heredocs are split off, and variables are expanded. The JSON reader of
  the exec form, a library, is the parameter \<open>J\<close>. The theory shows that a printed file is read back
  as the instructions it was printed from, that every accepted file has the shape the builder
  relies on, and that expansion substitutes each variable once and nothing else.
\<close>

section \<open>Instructions\<close>

record heredoc =
  hd_target :: string
  hd_content :: string

record instruction =
  in_verb :: string
  in_args :: string
  in_json_args :: "string list option"
  in_flags :: "(string \<times> string) list"
  in_heredocs :: "heredoc list"
  in_line :: nat

datatype dockerfile_error =
  Malformed_Instruction string | No_Instructions | No_From | Not_Begin_With_From

text \<open>\<open>split_once(char::is_whitespace)\<close>, and the narrower \<open>u8::is_ascii_whitespace\<close>, which leaves the
  vertical tab out.\<close>

definition split_once_ws :: "string \<Rightarrow> (string \<times> string) option" where
  "split_once_ws s =
     (case dropWhile (\<lambda>c. \<not> is_ws c) s of [] \<Rightarrow> None | _ # r \<Rightarrow> Some (takeWhile (\<lambda>c. \<not> is_ws c) s, r))"

definition is_ascii_ws :: "char \<Rightarrow> bool" where
  "is_ascii_ws c = (c \<in> {CHR '' '', CHR 0x09, CHR 0x0A, CHR 0x0C, CHR 0x0D})"

section \<open>Heredocs\<close>

text \<open>The text after the two less-than signs: an optional dash, an optional opening quote, then the
  delimiter up to the closing quote or white space.\<close>

definition delim_at :: "string \<Rightarrow> string \<times> string" where
  "delim_at r =
     (let r1 = (case r of c # r' \<Rightarrow> if c = CHR ''-'' then r' else r | [] \<Rightarrow> []);
          (quote, r2) = (case r1 of
             c # r' \<Rightarrow> if c = CHR 0x22 \<or> c = CHR 0x27 then (Some c, r') else (None, r1)
           | [] \<Rightarrow> (None, []));
          inside = (\<lambda>c. case quote of Some q \<Rightarrow> c \<noteq> q | None \<Rightarrow> \<not> is_ascii_ws c)
      in (takeWhile inside r2, dropWhile inside r2))"

lemma length_delim_at: "length (snd (delim_at r)) \<le> length r"
proof -
  have d: "length (dropWhile P s) \<le> n" if "length s \<le> n" for P :: "char \<Rightarrow> bool" and s n
    using that length_dropWhile_le order_trans by blast
  show ?thesis by (auto simp: delim_at_def Let_def intro!: d split: list.splits prod.splits)
qed

lemma delim_rest_shorter:
  assumes "(delim, rest) = delim_at (tl s)"
  shows "length rest < Suc (length s)"
proof -
  have "rest = snd (delim_at (tl s))" by (simp flip: assms)
  then have "length rest \<le> length (tl s)" using length_delim_at [of "tl s"] by argo
  then show ?thesis by simp
qed

function extract_heredoc_delims :: "string \<Rightarrow> string list" where
  "extract_heredoc_delims [] = []"
| "extract_heredoc_delims (c # s) =
     (if c = CHR ''<'' \<and> s \<noteq> [] \<and> hd s = CHR ''<'' then
        (case delim_at (tl s) of (delim, rest) \<Rightarrow>
           if delim = [] then extract_heredoc_delims rest else delim # extract_heredoc_delims rest)
      else extract_heredoc_delims s)"
  by pat_completeness auto

termination
  by (relation "measure length") (auto dest!: delim_rest_shorter)

fun collect_heredocs :: "string list \<Rightarrow> string list \<Rightarrow> heredoc list" where
  "collect_heredocs [] remaining = []"
| "collect_heredocs (delim # delims) remaining =
     \<lparr>hd_target = [], hd_content = join_with [CHR 0x0A] (takeWhile (\<lambda>l. trim_end l \<noteq> delim) remaining)\<rparr>
     # collect_heredocs delims (tl (dropWhile (\<lambda>l. trim_end l \<noteq> delim) remaining))"

definition split_heredocs :: "string \<Rightarrow> string \<times> heredoc list" where
  "split_heredocs text =
     (case lines text of
        [] \<Rightarrow> ([], [])
      | head_line # body \<Rightarrow> (head_line, collect_heredocs (extract_heredoc_delims head_line) body))"

section \<open>Flags and the exec form\<close>

definition flag_of :: "string \<Rightarrow> string \<times> string" where
  "flag_of tok = (case split_once CHR ''='' (drop 2 tok) of Some (k, v) \<Rightarrow> (k, v) | None \<Rightarrow> (drop 2 tok, []))"

lemma length_trim_le: "length (trim s) \<le> length s"
proof -
  have "length (trim_end t) \<le> length t" for t
    using length_dropWhile_le [of is_ws "rev t"] by (simp add: trim_end_def)
  then show ?thesis using length_dropWhile_le [of is_ws s] order_trans
    unfolding trim_def trim_start_def by blast
qed

function split_flags_loop :: "(string \<times> string) list \<Rightarrow> string \<Rightarrow> (string \<times> string) list \<times> string" where
  "split_flags_loop flags rest =
     (if \<not> starts_with ''--'' rest \<or> list_all (\<lambda>c. \<not> is_ws c) rest then (flags, rest)
      else split_flags_loop (flags @ [flag_of (takeWhile (\<lambda>c. \<not> is_ws c) rest)])
             (trim (dropWhile (\<lambda>c. \<not> is_ws c) rest)))"
  by pat_completeness auto

termination
proof (relation "measure (length \<circ> snd)")
  fix flags :: "(string \<times> string) list" and rest
  assume "\<not> (\<not> starts_with ''--'' rest \<or> list_all (\<lambda>c. \<not> is_ws c) rest)"
  then obtain t where "rest = CHR ''-'' # CHR ''-'' # t" by (auto simp: starts_with_iff)
  then have "length (dropWhile (\<lambda>c. \<not> is_ws c) rest) < length rest"
    using length_dropWhile_le [of "\<lambda>c. \<not> is_ws c" t] by (simp add: is_ws_def)
  then show "((flags @ [flag_of (takeWhile (\<lambda>c. \<not> is_ws c) rest)], trim (dropWhile (\<lambda>c. \<not> is_ws c) rest)), flags, rest)
      \<in> measure (length \<circ> snd)"
    using length_trim_le [of "dropWhile (\<lambda>c. \<not> is_ws c) rest"] by simp
qed simp

declare split_flags_loop.simps [simp del]

definition split_flags :: "string \<Rightarrow> (string \<times> string) list \<times> string" where
  "split_flags args = split_flags_loop [] (trim args)"

definition parse_json_form :: "(string \<Rightarrow> string list option) \<Rightarrow> string \<Rightarrow> string list option" where
  "parse_json_form J args = (let t = trim args in if \<not> starts_with ''['' t then None else J t)"

section \<open>Reading a file\<close>

text \<open>The end of a logical line: its text becomes an instruction.\<close>

definition flush ::
  "(string \<Rightarrow> string list option) \<Rightarrow> string \<Rightarrow> nat \<Rightarrow> instruction list \<Rightarrow> bool
    \<Rightarrow> (dockerfile_error, instruction list) result" where
  "flush J logical start_line instructions has_heredoc =
     (let text = trim logical in
      if text = [] then Ok instructions
      else
        let (head, heredocs) = (if has_heredoc then split_heredocs text else (text, [])) in
        case split_once_ws head of
          None \<Rightarrow> Err (Malformed_Instruction head)
        | Some (verb, rest) \<Rightarrow>
            let (flags, args) = split_flags (trim rest) in
            Ok (instructions @
              [\<lparr>in_verb = map to_upper verb, in_args = args, in_json_args = parse_json_form J args,
                in_flags = flags, in_heredocs = heredocs, in_line = start_line\<rparr>]))"

record parse_state =
  ps_instructions :: "instruction list"
  ps_logical :: string
  ps_start :: nat
  ps_delims :: "string list"

text \<open>One physical line inside a heredoc: it is kept as it is, and the last pending delimiter ends
  the last pending document.\<close>

definition heredoc_line ::
  "(string \<Rightarrow> string list option) \<Rightarrow> string \<Rightarrow> parse_state \<Rightarrow> (dockerfile_error, parse_state) result" where
  "heredoc_line J raw st =
     (let logical = ps_logical st @ [CHR 0x0A] @ raw in
      if trim_end raw = last (ps_delims st) then
        (if butlast (ps_delims st) = [] then
           and_then (flush J logical (ps_start st) (ps_instructions st) True) (\<lambda>is.
             Ok (st\<lparr>ps_instructions := is, ps_logical := [], ps_delims := []\<rparr>))
         else Ok (st\<lparr>ps_logical := logical, ps_delims := butlast (ps_delims st)\<rparr>))
      else Ok (st\<lparr>ps_logical := logical\<rparr>))"

definition parse_line ::
  "(string \<Rightarrow> string list option) \<Rightarrow> nat \<times> string \<Rightarrow> parse_state \<Rightarrow> (dockerfile_error, parse_state) result" where
  "parse_line J numbered st =
     (case numbered of (line_no, raw) \<Rightarrow>
      let line = trim_end raw; trimmed = trim line in
      if ps_delims st \<noteq> [] then heredoc_line J raw st
      else if trimmed = [] \<or> starts_with ''#'' trimmed then Ok st
      else
        let start = (if ps_start st = 0 then line_no else ps_start st);
            logical = (if ps_start st = 0 then [] else ps_logical st) @ line in
        if ends_with [CHR 0x5C] (trim_end logical) then
          Ok (st\<lparr>ps_start := start, ps_logical := butlast logical @ '' ''\<rparr>)
        else if extract_heredoc_delims logical \<noteq> [] then
          Ok (st\<lparr>ps_start := start, ps_logical := logical, ps_delims := extract_heredoc_delims logical\<rparr>)
        else
          and_then (flush J logical start (ps_instructions st) False) (\<lambda>is.
            Ok (st\<lparr>ps_instructions := is, ps_logical := [], ps_start := 0\<rparr>)))"

fun parse_lines ::
  "(string \<Rightarrow> string list option) \<Rightarrow> (nat \<times> string) list \<Rightarrow> parse_state \<Rightarrow> (dockerfile_error, parse_state) result" where
  "parse_lines J [] st = Ok st"
| "parse_lines J (l # ls) st = and_then (parse_line J l st) (parse_lines J ls)"

definition check_shape :: "instruction list \<Rightarrow> (dockerfile_error, instruction list) result" where
  "check_shape instructions =
     (if instructions = [] then Err No_Instructions
      else if \<not> list_ex (\<lambda>i. in_verb i = ''FROM'') instructions then Err No_From
      else if list_ex (\<lambda>i. in_verb i \<noteq> ''ARG'') (takeWhile (\<lambda>i. in_verb i \<noteq> ''FROM'') instructions)
      then Err Not_Begin_With_From
      else Ok instructions)"

definition initial_parse :: parse_state where
  "initial_parse = \<lparr>ps_instructions = [], ps_logical = [], ps_start = 0, ps_delims = []\<rparr>"

definition parse_dockerfile ::
  "(string \<Rightarrow> string list option) \<Rightarrow> string \<Rightarrow> (dockerfile_error, instruction list) result" where
  "parse_dockerfile J content =
     and_then (parse_lines J (enumerate 1 (lines content)) initial_parse) (\<lambda>st.
     and_then (if trim (ps_logical st) \<noteq> [] \<and> ps_start st \<noteq> 0
               then flush J (ps_logical st) (ps_start st) (ps_instructions st) False
               else Ok (ps_instructions st)) check_shape)"

definition base_image :: "instruction list \<Rightarrow> string option" where
  "base_image is =
     map_option (\<lambda>i. case split_whitespace (in_args i) of [] \<Rightarrow> [] | w # _ \<Rightarrow> w) (find (\<lambda>i. in_verb i = ''FROM'') is)"

text \<open>The defaults of the arguments declared before the first stage.\<close>

definition is_global_arg :: "instruction list \<Rightarrow> nat \<Rightarrow> bool" where
  "is_global_arg is n = (n < length is \<and> list_all (\<lambda>i. in_verb i \<noteq> ''FROM'') (take (Suc n) is))"

definition arg_defaults :: "instruction list \<Rightarrow> (string \<times> string) list" where
  "arg_defaults is = concat (map (\<lambda>(n, i).
     if in_verb i = ''ARG'' \<and> in_line i = 0 then []
     else if in_verb i = ''ARG'' \<and> is_global_arg is n then
       (case split_once CHR ''='' (in_args i) of
          Some (k, v) \<Rightarrow> [(trim k, trim_end_char CHR 0x22 (trim_start_char CHR 0x22 (trim v)))]
        | None \<Rightarrow> [])
     else []) (enumerate 0 is))"

section \<open>Variables\<close>

definition is_alphabetic :: "char \<Rightarrow> bool" where
  "is_alphabetic c = (is_lower c \<or> is_upper c)"

definition name_rest_char :: "char \<Rightarrow> bool" where
  "name_rest_char c = (is_alphanumeric c \<or> c = CHR ''_'')"

text \<open>The value of a braced name, with its default if it has one.\<close>

definition braced_value :: "(string \<times> string) list \<Rightarrow> string \<Rightarrow> string" where
  "braced_value env name =
     (let (var, default) = (case split_once_str '':-'' name of Some (v, d) \<Rightarrow> (v, Some d) | None \<Rightarrow> (name, None)) in
      case map_of env var of
        Some v \<Rightarrow> v
      | None \<Rightarrow> (case default of Some d \<Rightarrow> d | None \<Rightarrow> []))"

definition plain_value :: "(string \<times> string) list \<Rightarrow> string \<Rightarrow> string" where
  "plain_value env name = (case map_of env name of Some v \<Rightarrow> v | None \<Rightarrow> [])"

function expand_vars :: "(string \<times> string) list \<Rightarrow> string \<Rightarrow> string" where
  "expand_vars env [] = []"
| "expand_vars env (c # s) =
     (if c = CHR ''$'' \<and> s \<noteq> [] then
        (if hd s = CHR ''{'' then
           (case split_once CHR ''}'' (tl s) of
              Some (name, rest) \<Rightarrow> braced_value env name @ expand_vars env rest
            | None \<Rightarrow> c # expand_vars env s)
         else if is_alphabetic (hd s) \<or> hd s = CHR ''_'' then
           plain_value env (takeWhile name_rest_char s) @ expand_vars env (dropWhile name_rest_char s)
         else c # expand_vars env s)
      else c # expand_vars env s)"
  by pat_completeness auto

termination
proof (relation "measure (length \<circ> snd)")
  fix env c s x name rest
  assume "c = CHR ''$'' \<and> s \<noteq> []" "split_once CHR ''}'' (tl s) = Some x" "(name, rest) = x"
  then have "tl s = name @ CHR ''}'' # rest" by (metis split_once_Some)
  then have "length rest < length (tl s)" by simp
  then show "((env, rest), (env, c # s)) \<in> measure (length \<circ> snd)" by simp
next
  fix env :: "(string \<times> string) list" and c s
  show "((env, dropWhile name_rest_char s), (env, c # s)) \<in> measure (length \<circ> snd)"
    using length_dropWhile_le [of name_rest_char s] by simp
qed simp_all

section \<open>Expansion is substitution\<close>

text \<open>Templates: literal text, variables in both notations, and a dollar sign that starts none.\<close>

datatype piece = Lit string | Dollar | Name string | Braced string "string option"

fun piece_text :: "piece \<Rightarrow> string" where
  "piece_text (Lit s) = s"
| "piece_text Dollar = ''$''"
| "piece_text (Name n) = CHR ''$'' # n"
| "piece_text (Braced n d) = ''${'' @ n @ (case d of None \<Rightarrow> [] | Some t \<Rightarrow> '':-'' @ t) @ ''}''"

fun piece_value :: "(string \<times> string) list \<Rightarrow> piece \<Rightarrow> string" where
  "piece_value env (Lit s) = s"
| "piece_value env Dollar = ''$''"
| "piece_value env (Name n) = (case map_of env n of Some v \<Rightarrow> v | None \<Rightarrow> [])"
| "piece_value env (Braced n d) =
     (case map_of env n of Some v \<Rightarrow> v | None \<Rightarrow> (case d of Some t \<Rightarrow> t | None \<Rightarrow> []))"

definition name_start_char :: "char \<Rightarrow> bool" where
  "name_start_char c = (is_alphabetic c \<or> c = CHR ''_'')"

fun piece_ok :: "piece \<Rightarrow> string \<Rightarrow> bool" where
  "piece_ok (Lit s) after = (CHR ''$'' \<notin> set s)"
| "piece_ok Dollar after = (after = [] \<or> hd after \<noteq> CHR ''{'' \<and> \<not> name_start_char (hd after))"
| "piece_ok (Name n) after =
     (n \<noteq> [] \<and> name_start_char (hd n) \<and> list_all name_rest_char n \<and> (after = [] \<or> \<not> name_rest_char (hd after)))"
| "piece_ok (Braced n d) after =
     (CHR '':'' \<notin> set n \<and> CHR ''}'' \<notin> set n \<and> (case d of None \<Rightarrow> True | Some t \<Rightarrow> CHR ''}'' \<notin> set t))"

fun template_text :: "piece list \<Rightarrow> string" where
  "template_text [] = []"
| "template_text (p # ps) = piece_text p @ template_text ps"

fun template_ok :: "piece list \<Rightarrow> bool" where
  "template_ok [] = True"
| "template_ok (p # ps) = (piece_ok p (template_text ps) \<and> template_ok ps)"

lemma split_once_str_absent: "c \<notin> set s \<Longrightarrow> split_once_str (c # p) s = None"
  by (induction s) auto

lemma braced_value_piece:
  assumes "CHR '':'' \<notin> set n"
  shows "braced_value env (n @ (case d of None \<Rightarrow> [] | Some t \<Rightarrow> '':-'' @ t)) = piece_value env (Braced n d)"
proof (cases d)
  case None
  then show ?thesis using split_once_str_absent [OF assms, of "''-''"] by (simp add: braced_value_def split: option.splits)
next
  case (Some t)
  then show ?thesis using split_once_str_head [OF assms, of "''-''" t] by (simp add: braced_value_def split: option.splits)
qed

lemma expand_literal: "CHR ''$'' \<notin> set s \<Longrightarrow> expand_vars env (s @ t) = s @ expand_vars env t"
  by (induction s) auto

lemma expand_piece:
  assumes "piece_ok p after"
  shows "expand_vars env (piece_text p @ after) = piece_value env p @ expand_vars env after"
proof (cases p)
  case (Lit s)
  then show ?thesis using assms by (simp add: expand_literal)
next
  case Dollar
  then show ?thesis using assms by (cases after) (auto simp: name_start_char_def)
next
  case (Name n)
  then obtain c n' where n: "n = c # n'" using assms by (cases n) auto
  have "takeWhile name_rest_char (n @ after) = n" "dropWhile name_rest_char (n @ after) = after"
    using assms Name by (cases after; auto simp: list_all_iff takeWhile_append dropWhile_append)+
  moreover have "c \<noteq> CHR ''{''" using assms Name n by (auto simp: list_all_iff name_rest_char_def is_alphanumeric_def is_digit_def is_lower_def is_upper_def)
  ultimately show ?thesis using assms Name n by (simp add: name_start_char_def plain_value_def)
next
  case (Braced n d)
  let ?n = "n @ (case d of None \<Rightarrow> [] | Some t \<Rightarrow> '':-'' @ t)"
  have "split_once CHR ''}'' (?n @ ''}'' @ after) = Some (?n, after)"
    using assms Braced by (auto simp: split_once_Some split: option.splits)
  then show ?thesis using assms Braced braced_value_piece [of n env d] by simp
qed

text \<open>Claim C23: Expanding a template yields its pieces with every variable replaced by the value of its first
  binding, by its default, or by nothing; values are inserted as they are and not expanded again.\<close>

theorem expansion_substitutes:
  assumes "template_ok ps"
  shows "expand_vars env (template_text ps) = concat (map (piece_value env) ps)"
  using assms by (induction ps) (simp_all add: expand_piece)

theorem expansion_substitutes_witness:
  "expand_vars [(''A'', ''$B''), (''B'', ''2'')] ''x$A-${B}${C:-d}$'' = ''x$B-2d$''"
proof -
  let ?ps = "[Lit ''x'', Name ''A'', Lit ''-'', Braced ''B'' None, Braced ''C'' (Some ''d''), Dollar]"
  have "template_ok ?ps" by code_simp
  from expansion_substitutes [OF this, of "[(''A'', ''$B''), (''B'', ''2'')]"]
  show ?thesis by simp
qed

section \<open>Printing and reading back\<close>

definition print_flag :: "string \<times> string \<Rightarrow> string" where
  "print_flag f = ''--'' @ fst f @ ''='' @ snd f"

fun print_flags :: "(string \<times> string) list \<Rightarrow> string" where
  "print_flags [] = []"
| "print_flags (f # fs) = print_flag f @ '' '' @ print_flags fs"

definition print_head :: "instruction \<Rightarrow> string" where
  "print_head i = in_verb i @ '' '' @ print_flags (in_flags i) @ in_args i"

text \<open>An instruction takes its own line and, for a heredoc, the lines of the document and the
  delimiter its head names.\<close>

definition body_lines :: "instruction \<Rightarrow> string list" where
  "body_lines i =
     (case in_heredocs i of
        [] \<Rightarrow> []
      | h # _ \<Rightarrow> split_on (CHR 0x0A) (hd_content h) @ [hd (extract_heredoc_delims (print_head i))])"

definition print_instruction :: "instruction \<Rightarrow> string list" where
  "print_instruction i = print_head i # body_lines i"

definition print_dockerfile :: "instruction list \<Rightarrow> string" where
  "print_dockerfile is = join_with [CHR 0x0A] (concat (map print_instruction is))"

definition tight :: "string \<Rightarrow> bool" where
  "tight s = (s \<noteq> [] \<and> \<not> is_ws (hd s) \<and> \<not> is_ws (last s))"

definition flag_ok :: "string \<times> string \<Rightarrow> bool" where
  "flag_ok f = (no_ws (fst f) \<and> no_ws (snd f) \<and> CHR ''='' \<notin> set (fst f))"

definition heredocs_ok :: "instruction \<Rightarrow> bool" where
  "heredocs_ok i =
     (case extract_heredoc_delims (print_head i) of
        [] \<Rightarrow> in_heredocs i = []
      | [d] \<Rightarrow> tight d \<and> (case in_heredocs i of
            [h] \<Rightarrow> hd_target h = [] \<and>
              list_all (\<lambda>l. trim_end l \<noteq> d \<and> strip_cr l = l) (split_on (CHR 0x0A) (hd_content h))
          | _ \<Rightarrow> False)
      | _ \<Rightarrow> False)"

definition instruction_ok :: "(string \<Rightarrow> string list option) \<Rightarrow> instruction \<Rightarrow> bool" where
  "instruction_ok J i =
     (in_verb i \<noteq> [] \<and> no_ws (in_verb i) \<and> map to_upper (in_verb i) = in_verb i \<and> hd (in_verb i) \<noteq> CHR ''#''
      \<and> tight (in_args i) \<and> CHR 0x0A \<notin> set (in_args i) \<and> last (in_args i) \<noteq> CHR 0x5C
      \<and> \<not> starts_with ''--'' (in_args i)
      \<and> list_all flag_ok (in_flags i) \<and> in_json_args i = parse_json_form J (in_args i) \<and> heredocs_ok i)"

text \<open>Line numbers as the reader assigns them. It does not reset the start of the instruction at the
  end of a heredoc, so that the instruction after one gets the line of the heredoc.\<close>

fun number_from :: "nat \<Rightarrow> nat \<Rightarrow> instruction list \<Rightarrow> instruction list" where
  "number_from carried n [] = []"
| "number_from carried n (i # is) =
     (let start = (if carried = 0 then n else carried) in
      i\<lparr>in_line := start\<rparr>
      # number_from (if in_heredocs i = [] then 0 else start) (n + length (print_instruction i)) is)"

lemma space_is_ws [simp]: "is_ws CHR '' ''"
  by (simp add: is_ws_def)

lemma tight_trim [simp]: "tight s \<Longrightarrow> trim s = s" "tight s \<Longrightarrow> trim_end s = s"
proof -
  have e: "trim_end t = t" if "t \<noteq> []" "\<not> is_ws (last t)" for t
    using that by (cases t rule: rev_cases) (simp_all add: trim_end_def)
  assume s: "tight s"
  then show "trim_end s = s" by (simp add: tight_def e)
  from s have "trim_start s = s" by (cases s) (simp_all add: tight_def trim_start_def)
  with s show "trim s = s" by (simp add: trim_def tight_def e)
qed

lemma trim_space: "tight s \<Longrightarrow> trim (CHR '' '' # s) = s"
  using tight_trim(1) [of s] by (simp add: trim_def trim_start_def is_ws_def)

lemma tight_append: "tight s \<Longrightarrow> t \<noteq> [] \<Longrightarrow> \<not> is_ws (hd t) \<Longrightarrow> tight (t @ s)"
  by (simp add: tight_def)

lemma tight_no_cr: "tight s \<Longrightarrow> strip_cr s = s"
proof -
  assume s: "tight s"
  then have "last s \<noteq> CHR 0x0D" by (auto simp: tight_def is_ws_def)
  then have "strip_suffix [CHR 0x0D] s = None" by (auto simp: strip_suffix_Some simp del: not_None_eq intro: ccontr)
  then show ?thesis by (simp add: strip_cr_def)
qed

lemma lines_join:
  assumes "ls \<noteq> []" "\<forall>l \<in> set ls. CHR 0x0A \<notin> set l \<and> strip_cr l = l" "last ls \<noteq> []"
  shows "lines (join_with [CHR 0x0A] ls) = ls"
proof -
  have "map strip_cr (butlast ls) = butlast ls"
    using assms(2) by (intro map_idI) (auto dest: in_set_butlastD)
  with assms show ?thesis by (simp add: lines_def Let_def split_on_join)
qed

lemma no_ws_iff: "no_ws s \<longleftrightarrow> (\<forall>c \<in> set s. \<not> is_ws c)"
  by (simp add: no_ws_def list_all_iff)

lemma until_ws:
  assumes "no_ws s"
  shows "takeWhile (\<lambda>c. \<not> is_ws c) (s @ CHR '' '' # t) = s" "dropWhile (\<lambda>c. \<not> is_ws c) (s @ CHR '' '' # t) = CHR '' '' # t"
  using assms by (simp_all add: no_ws_iff takeWhile_append dropWhile_append is_ws_def)

lemma print_flag_facts:
  assumes "flag_ok f"
  shows "no_ws (print_flag f)" "flag_of (print_flag f) = f" "print_flag f \<noteq> []" "hd (print_flag f) = CHR ''-''"
proof -
  have "split_once CHR ''='' (fst f @ CHR ''='' # snd f) = Some (fst f, snd f)"
    by (rule split_once_Some [THEN iffD2]) (use assms in \<open>simp add: flag_ok_def\<close>)
  then show "flag_of (print_flag f) = f" by (simp add: flag_of_def print_flag_def)
qed (use assms in \<open>auto simp: print_flag_def flag_ok_def no_ws_iff is_ws_def\<close>)

lemma tight_flags:
  assumes "list_all flag_ok fs" "tight a"
  shows "tight (print_flags fs @ a)"
proof (cases fs)
  case (Cons f gs)
  then have "hd (print_flag f @ CHR '' '' # print_flags gs) = CHR ''-''" using assms by (simp add: print_flag_facts)
  then show ?thesis using assms Cons tight_append [of a "print_flag f @ CHR '' '' # print_flags gs"] by (simp add: is_ws_def)
qed (use assms in simp)

lemma split_flags_print:
  assumes "list_all flag_ok fs" "tight a" "\<not> starts_with ''--'' a"
  shows "split_flags_loop acc (print_flags fs @ a) = (acc @ fs, a)"
  using assms(1)
proof (induction fs arbitrary: acc)
  case Nil
  then show ?case using assms by (subst split_flags_loop.simps) simp
next
  case (Cons f fs)
  let ?r = "print_flags fs @ a"
  have f: "flag_ok f" and fs: "list_all flag_ok fs" using Cons.prems by simp_all
  have "starts_with ''--'' (print_flag f @ CHR '' '' # ?r)" by (simp add: starts_with_iff print_flag_def)
  moreover have "\<not> list_all (\<lambda>c. \<not> is_ws c) (print_flag f @ CHR '' '' # ?r)" by simp
  ultimately have "split_flags_loop acc (print_flag f @ CHR '' '' # ?r) = split_flags_loop (acc @ [f]) ?r"
    by (subst split_flags_loop.simps)
      (simp add: until_ws print_flag_facts [OF f] trim_space tight_flags [OF fs assms(2)])
  then show ?case using Cons.IH [OF fs] by simp
qed

lemma split_head:
  assumes "instruction_ok J i"
  shows "split_once_ws (print_head i) = Some (in_verb i, print_flags (in_flags i) @ in_args i)"
    and "split_flags (trim (print_flags (in_flags i) @ in_args i)) = (in_flags i, in_args i)"
    and "tight (print_head i)"
proof -
  have t: "tight (print_flags (in_flags i) @ in_args i)" using assms by (simp add: instruction_ok_def tight_flags)
  show "split_once_ws (print_head i) = Some (in_verb i, print_flags (in_flags i) @ in_args i)"
    using assms by (simp add: split_once_ws_def print_head_def until_ws instruction_ok_def)
  show "split_flags (trim (print_flags (in_flags i) @ in_args i)) = (in_flags i, in_args i)"
    using assms t split_flags_print [of "in_flags i" "in_args i" "[]"] by (simp add: split_flags_def instruction_ok_def)
  show "tight (print_head i)"
    using assms t tight_append [OF t, of "in_verb i @ '' ''"]
    by (simp add: print_head_def instruction_ok_def no_ws_iff tight_def)
qed

lemma join_with_Cons: "join_with [c] (l # ls) = l @ concat (map (\<lambda>x. c # x) ls)"
  by (induction ls arbitrary: l) simp_all

lemma join_with_snoc: "join_with [c] (ls @ [l]) = (if ls = [] then l else join_with [c] ls @ c # l)"
  by (cases ls) (simp_all add: join_with_Cons)

lemma parse_lines_append: "parse_lines J (a @ b) st = and_then (parse_lines J a st) (parse_lines J b)"
  by (induction a arbitrary: st) (simp_all add: and_then_def split: sum.splits)

lemma instruction_line: "i\<lparr>in_line := n\<rparr> = \<lparr>in_verb = in_verb i, in_args = in_args i, in_json_args = in_json_args i,
    in_flags = in_flags i, in_heredocs = in_heredocs i, in_line = n\<rparr>"
  by (cases i) simp

lemma flush_head:
  assumes "instruction_ok J i" "in_heredocs i = []"
  shows "flush J (print_head i) start is False = Ok (is @ [i\<lparr>in_line := start\<rparr>])"
proof -
  have t: "tight (print_head i)" by (rule split_head(3) [OF assms(1)])
  then show ?thesis
    using assms split_head [OF assms(1)] by (simp add: flush_def tight_def instruction_ok_def instruction_line Let_def)
qed

lemma heredoc_parts:
  assumes "instruction_ok J i" "in_heredocs i \<noteq> []"
  obtains d h where "extract_heredoc_delims (print_head i) = [d]" "tight d" "in_heredocs i = [h]" "hd_target h = []"
    "list_all (\<lambda>l. trim_end l \<noteq> d \<and> strip_cr l = l) (split_on (CHR 0x0A) (hd_content h))"
    "body_lines i = split_on (CHR 0x0A) (hd_content h) @ [d]"
  using assms by (auto simp: instruction_ok_def heredocs_ok_def body_lines_def split: list.splits)

lemma extract_delims_chars: "d \<in> set (extract_heredoc_delims s) \<Longrightarrow> set d \<subseteq> set s"
proof (induction s rule: extract_heredoc_delims.induct)
  case 1
  then show ?case by simp
next
  case (2 c s)
  have a: "set (fst (delim_at r)) \<subseteq> set r \<and> set (snd (delim_at r)) \<subseteq> set r" for r
    by (auto simp: delim_at_def Let_def dest: set_takeWhileD set_dropWhileD split: list.splits prod.splits if_splits)
  have tl: "set (tl s) \<subseteq> set s" by (cases s) auto
  show ?case
  proof (cases "c = CHR ''<'' \<and> s \<noteq> [] \<and> hd s = CHR ''<''")
    case True
    obtain e r where er: "delim_at (tl s) = (e, r)" by fastforce
    then have "set e \<subseteq> set s" "set r \<subseteq> set s" using a [of "tl s"] tl by auto
    moreover have "set d \<subseteq> set r" if "d \<in> set (extract_heredoc_delims r)"
      using 2(1,2) [OF True] er that by (cases "e = []") auto
    ultimately show ?thesis using 2(4) True er by (auto split: if_splits)
  next
    case False
    then show ?thesis using 2(3,4) by auto
  qed
qed

lemma head_no_newline:
  assumes "instruction_ok J i"
  shows "CHR 0x0A \<notin> set (print_head i)"
proof -
  have w: "CHR 0x0A \<notin> set s" if "no_ws s" for s using that by (auto simp: no_ws_iff is_ws_def)
  have "CHR 0x0A \<notin> set (print_flags fs)" if "list_all flag_ok fs" for fs
    using that by (induction fs) (auto dest!: w [OF print_flag_facts(1)])
  then show ?thesis using assms w [of "in_verb i"] by (simp add: print_head_def instruction_ok_def)
qed

lemma printed_lines_ok:
  assumes "instruction_ok J i" "l \<in> set (print_instruction i)"
  shows "CHR 0x0A \<notin> set l \<and> strip_cr l = l"
proof (cases "l = print_head i")
  case True
  then show ?thesis using assms split_head(3) head_no_newline tight_no_cr by auto
next
  case False
  then have l: "l \<in> set (body_lines i)" using assms by (simp add: print_instruction_def)
  then have "in_heredocs i \<noteq> []" by (auto simp: body_lines_def)
  then obtain d h where h: "extract_heredoc_delims (print_head i) = [d]" "tight d" "in_heredocs i = [h]" "hd_target h = []"
    "list_all (\<lambda>l. trim_end l \<noteq> d \<and> strip_cr l = l) (split_on (CHR 0x0A) (hd_content h))"
    "body_lines i = split_on (CHR 0x0A) (hd_content h) @ [d]" by (rule heredoc_parts [OF assms(1)])
  have "CHR 0x0A \<notin> set d" using h(1) extract_delims_chars [of d "print_head i"] head_no_newline [OF assms(1)] by auto
  then show ?thesis using l h tight_no_cr split_on_no_sep [of l "CHR 0x0A"] by (auto simp: list_all_iff)
qed

lemma print_last: "instruction_ok J i \<Longrightarrow> print_instruction i \<noteq> [] \<and> tight (last (print_instruction i))"
proof (cases "in_heredocs i = []")
  case True
  assume "instruction_ok J i"
  then show ?thesis using True by (simp add: print_instruction_def body_lines_def split_head(3))
next
  case False
  assume "instruction_ok J i"
  then obtain d h where "extract_heredoc_delims (print_head i) = [d]" "tight d" "in_heredocs i = [h]" "hd_target h = []"
    "list_all (\<lambda>l. trim_end l \<noteq> d \<and> strip_cr l = l) (split_on (CHR 0x0A) (hd_content h))"
    "body_lines i = split_on (CHR 0x0A) (hd_content h) @ [d]" by (rule heredoc_parts [OF _ False])
  then show ?thesis by (simp add: print_instruction_def)
qed

lemma flush_heredoc:
  assumes "instruction_ok J i" "in_heredocs i \<noteq> []"
  shows "flush J (join_with [CHR 0x0A] (print_instruction i)) start is True = Ok (is @ [i\<lparr>in_line := start\<rparr>])"
proof -
  let ?t = "join_with [CHR 0x0A] (print_instruction i)"
  obtain d h where h: "extract_heredoc_delims (print_head i) = [d]" "tight d" "in_heredocs i = [h]" "hd_target h = []"
    "list_all (\<lambda>l. trim_end l \<noteq> d \<and> strip_cr l = l) (split_on (CHR 0x0A) (hd_content h))"
    "body_lines i = split_on (CHR 0x0A) (hd_content h) @ [d]" by (rule heredoc_parts [OF assms])
  have "tight (print_head i)" by (rule split_head(3) [OF assms(1)])
  moreover have "?t = print_head i @ concat (map (\<lambda>x. CHR 0x0A # x) (split_on (CHR 0x0A) (hd_content h))) @ CHR 0x0A # d"
    by (simp add: print_instruction_def join_with_Cons h(6))
  ultimately have t: "tight ?t" using h(2) by (simp add: tight_def)
  have l: "lines ?t = print_instruction i"
    using print_last [OF assms(1)] printed_lines_ok [OF assms(1)] by (intro lines_join) (auto simp: tight_def)
  have nd: "\<forall>l \<in> set (split_on (CHR 0x0A) (hd_content h)). trim_end l \<noteq> d" using h(5) by (simp add: list_all_iff)
  have "takeWhile (\<lambda>l. trim_end l \<noteq> d) (split_on (CHR 0x0A) (hd_content h) @ [d]) = split_on (CHR 0x0A) (hd_content h)"
    using nd h(2) by (simp add: takeWhile_append)
  then have s: "split_heredocs ?t = (print_head i, in_heredocs i)"
    using l h by (simp add: split_heredocs_def print_instruction_def join_split_on)
  show ?thesis
    using t assms(1) s split_head [OF assms(1)] by (simp add: flush_def tight_def instruction_ok_def instruction_line Let_def)
qed

lemma enumerate_Cons: "enumerate n (x # xs) = (n, x) # enumerate (Suc n) xs"
  by (simp add: enumerate_simps)

lemma head_not_skipped:
  assumes "instruction_ok J i"
  shows "\<not> starts_with ''#'' (print_head i)" "\<not> ends_with [CHR 0x5C] (print_head i)"
  using assms by (auto simp: instruction_ok_def print_head_def tight_def starts_with_iff ends_with_iff append_eq_Cons_conv
      dest: arg_cong [where f = last])

lemma parse_head:
  assumes "instruction_ok J i" "ps_logical st = []" "ps_delims st = []" "0 < n"
  shows "parse_line J (n, print_head i) st =
    (if in_heredocs i = [] then Ok (st\<lparr>ps_instructions := ps_instructions st @ [i\<lparr>in_line := if ps_start st = 0 then n else ps_start st\<rparr>], ps_start := 0\<rparr>)
     else Ok (st\<lparr>ps_start := if ps_start st = 0 then n else ps_start st, ps_logical := print_head i,
                ps_delims := extract_heredoc_delims (print_head i)\<rparr>))"
proof -
  have t: "trim_end (print_head i) = print_head i" "trim (print_head i) = print_head i" "print_head i \<noteq> []"
    using split_head(3) [OF assms(1)] by (simp_all add: tight_def)
  have d: "extract_heredoc_delims (print_head i) = [] \<longleftrightarrow> in_heredocs i = []"
    using assms(1) by (auto simp: instruction_ok_def heredocs_ok_def split: list.splits)
  show ?thesis
    using assms t d head_not_skipped [OF assms(1)] flush_head [OF assms(1)] by (cases st) (simp add: parse_line_def Let_def)
qed

lemma parse_body:
  assumes "ps_delims st = [d]" "\<forall>l \<in> set ls. trim_end l \<noteq> d"
  shows "parse_lines J (enumerate n ls) st = Ok (st\<lparr>ps_logical := ps_logical st @ concat (map (\<lambda>x. CHR 0x0A # x) ls)\<rparr>)"
  using assms by (induction ls arbitrary: n st) (simp_all add: enumerate_Cons parse_line_def heredoc_line_def Let_def)

lemma parse_instruction:
  assumes "instruction_ok J i" "ps_logical st = []" "ps_delims st = []" "0 < n"
  shows "parse_lines J (enumerate n (print_instruction i)) st =
     Ok (let start = (if ps_start st = 0 then n else ps_start st) in
         st\<lparr>ps_instructions := ps_instructions st @ [i\<lparr>in_line := start\<rparr>], ps_start := if in_heredocs i = [] then 0 else start\<rparr>)"
proof (cases "in_heredocs i = []")
  case True
  then show ?thesis using parse_head [OF assms] by (simp add: print_instruction_def body_lines_def enumerate_Cons)
next
  case False
  obtain d h where h: "extract_heredoc_delims (print_head i) = [d]" "tight d" "in_heredocs i = [h]" "hd_target h = []"
    "list_all (\<lambda>l. trim_end l \<noteq> d \<and> strip_cr l = l) (split_on (CHR 0x0A) (hd_content h))"
    "body_lines i = split_on (CHR 0x0A) (hd_content h) @ [d]" by (rule heredoc_parts [OF assms(1) False])
  let ?b = "split_on (CHR 0x0A) (hd_content h)" and ?s = "if ps_start st = 0 then n else ps_start st"
  let ?st = "st\<lparr>ps_start := ?s, ps_logical := print_head i, ps_delims := [d]\<rparr>"
  have j: "print_head i @ concat (map (\<lambda>x. CHR 0x0A # x) ?b) @ CHR 0x0A # d = join_with [CHR 0x0A] (print_instruction i)"
    by (simp add: print_instruction_def h(6) join_with_Cons)
  have b: "parse_lines J (enumerate (Suc n) ?b) ?st = Ok (?st\<lparr>ps_logical := print_head i @ concat (map (\<lambda>x. CHR 0x0A # x) ?b)\<rparr>)"
    using parse_body [of ?st d ?b J "Suc n"] h(5) by (simp add: list_all_iff)
  show ?thesis
    using parse_head [OF assms] False b h(1,2,6) flush_heredoc [OF assms(1) False] j assms(2,3)
    by (simp add: print_instruction_def enumerate_Cons enumerate_append_eq parse_lines_append parse_line_def heredoc_line_def Let_def)
qed

lemma parse_printed:
  assumes "\<forall>i \<in> set is. instruction_ok J i" "ps_logical st = []" "ps_delims st = []" "0 < n"
  shows "\<exists>s. parse_lines J (enumerate n (concat (map print_instruction is))) st =
     Ok (st\<lparr>ps_instructions := ps_instructions st @ number_from (ps_start st) n is, ps_start := s\<rparr>)"
  using assms
proof (induction "is" arbitrary: st n)
  case Nil
  then show ?case by (intro exI [of _ "ps_start st"]) (cases st; simp)
next
  case (Cons i "is")
  let ?s = "if ps_start st = 0 then n else ps_start st"
  let ?st = "st\<lparr>ps_instructions := ps_instructions st @ [i\<lparr>in_line := ?s\<rparr>], ps_start := if in_heredocs i = [] then 0 else ?s\<rparr>"
  have p: "parse_lines J (enumerate n (print_instruction i)) st = Ok ?st"
    using parse_instruction [of J i st n] Cons.prems by (simp add: Let_def)
  show ?case
    using Cons.IH [of ?st "n + length (print_instruction i)"] Cons.prems p
    by (simp add: enumerate_append_eq parse_lines_append Let_def)
qed

lemma number_from_verbs: "map in_verb (number_from s n is) = map in_verb is"
  by (induction "is" arbitrary: s n) (simp_all add: Let_def)

lemma check_shape_verbs:
  assumes "map in_verb is = map in_verb js" "check_shape js = Ok js"
  shows "check_shape is = Ok is"
proof -
  have e: "list_ex (\<lambda>i. P (in_verb i)) xs = list_ex P (map in_verb xs)" for P xs by (induction xs) auto
  have t: "map in_verb (takeWhile (\<lambda>i. P (in_verb i)) xs) = takeWhile P (map in_verb xs)" for P xs
    by (induction xs) auto
  have a: "list_ex (\<lambda>i. in_verb i \<noteq> ''ARG'') (takeWhile (\<lambda>i. in_verb i \<noteq> ''FROM'') xs)
      \<longleftrightarrow> list_ex (\<lambda>v. v \<noteq> ''ARG'') (takeWhile (\<lambda>v. v \<noteq> ''FROM'') (map in_verb xs))" for xs
    using e [of "\<lambda>v. v \<noteq> ''ARG''"] t [of "\<lambda>v. v \<noteq> ''FROM''" xs] by metis
  have "list_ex (\<lambda>i. in_verb i \<noteq> ''ARG'') (takeWhile (\<lambda>i. in_verb i \<noteq> ''FROM'') is)
      \<longleftrightarrow> list_ex (\<lambda>i. in_verb i \<noteq> ''ARG'') (takeWhile (\<lambda>i. in_verb i \<noteq> ''FROM'') js)" unfolding a assms(1) ..
  moreover have "list_ex (\<lambda>i. in_verb i = ''FROM'') is \<longleftrightarrow> list_ex (\<lambda>i. in_verb i = ''FROM'') js"
    unfolding e [of "\<lambda>v. v = ''FROM''"] assms(1) ..
  moreover have "is = [] \<longleftrightarrow> js = []" using assms(1) by (metis map_is_Nil_conv)
  ultimately show ?thesis using assms(2) unfolding check_shape_def by (simp split: if_splits)
qed


text \<open>A file with a flag, a heredoc and an instruction after it.\<close>

definition sample_file :: "instruction list" where
  "sample_file =
     (let i = \<lparr>in_verb = ''FROM'', in_args = ''alpine'', in_json_args = None, in_flags = [], in_heredocs = [], in_line = 1\<rparr> in
      [i, i\<lparr>in_verb := ''RUN'', in_args := ''cat <<EOF'', in_flags := [(''mount'', ''type=secret'')],
            in_heredocs := [\<lparr>hd_target = [], hd_content = ''a'' @ [CHR 0x0A] @ ''b''\<rparr>], in_line := 2\<rparr>,
       i\<lparr>in_verb := ''CMD'', in_args := ''x y'', in_line := 2\<rparr>])"


section \<open>What an accepted file looks like\<close>

definition numbered :: "nat \<Rightarrow> parse_state \<Rightarrow> bool" where
  "numbered n st \<longleftrightarrow>
     sorted (map in_line (ps_instructions st)) \<and> ps_start st \<le> n \<and>
     (\<forall>i \<in> set (ps_instructions st). 1 \<le> in_line i \<and> in_line i \<le> n \<and> (ps_start st \<noteq> 0 \<longrightarrow> in_line i \<le> ps_start st)
        \<and> map to_upper (in_verb i) = in_verb i)"

lemma to_upper_idem [simp]: "to_upper (to_upper c) = to_upper c"
proof (cases "is_lower c")
  case True
  then have "(of_char c :: nat) - 32 < 256" unfolding is_lower_def by linarith
  then have "(of_char (to_upper c) :: nat) = of_char c - 32" using True by (simp add: to_upper_def)
  then have "\<not> is_lower (to_upper c)" using True unfolding is_lower_def by linarith
  then show ?thesis by (simp add: to_upper_def)
qed (simp add: to_upper_def)

lemma flush_cases:
  assumes "flush J logical start is h = Ok is'"
  shows "is' = is \<or> (\<exists>i. is' = is @ [i] \<and> in_line i = start \<and> map to_upper (in_verb i) = in_verb i)"
  using assms by (auto simp: flush_def Let_def split: if_splits option.splits prod.splits)

lemma numbered_flush:
  assumes "numbered n st" "flush J logical start (ps_instructions st) h = Ok is'" "n \<le> m" "1 \<le> start" "start \<le> m"
    "ps_start st \<noteq> 0 \<Longrightarrow> start = ps_start st" "ps_start st = 0 \<Longrightarrow> n \<le> start"
  shows "numbered m (st\<lparr>ps_instructions := is', ps_start := start\<rparr>)" "numbered m (st\<lparr>ps_instructions := is', ps_start := 0\<rparr>)"
  using flush_cases [OF assms(2)] assms(1,3-7) unfolding numbered_def
  by (cases "ps_start st = 0"; force simp: sorted_append)+

lemma numbered_more: "numbered n st \<Longrightarrow> numbered n (st\<lparr>ps_logical := l, ps_delims := d\<rparr>)"
  by (simp add: numbered_def)

lemma numbered_parse_line:
  assumes "numbered n st" "parse_line J (Suc n, raw) st = Ok st'" "ps_delims st \<noteq> [] \<longrightarrow> ps_start st \<noteq> 0"
  shows "numbered (Suc n) st' \<and> (ps_delims st' \<noteq> [] \<longrightarrow> ps_start st' \<noteq> 0)"
proof (cases "ps_delims st \<noteq> []")
  case True
  have s: "ps_start st \<noteq> 0" "ps_start st \<le> n" using True assms by (auto simp: numbered_def)
  have n: "numbered (Suc n) st" using assms(1) by (auto simp: numbered_def)
  show ?thesis
  proof (cases "\<exists>l is'. flush J l (ps_start st) (ps_instructions st) True = Ok is'
      \<and> st' = st\<lparr>ps_instructions := is', ps_logical := [], ps_delims := []\<rparr>")
    case True
    then obtain l is' where f: "flush J l (ps_start st) (ps_instructions st) True = Ok is'"
      "st' = st\<lparr>ps_instructions := is', ps_logical := [], ps_delims := []\<rparr>" by blast
    have "numbered (Suc n) (st\<lparr>ps_instructions := is', ps_start := ps_start st\<rparr>)"
      using s by (intro numbered_flush(1) [OF assms(1) f(1)]) auto
    then show ?thesis by (simp add: f(2) numbered_def)
  next
    case False
    then show ?thesis using True assms(2) n s
      by (auto simp: parse_line_def heredoc_line_def Let_def and_then_Ok numbered_def split: if_splits)
  qed
next
  case False
  let ?s = "if ps_start st = 0 then Suc n else ps_start st"
  have n: "numbered (Suc n) st" "numbered (Suc n) (st\<lparr>ps_start := ?s\<rparr>)" "1 \<le> ?s" "?s \<le> Suc n"
    using assms(1) by (auto simp: numbered_def)
  have f: "numbered (Suc n) (st\<lparr>ps_instructions := is', ps_start := 0\<rparr>)"
    if "flush J l ?s (ps_instructions st) h = Ok is'" for l h is'
    using n by (intro numbered_flush(2) [OF assms(1) that]) auto
  show ?thesis
    using assms(2) False n f
    by (auto simp: parse_line_def Let_def and_then_Ok numbered_def split: if_splits)
qed

lemma numbered_parse_lines:
  assumes "parse_lines J (enumerate (Suc n) ls) st = Ok st'" "numbered n st" "ps_delims st \<noteq> [] \<longrightarrow> ps_start st \<noteq> 0"
  shows "numbered (n + length ls) st'"
  using assms
proof (induction ls arbitrary: n st)
  case Nil
  then show ?case by simp
next
  case (Cons l ls)
  then obtain st1 where "parse_line J (Suc n, l) st = Ok st1" "parse_lines J (enumerate (Suc (Suc n)) ls) st1 = Ok st'"
    by (auto simp: enumerate_Cons and_then_Ok)
  then show ?case using numbered_parse_line [of n st J l st1] Cons.IH [of "Suc n" st1] Cons.prems by simp
qed

text \<open>Claim C22: Every accepted file has at least one instruction; global arguments alone stand before the
  first \<open>FROM\<close>; verbs are in upper case, and line numbers are lines of the file in ascending
  order.\<close>

theorem accepted_dockerfile:
  assumes "parse_dockerfile J content = Ok is"
  shows "(\<exists>globals i rest. is = globals @ i # rest \<and> in_verb i = ''FROM'' \<and> list_all (\<lambda>g. in_verb g = ''ARG'') globals)
       \<and> sorted (map in_line is)
       \<and> list_all (\<lambda>i. map to_upper (in_verb i) = in_verb i \<and> 1 \<le> in_line i \<and> in_line i \<le> length (lines content)) is"
proof -
  obtain st is' where p: "parse_lines J (enumerate 1 (lines content)) initial_parse = Ok st" "check_shape is' = Ok is"
      and f: "is' = ps_instructions st \<or> ps_start st \<noteq> 0 \<and> flush J (ps_logical st) (ps_start st) (ps_instructions st) False = Ok is'"
    using assms by (auto simp: parse_dockerfile_def and_then_Ok split: if_splits)
  have st: "numbered (length (lines content)) st"
    using numbered_parse_lines [of J 0 "lines content" initial_parse st] p(1) by (simp add: initial_parse_def numbered_def)
  have "numbered (length (lines content)) (st\<lparr>ps_instructions := is', ps_start := ps_start st\<rparr>)"
    using f
  proof
    assume "is' = ps_instructions st"
    then show ?thesis using st by (simp add: numbered_def)
  next
    assume "ps_start st \<noteq> 0 \<and> flush J (ps_logical st) (ps_start st) (ps_instructions st) False = Ok is'"
    then show ?thesis using st by (intro numbered_flush(1) [OF st]) (auto simp: numbered_def)
  qed
  moreover have i: "is' = is" "list_ex (\<lambda>i. in_verb i = ''FROM'') is"
      "\<not> list_ex (\<lambda>i. in_verb i \<noteq> ''ARG'') (takeWhile (\<lambda>i. in_verb i \<noteq> ''FROM'') is)"
    using p(2) by (auto simp: check_shape_def split: if_splits)
  moreover have "\<exists>globals i rest. is = globals @ i # rest \<and> in_verb i = ''FROM'' \<and> list_all (\<lambda>g. in_verb g = ''ARG'') globals"
  proof -
    have "dropWhile (\<lambda>i. in_verb i \<noteq> ''FROM'') is \<noteq> []" using i(2) by (auto simp: list_ex_iff)
    then obtain i rest where d: "dropWhile (\<lambda>i. in_verb i \<noteq> ''FROM'') is = i # rest" by (meson neq_Nil_conv)
    then have "in_verb i = ''FROM''" using hd_dropWhile [of "\<lambda>i. in_verb i \<noteq> ''FROM''" "is"] by simp
    then show ?thesis
      using takeWhile_dropWhile_id [of "\<lambda>i. in_verb i \<noteq> ''FROM''" "is"] i(3) d
      by (intro exI [of _ "takeWhile (\<lambda>i. in_verb i \<noteq> ''FROM'') is"] exI [of _ i] exI [of _ rest]) (simp add: list_all_iff list_ex_iff)
  qed
  ultimately show ?thesis by (simp add: numbered_def list_all_iff)
qed

theorem accepted_dockerfile_witness:
  "\<exists>globals i rest. sample_file = globals @ i # rest \<and> in_verb i = ''FROM'' \<and> list_all (\<lambda>g. in_verb g = ''ARG'') globals"
proof -
  have "parse_dockerfile (\<lambda>_. None) (print_dockerfile sample_file) = Ok sample_file" by code_simp
  from accepted_dockerfile [OF this] show ?thesis by blast
qed

section \<open>Heredocs the reader loses\<close>

text \<open>The reader waits for the delimiters of a line in reverse order. The documents of two heredocs
  come in order, so the first delimiter is waited for after it has passed, and the rest of the file
  becomes part of the instruction: here the \<open>CMD\<close> is lost.\<close>

lemma second_heredoc_swallows_file:
  "parse_dockerfile J (join_with [CHR 0x0A] [''FROM a'', ''RUN cat <<A <<B'', ''1'', ''A'', ''2'', ''B'', ''CMD x'']) =
     Ok [\<lparr>in_verb = ''FROM'', in_args = ''a'', in_json_args = None, in_flags = [], in_heredocs = [], in_line = 1\<rparr>,
         \<lparr>in_verb = ''RUN'', in_args = join_with [CHR 0x0A] [''cat <<A <<B'', ''1'', ''A'', ''2'', ''B'', ''CMD x''],
          in_json_args = None, in_flags = [], in_heredocs = [], in_line = 2\<rparr>]"
  by code_simp

text \<open>A heredoc with a dash may be ended by an indented delimiter; the reader does not strip the tab.\<close>

lemma dash_heredoc_not_ended:
  "map_sum id (map in_verb)
     (parse_dockerfile J (join_with [CHR 0x0A] [''FROM a'', ''RUN cat <<-EOF'', ''1'', CHR 0x09 # ''EOF'', ''CMD x''])) =
   Ok [''FROM'', ''RUN'']"
  by code_simp

end
