(* ===== verification/Image_Store.thy ===== *)
theory Image_Store
  imports Image_Ref Api_Types Net_Addr
begin

text \<open>
  The image store (\<open>crates/image/src/store.rs\<close>): one record per image, the index from tags to
  images, the unpacked layers and the compressed blobs, and a cache of the listing. Writes of
  records and of the index may fail; which ones do is a parameter. The theory shows that the tags
  embedded in the records and the index agree in every state the store can reach when its writes
  succeed, that removing an image collects exactly the layers and blobs no other image needs, and
  that chain identifiers separate layer chains.
\<close>

section \<open>Records\<close>

record history_entry =
  hi_created :: string
  hi_created_by :: string
  hi_created_for :: "string option"
  hi_author :: "string option"
  hi_comment :: "string option"
  hi_empty_layer :: "bool option"

record image_record =
  im_id :: string
  im_manifest_digest :: string
  im_repo_tags :: "string list"
  im_repo_digests :: "string list"
  im_created :: string
  im_created_unix :: int
  im_architecture :: string
  im_os :: string
  im_author :: string
  im_comment :: string
  im_docker_version :: string
  im_diff_ids :: "string list"
  im_layer_blobs :: "string list"
  im_size :: int
  im_config :: container_config
  im_history :: "history_entry list"
  im_chain_ids :: "string list"

text \<open>The chain identifier of a layer over its parent; the hash function is a parameter.\<close>

definition chain_id :: "(string \<Rightarrow> string) \<Rightarrow> string option \<Rightarrow> string \<Rightarrow> string" where
  "chain_id sha parent diff_id =
     (case parent of None \<Rightarrow> diff_id | Some p \<Rightarrow> ''sha256:'' @ sha (p @ '' '' @ diff_id))"

fun chain_ids_from :: "(string \<Rightarrow> string) \<Rightarrow> string option \<Rightarrow> string list \<Rightarrow> string list" where
  "chain_ids_from sha parent [] = []"
| "chain_ids_from sha parent (d # ds) =
     (let c = chain_id sha parent d in c # chain_ids_from sha (Some c) ds)"

definition compute_chain_ids :: "(string \<Rightarrow> string) \<Rightarrow> string list \<Rightarrow> string list" where
  "compute_chain_ids sha diff_ids = chain_ids_from sha None diff_ids"

section \<open>The store\<close>

text \<open>Layer directories and blob files are kept by their names below \<open>layers\<close> and \<open>blobs/sha256\<close>. The
  cache is \<open>Some\<close> while the listing in it has not been invalidated.\<close>

record image_store =
  st_records :: "(string, image_record) assoc"
  st_tags :: "(string, string) assoc"
  st_saved_tags :: "(string, string) assoc"
  st_layers :: "string list"
  st_blobs :: "string list"
  st_cache :: "image_record list option"

datatype store_error = Write_Failed string | No_Such_Image string | Bad_Reference ref_error

text \<open>The outcome of writes: of the record of an image, and of the index.\<close>

record store_io =
  io_record :: "string \<Rightarrow> bool"
  io_tags :: bool

definition blob_name :: "string \<Rightarrow> string" where
  "blob_name digest = (case strip_prefix ''sha256:'' digest of Some h \<Rightarrow> h | None \<Rightarrow> digest)"

definition layer_name :: "string \<Rightarrow> string" where
  "layer_name diff_id = trim_start_matches ''sha256:'' diff_id"

definition load_image :: "string \<Rightarrow> image_store \<Rightarrow> image_record option" where
  "load_image i s = assoc_get (st_records s) i"

definition write_record :: "store_io \<Rightarrow> image_record \<Rightarrow> image_store \<Rightarrow> (store_error, unit) result \<times> image_store" where
  "write_record io r s =
     (if io_record io (im_id r) then (Ok (), s\<lparr>st_records := assoc_put (st_records s) (im_id r) r\<rparr>)
      else (Err (Write_Failed (im_id r)), s))"

definition save_tags :: "store_io \<Rightarrow> image_store \<Rightarrow> (store_error, unit) result \<times> image_store" where
  "save_tags io s =
     (if io_tags io then (Ok (), s\<lparr>st_saved_tags := st_tags s\<rparr>) else (Err (Write_Failed ''tags''), s))"

definition invalidate_list :: "image_store \<Rightarrow> image_store" where
  "invalidate_list s = s\<lparr>st_cache := None\<rparr>"

text \<open>The holder of a tag that another record takes loses its embedded copy.\<close>

definition evict_tag :: "store_io \<Rightarrow> string \<Rightarrow> string \<Rightarrow> image_store \<Rightarrow> (store_error, unit) result \<times> image_store" where
  "evict_tag io i t s =
     (case assoc_get (st_tags s) t of
        None \<Rightarrow> (Ok (), s)
      | Some prev \<Rightarrow>
          if prev = i then (Ok (), s)
          else (case load_image prev s of
                  None \<Rightarrow> (Ok (), s)
                | Some old \<Rightarrow>
                    if t \<in> set (im_repo_tags old)
                    then write_record io (old\<lparr>im_repo_tags := filter (\<lambda>x. x \<noteq> t) (im_repo_tags old)\<rparr>) s
                    else (Ok (), s)))"

fun evict_tags :: "store_io \<Rightarrow> string \<Rightarrow> string list \<Rightarrow> image_store \<Rightarrow> (store_error, unit) result \<times> image_store" where
  "evict_tags io i [] s = (Ok (), s)"
| "evict_tags io i (t # ts) s =
     (case evict_tag io i t s of (Err e, s') \<Rightarrow> (Err e, s') | (Ok _, s') \<Rightarrow> evict_tags io i ts s')"

definition index_tags :: "string \<Rightarrow> string list \<Rightarrow> image_store \<Rightarrow> image_store" where
  "index_tags i ts s = s\<lparr>st_tags := fold (\<lambda>t m. assoc_put m t i) ts (st_tags s)\<rparr>"

definition put_image :: "store_io \<Rightarrow> image_record \<Rightarrow> image_store \<Rightarrow> (store_error, unit) result \<times> image_store" where
  "put_image io r s =
     (case write_record io r s of
        (Err e, s1) \<Rightarrow> (Err e, s1)
      | (Ok _, s1) \<Rightarrow>
         (case evict_tags io (im_id r) (im_repo_tags r) s1 of
            (Err e, s2) \<Rightarrow> (Err e, s2)
          | (Ok _, s2) \<Rightarrow>
             (case save_tags io (index_tags (im_id r) (im_repo_tags r) s2) of
                (Err e, s3) \<Rightarrow> (Err e, s3)
              | (Ok _, s3) \<Rightarrow> (Ok (), invalidate_list s3))))"

definition union_list :: "string list \<Rightarrow> string list \<Rightarrow> string list" where
  "union_list xs ys = fold (\<lambda>y acc. if y \<in> set acc then acc else acc @ [y]) ys xs"

definition merge_record :: "image_record \<Rightarrow> image_record option \<Rightarrow> image_record" where
  "merge_record r existing =
     (case existing of
        None \<Rightarrow> r
      | Some e \<Rightarrow>
          r\<lparr>im_repo_tags := union_list (im_repo_tags r) (im_repo_tags e),
            im_repo_digests := union_list (im_repo_digests r) (im_repo_digests e),
            im_manifest_digest := (if im_manifest_digest r = [] then im_manifest_digest e else im_manifest_digest r)\<rparr>)"

definition put_image_merged :: "store_io \<Rightarrow> image_record \<Rightarrow> image_store \<Rightarrow> (store_error, unit) result \<times> image_store" where
  "put_image_merged io r s = put_image io (merge_record r (load_image (im_id r) s)) s"

definition tag_image :: "store_io \<Rightarrow> string \<Rightarrow> string \<Rightarrow> image_store \<Rightarrow> (store_error, unit) result \<times> image_store" where
  "tag_image io i key s =
     (case load_image i s of
        None \<Rightarrow> (Err (No_Such_Image i), s)
      | Some r \<Rightarrow>
          if key \<in> set (im_repo_tags r) then (Ok (), s)
          else put_image io (r\<lparr>im_repo_tags := im_repo_tags r @ [key]\<rparr>) s)"

section \<open>Listing and resolution\<close>

definition list_uncached :: "image_store \<Rightarrow> image_record list" where
  "list_uncached s = map snd (st_records s)"

text \<open>The cached listing is used for a second; \<open>fresh\<close> says that it is not older.\<close>

definition list_images :: "bool \<Rightarrow> image_store \<Rightarrow> image_record list \<times> image_store" where
  "list_images fresh s =
     (case st_cache s of
        Some l \<Rightarrow> if fresh then (l, s) else (list_uncached s, s\<lparr>st_cache := Some (list_uncached s)\<rparr>)
      | None \<Rightarrow> (list_uncached s, s\<lparr>st_cache := Some (list_uncached s)\<rparr>))"

definition effective_tags :: "image_store \<Rightarrow> image_record \<Rightarrow> string list" where
  "effective_tags s r = filter (\<lambda>t. assoc_get (st_tags s) t = Some (im_id r)) (im_repo_tags r)"

definition list_effective :: "bool \<Rightarrow> image_store \<Rightarrow> image_record list \<times> image_store" where
  "list_effective fresh s =
     (case list_images fresh s of (l, s') \<Rightarrow> (map (\<lambda>r. r\<lparr>im_repo_tags := effective_tags s r\<rparr>) l, s'))"

definition find_by_prefix :: "string \<Rightarrow> image_store \<Rightarrow> string option" where
  "find_by_prefix p s = find (starts_with p) (assoc_keys (st_records s))"

definition resolve_by_id :: "string \<Rightarrow> image_store \<Rightarrow> string option" where
  "resolve_by_id name s =
     (if starts_with ''sha256:'' name \<or> list_all is_hex name then
        let hex = trim_start_matches ''sha256:'' name in
        if 12 \<le> length hex then
          (if length hex = 64 then (if load_image hex s \<noteq> None then Some hex else None) else find_by_prefix hex s)
        else None
      else None)"

definition resolve_tag_key :: "string \<Rightarrow> string" where
  "resolve_tag_key name =
     (case rsplit_once CHR '':'' name of
        Some (r, t) \<Rightarrow> if CHR ''/'' \<notin> set t then r @ '':'' @ t else name @ '':latest''
      | None \<Rightarrow> name @ '':latest'')"

definition resolve_digest :: "image_ref \<Rightarrow> string \<Rightarrow> image_record list \<Rightarrow> string option" where
  "resolve_digest probe pinned l =
     map_option im_id (find (\<lambda>r. display_ref_no_tag probe @ ''@'' @ pinned \<in> set (im_repo_digests r)) l)"

definition resolve_image :: "bool \<Rightarrow> string \<Rightarrow> image_store \<Rightarrow> (store_error, string) result \<times> image_store" where
  "resolve_image fresh name s =
     (let by_tag = (ok_or (No_Such_Image name) (assoc_get (st_tags s) (resolve_tag_key name)), s) in
      case resolve_by_id name s of
        Some i \<Rightarrow> (Ok i, s)
      | None \<Rightarrow>
          if CHR ''@'' \<in> set name then
            (case image_ref_parse name of
               Inl e \<Rightarrow> (Err (Bad_Reference e), s)
             | Inr probe \<Rightarrow>
                (case ir_digest probe of
                   Some pinned \<Rightarrow>
                     (case list_images fresh s of (l, s') \<Rightarrow>
                        (ok_or (No_Such_Image name) (resolve_digest probe pinned l), s'))
                 | None \<Rightarrow> by_tag))
          else by_tag)"

section \<open>Removal\<close>

text \<open>What a record referenced and no remaining record references is deleted; files that are already
  gone are no error.\<close>

definition collect_unused :: "image_record \<Rightarrow> image_store \<Rightarrow> image_store" where
  "collect_unused r s =
     (let remaining = list_uncached s;
          dead_layers = filter (\<lambda>d. \<not> list_ex (\<lambda>q. d \<in> set (im_diff_ids q)) remaining) (im_diff_ids r);
          dead_blobs = filter (\<lambda>b. \<not> list_ex (\<lambda>q. b \<in> set (im_layer_blobs q)) remaining) (im_layer_blobs r)
      in s\<lparr>st_layers := filter (\<lambda>n. n \<notin> layer_name ` set dead_layers) (st_layers s),
           st_blobs := filter (\<lambda>n. n \<notin> blob_name ` set dead_blobs) (st_blobs s)\<rparr>)"

definition delete_record :: "store_io \<Rightarrow> image_record \<Rightarrow> image_store \<Rightarrow> (store_error, unit) result \<times> image_store" where
  "delete_record io r s =
     (case save_tags io s of
        (Err e, s1) \<Rightarrow> (Err e, s1)
      | (Ok _, s1) \<Rightarrow>
          let s2 = collect_unused r (s1\<lparr>st_records := assoc_del (st_records s1) (im_id r)\<rparr>);
              s3 = s2\<lparr>st_blobs := filter (\<lambda>n. n \<noteq> blob_name (im_id r)) (st_blobs s2)\<rparr>
          in (Ok (), invalidate_list s3))"

definition drop_index :: "string \<Rightarrow> string \<Rightarrow> image_store \<Rightarrow> image_store" where
  "drop_index i t s =
     (if assoc_get (st_tags s) t = Some i then s\<lparr>st_tags := assoc_del (st_tags s) t\<rparr> else s)"

definition untag_image :: "store_io \<Rightarrow> image_record \<Rightarrow> string \<Rightarrow> image_store \<Rightarrow> (store_error, image_record) result \<times> image_store" where
  "untag_image io record t s =
     (let r = record\<lparr>im_repo_tags := filter (\<lambda>x. x \<noteq> t) (im_repo_tags record)\<rparr>;
          s1 = drop_index (im_id record) t s in
      if im_repo_tags r = [] then
        (case delete_record io r s1 of (Err e, s2) \<Rightarrow> (Err e, s2) | (Ok _, s2) \<Rightarrow> (Ok r, invalidate_list s2))
      else
        (case write_record io r s1 of
           (Err e, s2) \<Rightarrow> (Err e, s2)
         | (Ok _, s2) \<Rightarrow>
             (case save_tags io s2 of (Err e, s3) \<Rightarrow> (Err e, s3) | (Ok _, s3) \<Rightarrow> (Ok r, invalidate_list s3))))"

definition remove_image :: "store_io \<Rightarrow> string \<Rightarrow> string option \<Rightarrow> image_store \<Rightarrow> (store_error, image_record) result \<times> image_store" where
  "remove_image io i untag s =
     (case load_image i s of
        None \<Rightarrow> (Err (No_Such_Image i), s)
      | Some record \<Rightarrow>
          (case untag of
             Some t \<Rightarrow> untag_image io record t s
           | None \<Rightarrow>
              (case delete_record io record (fold (drop_index (im_id record)) (im_repo_tags record) s) of
                 (Err e, s2) \<Rightarrow> (Err e, s2)
               | (Ok _, s2) \<Rightarrow> (Ok record, invalidate_list s2))))"

definition gc_replaced_layers :: "image_record \<Rightarrow> image_store \<Rightarrow> image_store" where
  "gc_replaced_layers old s = collect_unused old s"

section \<open>Tags and index agree\<close>

definition writes_succeed :: "store_io \<Rightarrow> bool" where
  "writes_succeed io \<longleftrightarrow> (\<forall>i. io_record io i) \<and> io_tags io"

definition tags_of :: "image_store \<Rightarrow> string \<Rightarrow> string set" where
  "tags_of s i = (case load_image i s of Some r \<Rightarrow> set (im_repo_tags r) | None \<Rightarrow> {})"

definition ids_match :: "image_store \<Rightarrow> bool" where
  "ids_match s \<longleftrightarrow> (\<forall>i r. load_image i s = Some r \<longrightarrow> im_id r = i)"

definition store_ok :: "image_store \<Rightarrow> bool" where
  "store_ok s \<longleftrightarrow>
     assoc_wf (st_records s) \<and> ids_match s
     \<and> (\<forall>t i. assoc_get (st_tags s) t = Some i \<longleftrightarrow> t \<in> tags_of s i)
     \<and> st_saved_tags s = st_tags s
     \<and> (st_cache s = None \<or> st_cache s = Some (list_uncached s))"

lemma load_write [simp]:
  "load_image i (s\<lparr>st_records := assoc_put (st_records s) j r\<rparr>) = (if i = j then Some r else load_image i s)"
  by (simp add: load_image_def)

lemma load_frame [simp]:
  "load_image i (s\<lparr>st_tags := t\<rparr>) = load_image i s" "load_image i (s\<lparr>st_saved_tags := t\<rparr>) = load_image i s"
  "load_image i (s\<lparr>st_cache := c\<rparr>) = load_image i s" "load_image i (s\<lparr>st_layers := l\<rparr>) = load_image i s"
  "load_image i (s\<lparr>st_blobs := b\<rparr>) = load_image i s" "load_image i (s\<lparr>st_records := assoc_del (st_records s) j\<rparr>) = (if i = j then None else load_image i s)"
  by (simp_all add: load_image_def)

lemma write_record_succeeds:
  "writes_succeed io \<Longrightarrow> write_record io r s = (Ok (), s\<lparr>st_records := assoc_put (st_records s) (im_id r) r\<rparr>)"
  by (simp add: write_record_def writes_succeed_def)

text \<open>What eviction leaves of the tags of another record.\<close>

definition without_moved :: "image_store \<Rightarrow> string \<Rightarrow> string list \<Rightarrow> image_record \<Rightarrow> image_record" where
  "without_moved s i ts q =
     q\<lparr>im_repo_tags := filter (\<lambda>x. \<not> (x \<in> set ts \<and> assoc_get (st_tags s) x = Some i)) (im_repo_tags q)\<rparr>"

lemma retag_cong:
  assumes "\<And>x. x \<in> set (im_repo_tags q) \<Longrightarrow> P x \<longleftrightarrow> Q x"
  shows "q\<lparr>im_repo_tags := filter P (im_repo_tags q)\<rparr> = q\<lparr>im_repo_tags := filter Q (im_repo_tags q)\<rparr>"
  using filter_cong [OF refl assms, of "im_repo_tags q"] by simp

lemma evict_tag_effect:
  assumes "writes_succeed io" "ids_match s" "assoc_wf (st_records s)" "evict_tag io i t s = (res, s')"
  shows "res = Ok () \<and> st_tags s' = st_tags s \<and> assoc_wf (st_records s') \<and>
         (\<forall>j. load_image j s' = (if j = i then load_image j s else map_option (without_moved s j [t]) (load_image j s)))"
proof -
  have same: "without_moved s j [t] q = q" if "assoc_get (st_tags s) t = Some j \<Longrightarrow> t \<notin> set (im_repo_tags q)" for j q
    using that unfolding without_moved_def by (cases q) (auto simp: filter_id_conv)
  have moved: "without_moved s j [t] q = q\<lparr>im_repo_tags := filter (\<lambda>x. x \<noteq> t) (im_repo_tags q)\<rparr>"
    if "assoc_get (st_tags s) t = Some j" for j q
    using that unfolding without_moved_def by (cases q) (auto intro: filter_cong)
  show ?thesis
  proof (cases "\<exists>prev old. assoc_get (st_tags s) t = Some prev \<and> prev \<noteq> i \<and> load_image prev s = Some old \<and> t \<in> set (im_repo_tags old)")
    case True
    then obtain prev old where p: "assoc_get (st_tags s) t = Some prev" "prev \<noteq> i" "load_image prev s = Some old" "t \<in> set (im_repo_tags old)"
      by blast
    have "im_id old = prev" using assms(2) p(3) by (simp add: ids_match_def)
    then show ?thesis
      using assms(3,4) p moved [OF p(1), of old] same
      by (auto simp: evict_tag_def write_record_succeeds [OF assms(1)] option.map_id map_option_case split: option.splits)
  next
    case False
    then have "res = Ok () \<and> s' = s" using assms(4) by (auto simp: evict_tag_def split: option.splits if_splits)
    moreover have "map_option (without_moved s j [t]) (load_image j s) = load_image j s" if "j \<noteq> i" for j
      using False that by (cases "load_image j s") (auto intro!: same)
    ultimately show ?thesis using assms(3) by simp
  qed
qed

lemma ids_match_evicted:
  assumes "ids_match s" "\<And>j. load_image j s' = (if j = i then load_image j s else map_option (without_moved s0 j ts) (load_image j s))"
  shows "ids_match s'"
  using assms by (auto simp: ids_match_def without_moved_def)

lemma evict_tags_effect:
  assumes "writes_succeed io" "ids_match s" "assoc_wf (st_records s)" "evict_tags io i ts s = (res, s')"
  shows "res = Ok () \<and> st_tags s' = st_tags s \<and> assoc_wf (st_records s') \<and>
         (\<forall>j. load_image j s' = (if j = i then load_image j s else map_option (without_moved s j ts) (load_image j s)))"
  using assms(2-4)
proof (induction ts arbitrary: s)
  case Nil
  have "map_option (without_moved s j []) (load_image j s) = load_image j s" for j
    by (cases "load_image j s") (auto simp: without_moved_def)
  then show ?case using Nil by auto
next
  case (Cons t ts)
  obtain r1 s1 where e: "evict_tag io i t s = (r1, s1)" by fastforce
  note f = evict_tag_effect [OF assms(1) Cons.prems(1,2) e]
  have m: "ids_match s1" by (rule ids_match_evicted [OF Cons.prems(1)]) (use f in blast)
  have "evict_tags io i ts s1 = (res, s')" using Cons.prems(3) e f by simp
  note g = Cons.IH [OF m _ this]
  have "without_moved s1 j ts (without_moved s j [t] q) = without_moved s j (t # ts) q" for j q
    using f by (auto simp: without_moved_def intro: retag_cong)
  then have "map_option (without_moved s1 j ts) (map_option (without_moved s j [t]) x) = map_option (without_moved s j (t # ts)) x" for j x
    by (cases x) simp_all
  then show ?case using f g by auto
qed

lemma fold_assoc_put: "assoc_get (fold (\<lambda>t m. assoc_put m t i) ts m) t = (if t \<in> set ts then Some i else assoc_get m t)"
  by (induction ts arbitrary: m) auto

text \<open>The effect of storing a record, when the tags embedded in the records before agree with the
  index: the record is stored, its tags move to it, and every other record loses them.\<close>

lemma put_image_effect:
  assumes "writes_succeed io" "store_ok s" "put_image io r s = (res, s')"
  shows "res = Ok () \<and> assoc_wf (st_records s') \<and> st_saved_tags s' = st_tags s' \<and> st_cache s' = None
    \<and> (\<forall>t. assoc_get (st_tags s') t = (if t \<in> set (im_repo_tags r) then Some (im_id r) else assoc_get (st_tags s) t))
    \<and> (\<forall>j. load_image j s' = (if j = im_id r then Some r
          else map_option (\<lambda>q. q\<lparr>im_repo_tags := filter (\<lambda>x. x \<notin> set (im_repo_tags r)) (im_repo_tags q)\<rparr>) (load_image j s)))"
proof -
  let ?s1 = "s\<lparr>st_records := assoc_put (st_records s) (im_id r) r\<rparr>"
  obtain r2 s2 where e: "evict_tags io (im_id r) (im_repo_tags r) ?s1 = (r2, s2)" by fastforce
  have ok: "assoc_wf (st_records s)" "ids_match s" "\<And>t i. assoc_get (st_tags s) t = Some i \<longleftrightarrow> t \<in> tags_of s i"
    using assms(2) by (auto simp: store_ok_def)
  have m: "ids_match ?s1" using ok(2) by (auto simp: ids_match_def)
  note f = evict_tags_effect [OF assms(1) m _ e]
  have w: "without_moved ?s1 j (im_repo_tags r) q = q\<lparr>im_repo_tags := filter (\<lambda>x. x \<notin> set (im_repo_tags r)) (im_repo_tags q)\<rparr>"
    if "load_image j s = Some q" for j q
  proof -
    have "assoc_get (st_tags s) x = Some j" if "x \<in> set (im_repo_tags q)" for x
      using ok(3) [of x j] that \<open>load_image j s = Some q\<close> by (simp add: tags_of_def)
    then show ?thesis unfolding without_moved_def by (intro retag_cong) simp
  qed
  have "load_image j s2 = (if j = im_id r then Some r
          else map_option (\<lambda>q. q\<lparr>im_repo_tags := filter (\<lambda>x. x \<notin> set (im_repo_tags r)) (im_repo_tags q)\<rparr>) (load_image j s))" for j
    using f ok(1) w by (cases "load_image j s") auto
  then show ?thesis
    using assms(1,3) e f ok(1)
    by (auto simp: put_image_def write_record_succeeds [OF assms(1)] save_tags_def writes_succeed_def index_tags_def
        invalidate_list_def fold_assoc_put)
qed

lemma tags_of_load: "load_image i s = Some r \<Longrightarrow> tags_of s i = set (im_repo_tags r)"
  by (simp add: tags_of_def)

lemma tag_held_once: "store_ok s \<Longrightarrow> t \<in> tags_of s i \<Longrightarrow> t \<in> tags_of s j \<Longrightarrow> i = j"
  unfolding store_ok_def by (metis option.inject)

lemma put_image_ok:
  assumes "writes_succeed io" "store_ok s" "tags_of s (im_id r) \<subseteq> set (im_repo_tags r)"
  shows "store_ok (snd (put_image io r s))"
proof -
  obtain res s' where p: "put_image io r s = (res, s')" by fastforce
  note f = put_image_effect [OF assms(1,2) p]
  have ok: "ids_match s" "\<And>t i. assoc_get (st_tags s) t = Some i \<longleftrightarrow> t \<in> tags_of s i"
    using assms(2) by (auto simp: store_ok_def)
  have t: "tags_of s' j = (if j = im_id r then set (im_repo_tags r) else tags_of s j - set (im_repo_tags r))" for j
    using f by (auto simp: tags_of_def split: option.splits)
  have "assoc_get (st_tags s') t = Some i \<longleftrightarrow> t \<in> tags_of s' i" for t i
    using f t ok(2) [of t i] assms(3) by auto
  moreover have "ids_match s'" using f ok(1) by (auto simp: ids_match_def)
  ultimately show ?thesis using f p by (simp add: store_ok_def)
qed

lemma set_union_list: "set (union_list xs ys) = set xs \<union> set ys"
proof -
  have "set (fold (\<lambda>y acc. if y \<in> set acc then acc else acc @ [y]) ys acc) = set acc \<union> set ys" for acc
    by (induction ys arbitrary: acc) auto
  then show ?thesis by (simp add: union_list_def)
qed

lemma merge_record_id [simp]: "im_id (merge_record r e) = im_id r"
  by (simp add: merge_record_def split: option.splits)

lemma merge_record_tags:
  "set (im_repo_tags (merge_record r (load_image (im_id r) s))) = set (im_repo_tags r) \<union> tags_of s (im_id r)"
  by (simp add: merge_record_def tags_of_def set_union_list split: option.splits)

lemma put_image_merged_ok: "writes_succeed io \<Longrightarrow> store_ok s \<Longrightarrow> store_ok (snd (put_image_merged io r s))"
  unfolding put_image_merged_def by (intro put_image_ok) (simp_all add: merge_record_tags)

lemma tag_image_ok:
  assumes "writes_succeed io" "store_ok s"
  shows "store_ok (snd (tag_image io i key s))"
proof (cases "load_image i s")
  case (Some r)
  then have "im_id r = i" using assms(2) by (auto simp: store_ok_def ids_match_def)
  then show ?thesis
    using assms Some put_image_ok [OF assms, of "r\<lparr>im_repo_tags := im_repo_tags r @ [key]\<rparr>"]
    by (auto simp: tag_image_def tags_of_load)
qed (use assms in \<open>simp add: tag_image_def\<close>)

lemma tag_image_effect:
  assumes "writes_succeed io" "store_ok s" "load_image i s \<noteq> None"
  shows "fst (tag_image io i key s) = Ok ()"
    and "assoc_get (st_tags (snd (tag_image io i key s))) t = (if t = key then Some i else assoc_get (st_tags s) t)"
    and "load_image j (snd (tag_image io i key s)) \<noteq> None \<longleftrightarrow> load_image j s \<noteq> None"
proof -
  obtain r where r: "load_image i s = Some r" using assms(3) by blast
  have i: "im_id r = i" and ix: "\<And>t i. assoc_get (st_tags s) t = Some i \<longleftrightarrow> t \<in> tags_of s i"
    using assms(2) r by (auto simp: store_ok_def ids_match_def)
  have "fst (tag_image io i key s) = Ok ()
    \<and> assoc_get (st_tags (snd (tag_image io i key s))) t = (if t = key then Some i else assoc_get (st_tags s) t)
    \<and> (load_image j (snd (tag_image io i key s)) \<noteq> None \<longleftrightarrow> load_image j s \<noteq> None)"
  proof (cases "key \<in> set (im_repo_tags r)")
    case True
    then show ?thesis using r ix [of key i] by (simp add: tag_image_def tags_of_load)
  next
    case False
    let ?r = "r\<lparr>im_repo_tags := im_repo_tags r @ [key]\<rparr>"
    obtain res s' where p: "put_image io ?r s = (res, s')" by fastforce
    have "assoc_get (st_tags s) x = Some i" if "x \<in> set (im_repo_tags r)" for x using ix [of x i] r that by (simp add: tags_of_load)
    then show ?thesis using r False p i put_image_effect [OF assms(1,2) p] by (auto simp: tag_image_def)
  qed
  then show "fst (tag_image io i key s) = Ok ()"
    "assoc_get (st_tags (snd (tag_image io i key s))) t = (if t = key then Some i else assoc_get (st_tags s) t)"
    "load_image j (snd (tag_image io i key s)) \<noteq> None \<longleftrightarrow> load_image j s \<noteq> None" by blast+
qed

lemma drop_index_frame [simp]:
  "st_records (drop_index i t s) = st_records s" "st_layers (drop_index i t s) = st_layers s"
  "st_blobs (drop_index i t s) = st_blobs s" "st_cache (drop_index i t s) = st_cache s" "load_image j (drop_index i t s) = load_image j s"
  by (simp_all add: drop_index_def load_image_def)

lemma fold_drop_index:
  "st_records (fold (drop_index i) ts s) = st_records s" "st_layers (fold (drop_index i) ts s) = st_layers s"
  "st_blobs (fold (drop_index i) ts s) = st_blobs s"
  "assoc_get (st_tags (fold (drop_index i) ts s)) t = (if t \<in> set ts \<and> assoc_get (st_tags s) t = Some i then None else assoc_get (st_tags s) t)"
  by (induction ts arbitrary: s) (auto simp: drop_index_def)

lemma delete_record_effect:
  assumes "io_tags io" "delete_record io r s = (res, s')"
  shows "res = Ok () \<and> st_tags s' = st_tags s \<and> st_saved_tags s' = st_tags s \<and> st_cache s' = None
     \<and> st_records s' = assoc_del (st_records s) (im_id r)"
  using assms by (auto simp: delete_record_def save_tags_def Let_def collect_unused_def invalidate_list_def)

lemma removed_ok:
  assumes "store_ok s" "st_records s' = assoc_del (st_records s) i" "st_saved_tags s' = st_tags s'" "st_cache s' = None"
    and "\<And>t. assoc_get (st_tags s') t = (if assoc_get (st_tags s) t = Some i then None else assoc_get (st_tags s) t)"
  shows "store_ok s'"
proof -
  have l: "load_image j s' = (if j = i then None else load_image j s)" for j by (simp add: load_image_def assms(2))
  then have "tags_of s' j = (if j = i then {} else tags_of s j)" for j by (simp add: tags_of_def)
  then have "assoc_get (st_tags s') t = Some j \<longleftrightarrow> t \<in> tags_of s' j" for t j
    using assms(1,5) tag_held_once [OF assms(1), of t i j] by (auto simp: store_ok_def)
  then show ?thesis using assms l by (auto simp: store_ok_def ids_match_def)
qed

lemma remove_image_ok:
  assumes "writes_succeed io" "store_ok s"
  shows "store_ok (snd (remove_image io i untag s))"
proof (cases "load_image i s")
  case None
  then show ?thesis using assms by (simp add: remove_image_def)
next
  case (Some r)
  have i: "im_id r = i" and ix: "\<And>t i. assoc_get (st_tags s) t = Some i \<longleftrightarrow> t \<in> tags_of s i" and w: "io_tags io"
    using assms Some by (auto simp: store_ok_def ids_match_def writes_succeed_def)
  have t: "tags_of s i = set (im_repo_tags r)" using Some by (simp add: tags_of_load)
  show ?thesis
  proof (cases untag)
    case None
    let ?s = "fold (drop_index i) (im_repo_tags r) s"
    obtain res s' where d: "delete_record io r ?s = (res, s')" by fastforce
    note f = delete_record_effect [OF w d]
    have "store_ok (invalidate_list s')"
      using f i ix t by (intro removed_ok [OF assms(2), of _ i]) (auto simp: invalidate_list_def fold_drop_index)
    then show ?thesis using None Some d f i by (simp add: remove_image_def)
  next
    case u: (Some key)
    let ?r = "r\<lparr>im_repo_tags := filter (\<lambda>x. x \<noteq> key) (im_repo_tags r)\<rparr>" and ?s = "drop_index i key s"
    have g: "assoc_get (st_tags ?s) x = (if x = key \<and> assoc_get (st_tags s) x = Some i then None else assoc_get (st_tags s) x)" for x
      by (auto simp: drop_index_def)
    show ?thesis
    proof (cases "filter (\<lambda>x. x \<noteq> key) (im_repo_tags r) = []")
      case True
      obtain res s' where d: "delete_record io ?r ?s = (res, s')" by fastforce
      note f = delete_record_effect [OF w d]
      have "set (im_repo_tags r) \<subseteq> {key}" using True by (auto simp: filter_empty_conv)
      then have "store_ok (invalidate_list s')"
        using f i ix t g by (intro removed_ok [OF assms(2), of _ i]) (auto simp: invalidate_list_def)
      then show ?thesis using u Some d f i True by (simp add: remove_image_def untag_image_def Let_def)
    next
      case False
      let ?s' = "?s\<lparr>st_records := assoc_put (st_records s) i ?r, st_saved_tags := st_tags ?s, st_cache := None\<rparr>"
      have l: "load_image j ?s' = (if j = i then Some ?r else load_image j s)" for j by (simp add: load_image_def)
      then have "tags_of ?s' j = (if j = i then tags_of s i - {key} else tags_of s j)" for j using t by (auto simp: tags_of_def)
      then have "assoc_get (st_tags ?s') x = Some j \<longleftrightarrow> x \<in> tags_of ?s' j" for x j
        using g [of x] ix tag_held_once [OF assms(2), of x i j] by auto
      then have "store_ok ?s'" using assms(2) l i by (auto simp: store_ok_def ids_match_def)
      then show ?thesis
        using u Some False i w
        by (simp add: remove_image_def untag_image_def Let_def write_record_succeeds [OF assms(1)] save_tags_def invalidate_list_def)
    qed
  qed
qed

section \<open>Operations in any order\<close>

datatype store_op =
  Op_Put image_record | Op_Tag string string | Op_Remove string "string option"
| Op_List bool | Op_Resolve bool string | Op_Gc image_record

fun run_op :: "store_io \<Rightarrow> store_op \<Rightarrow> image_store \<Rightarrow> image_store" where
  "run_op io (Op_Put r) s = snd (put_image_merged io r s)"
| "run_op io (Op_Tag i t) s = snd (tag_image io i t s)"
| "run_op io (Op_Remove i untag) s = snd (remove_image io i untag s)"
| "run_op io (Op_List fresh) s = snd (list_effective fresh s)"
| "run_op io (Op_Resolve fresh name) s = snd (resolve_image fresh name s)"
| "run_op io (Op_Gc old) s = gc_replaced_layers old s"

definition empty_store :: image_store where
  "empty_store = \<lparr>st_records = [], st_tags = [], st_saved_tags = [], st_layers = [], st_blobs = [], st_cache = None\<rparr>"

definition store_after :: "store_io \<Rightarrow> store_op list \<Rightarrow> image_store" where
  "store_after io ops = fold (run_op io) ops empty_store"

lemma list_images_state: "snd (list_images fresh s) = s \<or> snd (list_images fresh s) = s\<lparr>st_cache := Some (list_uncached s)\<rparr>"
  by (auto simp: list_images_def split: option.splits)

lemma cached_ok: "store_ok s \<Longrightarrow> store_ok (s\<lparr>st_cache := Some (list_uncached s)\<rparr>)"
  by (simp add: store_ok_def ids_match_def tags_of_def list_uncached_def)

lemma list_images_ok: "store_ok s \<Longrightarrow> store_ok (snd (list_images fresh s))"
  using list_images_state [of fresh s] cached_ok by metis

lemma list_effective_state: "snd (list_effective fresh s) = snd (list_images fresh s)"
  by (simp add: list_effective_def split: prod.splits)

lemma resolve_image_state: "snd (resolve_image fresh name s) = s \<or> snd (resolve_image fresh name s) = snd (list_images fresh s)"
  by (auto simp: resolve_image_def Let_def split: option.splits sum.splits prod.splits)

lemma gc_ok: "store_ok s \<Longrightarrow> store_ok (gc_replaced_layers old s)"
  by (simp add: gc_replaced_layers_def collect_unused_def Let_def store_ok_def ids_match_def tags_of_def list_uncached_def)

lemma run_op_ok:
  assumes "writes_succeed io" "store_ok s"
  shows "store_ok (run_op io p s)"
proof (cases p)
  case (Op_Resolve fresh name)
  then show ?thesis using resolve_image_state [of fresh name s] list_images_ok [OF assms(2)] assms(2) by auto
qed (use assms in \<open>simp_all add: put_image_merged_ok tag_image_ok remove_image_ok list_images_ok gc_ok list_effective_state\<close>)

lemma run_ops_ok:
  assumes "writes_succeed io"
  shows "store_ok s \<Longrightarrow> store_ok (fold (run_op io) ops s)"
  by (induction ops arbitrary: s) (simp_all add: run_op_ok [OF assms])

lemma empty_store_ok: "store_ok empty_store"
  by (simp add: store_ok_def empty_store_def ids_match_def tags_of_def load_image_def)

text \<open>Claim C4: Whatever sequence of operations the store has seen, with every write successful: a tag is in the
  index exactly for the image whose record embeds it, so that a tag names one image; the index on
  disk is the one in memory; and the cached listing, when there is one, is what is stored.\<close>

theorem reachable_store_consistent:
  assumes "writes_succeed io"
  shows "(assoc_get (st_tags (store_after io ops)) t = Some i \<longleftrightarrow>
            (\<exists>r. load_image i (store_after io ops) = Some r \<and> im_id r = i \<and> t \<in> set (im_repo_tags r)))
       \<and> st_saved_tags (store_after io ops) = st_tags (store_after io ops)
       \<and> fst (list_images fresh (store_after io ops)) = map snd (st_records (store_after io ops))"
proof -
  let ?s = "store_after io ops"
  have ok: "store_ok ?s" unfolding store_after_def by (rule run_ops_ok [OF assms(1) empty_store_ok])
  then have "fst (list_images fresh ?s) = map snd (st_records ?s)"
    by (auto simp: store_ok_def list_images_def list_uncached_def split: option.splits)
  moreover have "t \<in> tags_of ?s i \<longleftrightarrow> (\<exists>r. load_image i ?s = Some r \<and> im_id r = i \<and> t \<in> set (im_repo_tags r))"
    using ok by (auto simp: tags_of_def store_ok_def ids_match_def split: option.splits)
  ultimately show ?thesis using ok by (simp add: store_ok_def)
qed

definition blank_record :: "string \<Rightarrow> image_record" where
  "blank_record i = \<lparr>im_id = i, im_manifest_digest = [], im_repo_tags = [], im_repo_digests = [], im_created = [],
     im_created_unix = 0, im_architecture = ''amd64'', im_os = ''linux'', im_author = [], im_comment = [],
     im_docker_version = [], im_diff_ids = [], im_layer_blobs = [], im_size = 0, im_config = default_container_config,
     im_history = [], im_chain_ids = []\<rparr>"

definition good_io :: store_io where
  "good_io = \<lparr>io_record = (\<lambda>_. True), io_tags = True\<rparr>"

lemma good_io_succeeds [simp]: "writes_succeed good_io"
  by (simp add: writes_succeed_def good_io_def)

definition stolen_tag :: "store_op list" where
  "stolen_tag = [Op_Put (blank_record ''aa''\<lparr>im_repo_tags := [''x:1'']\<rparr>), Op_Put (blank_record ''bb''\<lparr>im_repo_tags := [''x:1'']\<rparr>)]"

theorem reachable_store_consistent_witness:
  "assoc_get (st_tags (store_after good_io stolen_tag)) ''x:1'' = Some ''bb''
     \<and> load_image ''aa'' (store_after good_io stolen_tag) = Some (blank_record ''aa'')
     \<and> fst (list_images True (store_after good_io stolen_tag)) = map snd (st_records (store_after good_io stolen_tag))"
proof -
  have "assoc_get (st_tags (store_after good_io stolen_tag)) ''x:1'' = Some ''bb''" by code_simp
  moreover have "load_image ''aa'' (store_after good_io stolen_tag) = Some (blank_record ''aa'')" by code_simp
  moreover have "fst (list_images True (store_after good_io stolen_tag)) = map snd (st_records (store_after good_io stolen_tag))"
    using reachable_store_consistent [OF good_io_succeeds, of stolen_tag "''x:1''" "''bb''" True] by blast
  ultimately show ?thesis by blast
qed

section \<open>The contract of tagging\<close>

text \<open>What the builder and the load endpoint rely on when they tag an image that is stored.\<close>

locale tag_index =
  fixes good :: "'s \<Rightarrow> bool"
    and stored :: "'s \<Rightarrow> string \<Rightarrow> bool"
    and lookup :: "'s \<Rightarrow> string \<Rightarrow> string option"
    and tag :: "string \<Rightarrow> string \<Rightarrow> 's \<Rightarrow> 's"
  assumes good_tag: "good s \<Longrightarrow> good (tag i t s)"
    and stored_tag: "good s \<Longrightarrow> stored s i \<Longrightarrow> stored (tag i t s) j \<longleftrightarrow> stored s j"
    and lookup_tag: "good s \<Longrightarrow> stored s i \<Longrightarrow> lookup (tag i t s) x = (if x = t then Some i else lookup s x)"
begin

lemma good_tags: "good s \<Longrightarrow> good (fold (tag i) ts s)"
  by (induction ts arbitrary: s) (simp_all add: good_tag)

lemma stored_tags: "good s \<Longrightarrow> stored s i \<Longrightarrow> stored (fold (tag i) ts s) j \<longleftrightarrow> stored s j"
  by (induction ts arbitrary: s) (simp_all add: good_tag stored_tag)

lemma lookup_tags:
  "good s \<Longrightarrow> stored s i \<Longrightarrow> lookup (fold (tag i) ts s) x = (if x \<in> set ts then Some i else lookup s x)"
  by (induction ts arbitrary: s) (auto simp: good_tag stored_tag lookup_tag)

end

interpretation ti: tag_index store_ok "\<lambda>s i. load_image i s \<noteq> None" "\<lambda>s. assoc_get (st_tags s)"
    "\<lambda>i t s. snd (tag_image good_io i t s)"
  by unfold_locales (use tag_image_ok tag_image_effect in \<open>auto simp: good_io_succeeds\<close>)

section \<open>Garbage collection\<close>

text \<open>A digest with one algorithm prefix, the form the registry and the builder produce.\<close>

definition digest_form :: "string \<Rightarrow> bool" where
  "digest_form d \<longleftrightarrow> (\<exists>h. d = ''sha256:'' @ h \<and> \<not> starts_with ''sha256:'' h)"

definition digests_ok :: "image_store \<Rightarrow> bool" where
  "digests_ok s \<longleftrightarrow>
     (\<forall>r \<in> set (list_uncached s). (\<forall>d \<in> set (im_diff_ids r) \<union> set (im_layer_blobs r). digest_form d)
        \<and> (\<forall>q \<in> set (list_uncached s). blob_name (im_id q) \<notin> blob_name ` set (im_layer_blobs r)))"

text \<open>Every stored image has its layers and its blobs.\<close>

definition intact :: "image_store \<Rightarrow> bool" where
  "intact s \<longleftrightarrow>
     (\<forall>r \<in> set (list_uncached s). layer_name ` set (im_diff_ids r) \<subseteq> set (st_layers s)
        \<and> blob_name ` set (im_layer_blobs r) \<subseteq> set (st_blobs s))"

lemma digest_names:
  assumes "digest_form d"
  shows "d = ''sha256:'' @ layer_name d" "d = ''sha256:'' @ blob_name d"
proof -
  obtain h where h: "d = ''sha256:'' @ h" "\<not> starts_with ''sha256:'' h" using assms by (auto simp: digest_form_def)
  have "strip_prefix ''sha256:'' h = None" using h(2) by (simp add: starts_with_def)
  then have "trim_start_matches ''sha256:'' h = h" by (subst trim_start_matches.simps) simp
  moreover have "strip_prefix ''sha256:'' d = Some h" unfolding h(1) by (rule strip_prefix_append)
  moreover have "trim_start_matches ''sha256:'' d = trim_start_matches ''sha256:'' h"
    by (subst trim_start_matches.simps) (simp add: calculation(2))
  ultimately have "layer_name d = h" "blob_name d = h" by (simp_all add: layer_name_def blob_name_def)
  then show "d = ''sha256:'' @ layer_name d" "d = ''sha256:'' @ blob_name d" using h(1) by simp_all
qed

lemma name_inj:
  assumes "digest_form d" "digest_form e"
  shows "layer_name d = layer_name e \<longleftrightarrow> d = e" "blob_name d = blob_name e \<longleftrightarrow> d = e"
  using digest_names [OF assms(1)] digest_names [OF assms(2)] by metis+

lemma collect_unused_keeps:
  assumes "q \<in> set (list_uncached s)" "\<forall>d \<in> set (im_diff_ids q) \<union> set (im_layer_blobs q). digest_form d"
    and "\<forall>d \<in> set (im_diff_ids r) \<union> set (im_layer_blobs r). digest_form d"
  shows "d \<in> set (im_diff_ids q) \<Longrightarrow> layer_name d \<in> set (st_layers (collect_unused r s)) \<longleftrightarrow> layer_name d \<in> set (st_layers s)"
    and "b \<in> set (im_layer_blobs q) \<Longrightarrow> blob_name b \<in> set (st_blobs (collect_unused r s)) \<longleftrightarrow> blob_name b \<in> set (st_blobs s)"
  using assms name_inj by (auto simp: collect_unused_def Let_def list_ex_iff)

lemma delete_keeps_intact:
  assumes "intact s" "digests_ok s" "r0 \<in> set (list_uncached s)" "im_id r = im_id r0" "im_diff_ids r = im_diff_ids r0"
    "im_layer_blobs r = im_layer_blobs r0"
  shows "intact (snd (delete_record io r s))"
proof (cases "io_tags io")
  case True
  let ?s1 = "s\<lparr>st_saved_tags := st_tags s, st_records := assoc_del (st_records s) (im_id r)\<rparr>"
  have l: "list_uncached (snd (delete_record io r s)) = list_uncached ?s1"
    using True by (simp add: delete_record_def save_tags_def Let_def collect_unused_def invalidate_list_def list_uncached_def)
  have lay: "st_layers (snd (delete_record io r s)) = st_layers (collect_unused r ?s1)"
    and blb: "st_blobs (snd (delete_record io r s)) = filter (\<lambda>n. n \<noteq> blob_name (im_id r)) (st_blobs (collect_unused r ?s1))"
    using True by (simp_all add: delete_record_def save_tags_def Let_def invalidate_list_def)
  have dr: "\<forall>d \<in> set (im_diff_ids r) \<union> set (im_layer_blobs r). digest_form d"
    using assms(2,3,5,6) by (auto simp: digests_ok_def)
  have "layer_name ` set (im_diff_ids q) \<subseteq> set (st_layers (snd (delete_record io r s)))
      \<and> blob_name ` set (im_layer_blobs q) \<subseteq> set (st_blobs (snd (delete_record io r s)))" if q: "q \<in> set (list_uncached ?s1)" for q
  proof -
    have q': "q \<in> set (list_uncached s)" using q by (auto simp: list_uncached_def assoc_del_def)
    have dq: "\<forall>d \<in> set (im_diff_ids q) \<union> set (im_layer_blobs q). digest_form d" using assms(2) q' by (auto simp: digests_ok_def)
    have i: "layer_name ` set (im_diff_ids q) \<subseteq> set (st_layers s)" "blob_name ` set (im_layer_blobs q) \<subseteq> set (st_blobs s)"
      using assms(1) q' by (auto simp: intact_def)
    have "\<forall>b \<in> set (im_layer_blobs q). blob_name b \<noteq> blob_name (im_id r)"
      using assms(2,3,4) q' by (fastforce simp: digests_ok_def image_iff)
    then show ?thesis
      using i collect_unused_keeps [OF q dq dr] unfolding lay blb by (auto simp: image_subset_iff)
  qed
  then show ?thesis by (simp add: intact_def l)
next
  case False
  then show ?thesis using assms(1) by (simp add: delete_record_def save_tags_def)
qed

lemma intact_frame: "intact (s\<lparr>st_cache := c\<rparr>) \<longleftrightarrow> intact s" "intact (s\<lparr>st_saved_tags := t\<rparr>) \<longleftrightarrow> intact s"
  by (simp_all add: intact_def list_uncached_def)

lemma stored_in_list: "assoc_wf (st_records s) \<Longrightarrow> load_image i s = Some r \<longleftrightarrow> (i, r) \<in> set (st_records s)"
  by (simp add: load_image_def assoc_get_iff)

lemma drop_indexes_frame:
  "intact (fold (drop_index i) ts s) \<longleftrightarrow> intact s" "digests_ok (fold (drop_index i) ts s) \<longleftrightarrow> digests_ok s"
  "intact (drop_index i t s) \<longleftrightarrow> intact s" "digests_ok (drop_index i t s) \<longleftrightarrow> digests_ok s"
  by (simp_all add: intact_def digests_ok_def list_uncached_def fold_drop_index)

lemma write_keeps_intact:
  assumes "intact s" "(im_id r, r0) \<in> set (st_records s)" "im_diff_ids r = im_diff_ids r0" "im_layer_blobs r = im_layer_blobs r0"
  shows "intact (snd (write_record io r s))"
proof -
  have "q \<in> set (map snd (assoc_put m k v)) \<Longrightarrow> q = v \<or> q \<in> set (map snd m)" for q and m :: "(string, image_record) assoc" and k v
    by (induction m) (auto split: if_splits)
  then have l: "q \<in> set (list_uncached (s\<lparr>st_records := assoc_put (st_records s) (im_id r) r\<rparr>)) \<Longrightarrow> q = r \<or> q \<in> set (list_uncached s)" for q
    by (simp add: list_uncached_def)
  have "r0 \<in> set (list_uncached s)" using assms(2) by (force simp: list_uncached_def)
  then have r: "layer_name ` set (im_diff_ids r) \<subseteq> set (st_layers s) \<and> blob_name ` set (im_layer_blobs r) \<subseteq> set (st_blobs s)"
    using assms(1,3,4) unfolding intact_def by metis
  have "layer_name ` set (im_diff_ids q) \<subseteq> set (st_layers s) \<and> blob_name ` set (im_layer_blobs q) \<subseteq> set (st_blobs s)"
    if "q \<in> set (list_uncached (s\<lparr>st_records := assoc_put (st_records s) (im_id r) r\<rparr>))" for q
    using l [OF that]
  proof
    assume "q = r"
    then show ?thesis by (simp add: r)
  next
    assume "q \<in> set (list_uncached s)"
    then show ?thesis using assms(1) by (simp add: intact_def)
  qed
  then show ?thesis using assms(1) by (simp add: write_record_def intact_def)
qed

text \<open>Removing an image or one of its tags never deletes a layer or blob of an image that stays,
  even when writes fail.\<close>

lemma remove_image_keeps_intact:
  assumes "assoc_wf (st_records s)" "ids_match s" "digests_ok s" "intact s"
  shows "intact (snd (remove_image io i untag s))"
proof (cases "load_image i s")
  case None
  then show ?thesis using assms by (simp add: remove_image_def)
next
  case (Some r)
  have i: "im_id r = i" "(i, r) \<in> set (st_records s)" using assms(1,2) Some by (auto simp: ids_match_def stored_in_list)
  then have m: "r \<in> set (list_uncached s)" by (force simp: list_uncached_def)
  show ?thesis
  proof (cases untag)
    case None
    have "intact (snd (delete_record io r (fold (drop_index i) (im_repo_tags r) s)))"
      using assms(3,4) m by (intro delete_keeps_intact) (auto simp: drop_indexes_frame list_uncached_def fold_drop_index)
    then show ?thesis using None Some i
      by (auto simp: remove_image_def invalidate_list_def intact_frame split: prod.splits sum.splits)
  next
    case u: (Some key)
    let ?r = "r\<lparr>im_repo_tags := filter (\<lambda>x. x \<noteq> key) (im_repo_tags r)\<rparr>"
    have d: "intact (snd (delete_record io ?r (drop_index i key s)))"
      by (rule delete_keeps_intact [of _ r]) (use assms(3,4) m in \<open>simp_all add: drop_indexes_frame list_uncached_def\<close>)
    have w: "intact (snd (write_record io ?r (drop_index i key s)))"
      using assms(4) i by (intro write_keeps_intact [of _ _ r]) (auto simp: drop_indexes_frame)
    show ?thesis using u Some i d w
      by (auto simp: remove_image_def untag_image_def Let_def invalidate_list_def save_tags_def intact_frame split: prod.splits sum.splits)
  qed
qed


text \<open>Two images that share a layer; the removal of one keeps the shared layer and drops its own.\<close>

definition shared_layer_store :: image_store where
  "shared_layer_store =
     \<lparr>st_records = [(''aa'', blank_record ''aa''\<lparr>im_diff_ids := [''sha256:1'', ''sha256:2''], im_layer_blobs := [''sha256:7'', ''sha256:8'']\<rparr>),
                    (''bb'', blank_record ''bb''\<lparr>im_diff_ids := [''sha256:1''], im_layer_blobs := [''sha256:7'']\<rparr>)],
      st_tags = [], st_saved_tags = [], st_layers = [''1'', ''2''], st_blobs = [''7'', ''8'', ''aa'', ''bb''], st_cache = None\<rparr>"

lemma shared_layer_digests: "digest_form ''sha256:1'' \<and> digest_form ''sha256:2'' \<and> digest_form ''sha256:7'' \<and> digest_form ''sha256:8''"
  by (auto simp: digest_form_def starts_with_def)

lemma shared_layer_facts:
  "assoc_wf (st_records shared_layer_store)" "ids_match shared_layer_store" "digests_ok shared_layer_store" "intact shared_layer_store"
proof -
  have n: "blob_name ''aa'' = ''aa''" "blob_name ''bb'' = ''bb''" "blob_name ''sha256:7'' = ''7''" "blob_name ''sha256:8'' = ''8''"
    "layer_name ''sha256:1'' = ''1''" "layer_name ''sha256:2'' = ''2''" by code_simp+
  show "assoc_wf (st_records shared_layer_store)" by code_simp
  show "ids_match shared_layer_store"
    by (auto simp: ids_match_def load_image_def shared_layer_store_def assoc_get_def blank_record_def split: if_splits)
  show "digests_ok shared_layer_store"
    using shared_layer_digests by (simp add: digests_ok_def list_uncached_def shared_layer_store_def blank_record_def n)
  show "intact shared_layer_store" by (simp add: intact_def list_uncached_def shared_layer_store_def blank_record_def n)
qed


section \<open>Chain identifiers\<close>

text \<open>The texts hashed for a chain of layers.\<close>

fun hashed_inputs :: "(string \<Rightarrow> string) \<Rightarrow> string option \<Rightarrow> string list \<Rightarrow> string list" where
  "hashed_inputs sha parent [] = []"
| "hashed_inputs sha parent (d # ds) =
     (case parent of None \<Rightarrow> [] | Some p \<Rightarrow> [p @ '' '' @ d]) @ hashed_inputs sha (Some (chain_id sha parent d)) ds"

lemma chain_ids_Nil [simp]: "chain_ids_from sha p ds = [] \<longleftrightarrow> ds = []"
  by (cases ds) (simp_all add: Let_def)

lemma chain_snoc:
  "chain_ids_from sha p (ds @ [d]) = chain_ids_from sha p ds @ [chain_id sha (if ds = [] then p else Some (last (chain_ids_from sha p ds))) d]"
  by (induction ds arbitrary: p) (auto simp: Let_def)

lemma hashed_snoc:
  "hashed_inputs sha p (ds @ [d]) = hashed_inputs sha p ds
     @ (case (if ds = [] then p else Some (last (chain_ids_from sha p ds))) of None \<Rightarrow> [] | Some q \<Rightarrow> [q @ '' '' @ d])"
  by (induction ds arbitrary: p) (auto simp: Let_def split: option.splits)

lemma space_unique:
  assumes "CHR '' '' \<notin> set d" "CHR '' '' \<notin> set e" "p @ CHR '' '' # d = q @ CHR '' '' # e"
  shows "p = q \<and> d = e"
  using assms rsplit_once_Some [of "CHR '' ''" "p @ CHR '' '' # d" p d] rsplit_once_Some [of "CHR '' ''" "p @ CHR '' '' # d" q e] by auto

text \<open>The last chain identifier determines the whole chain of a given length, unless the hash function
  collides on the texts hashed.\<close>

theorem chain_ids_separate:
  assumes "inj_on sha (set (hashed_inputs sha None ds) \<union> set (hashed_inputs sha None es))"
    and "length ds = length es" "list_all (\<lambda>d. CHR '' '' \<notin> set d) (ds @ es)" "ds \<noteq> []"
    and "last (compute_chain_ids sha ds) = last (compute_chain_ids sha es)"
  shows "ds = es"
  using assms
proof (induction ds arbitrary: es rule: rev_induct)
  case Nil
  then show ?case by simp
next
  case (snoc d ds)
  from snoc.prems(2) obtain fs e where es: "es = fs @ [e]" "length fs = length ds"
    by (metis length_append_singleton length_Suc_conv_rev nat.inject)
  show ?case
  proof (cases "ds = []")
    case True
    then show ?thesis using snoc.prems(5) es by (simp add: compute_chain_ids_def chain_id_def)
  next
    case False
    let ?p = "last (chain_ids_from sha None ds)" and ?q = "last (chain_ids_from sha None fs)"
    have f: "fs \<noteq> []" using False es(2) by auto
    have "sha (?p @ '' '' @ d) = sha (?q @ '' '' @ e)"
      using snoc.prems(5) es False f by (simp add: compute_chain_ids_def chain_snoc chain_id_def)
    moreover have "?p @ '' '' @ d \<in> set (hashed_inputs sha None (ds @ [d]))" "?q @ '' '' @ e \<in> set (hashed_inputs sha None es)"
      unfolding es(1) hashed_snoc using False f by simp_all
    ultimately have "?p @ '' '' @ d = ?q @ '' '' @ e" using snoc.prems(1) by (meson UnCI inj_onD)
    then have "?p = ?q" "d = e" using space_unique [of d e ?p ?q] snoc.prems(3) es(1) by auto
    moreover have "inj_on sha (set (hashed_inputs sha None ds) \<union> set (hashed_inputs sha None fs))"
      by (rule inj_on_subset [OF snoc.prems(1)]) (auto simp: es(1) hashed_snoc)
    ultimately show ?thesis
      using snoc.IH [of fs] snoc.prems(3) False es by (simp add: compute_chain_ids_def)
  qed
qed

theorem chain_ids_separate_witness:
  "let sha = (\<lambda>x. x) in last (compute_chain_ids sha [''a'', ''b'']) \<noteq> last (compute_chain_ids sha [''c'', ''b''])"
proof -
  have "[''a'', ''b''] = [''c'', ''b'']"
    if "last (compute_chain_ids (\<lambda>x. x) [''a'', ''b'']) = last (compute_chain_ids (\<lambda>x. x) [''c'', ''b''])"
    by (rule chain_ids_separate [OF _ _ _ _ that]) (simp_all add: inj_on_def)
  then have "last (compute_chain_ids (\<lambda>x. x) [''a'', ''b'']) \<noteq> last (compute_chain_ids (\<lambda>x. x) [''c'', ''b''])" by blast
  then show ?thesis unfolding Let_def .
qed

section \<open>Tags resolve\<close>

text \<open>A tag given to an image resolves to it, also when another image had it: the key of every
  parsed reference with a tag is looked up as it is, unless it reads as an image id.\<close>

theorem tagged_image_resolves:
  assumes "writes_succeed io" "store_ok s" "load_image i s \<noteq> None"
    and "image_ref_parse name = Ok r" "tag_key_opt r = Some k" "resolve_by_id k (snd (tag_image io i k s)) = None"
  shows "fst (tag_image io i k s) = Ok () \<and> fst (resolve_image fresh k (snd (tag_image io i k s))) = Ok i"
proof -
  have w: "ref_wf r" by (rule parse_ref_wf [OF assms(4)])
  obtain t where t: "ir_tag r = Some t" "k = display_ref_no_tag r @ CHR '':'' # t"
    using assms(5) by (auto simp: tag_key_opt_def)
  have nt: "CHR ''/'' \<notin> set t" "CHR '':'' \<notin> set t" "CHR ''@'' \<notin> set t" "CHR ''@'' \<notin> set (ir_registry r @ ir_repo r)"
    using w t(1) by (simp_all add: ref_wf_def)
  have "rsplit_once CHR '':'' k = Some (display_ref_no_tag r, t)" using nt(2) by (simp add: t(2) rsplit_once_Some)
  then have "resolve_tag_key k = k" using nt(1) by (simp add: resolve_tag_key_def t(2))
  moreover have "CHR ''@'' \<notin> set k"
    using nt(3,4) set_drop_subset [of "length OFFICIAL_REPO_PREFIX" "ir_repo r"] by (auto simp: t(2) display_ref_no_tag_def)
  ultimately show ?thesis
    using assms(6) tag_image_effect(1,2) [OF assms(1-3)] by (simp add: resolve_image_def Let_def ok_or_def)
qed

theorem tagged_image_resolves_witness:
  "fst (resolve_image True ''x:1'' (snd (tag_image good_io ''aa'' ''x:1'' (store_after good_io stolen_tag)))) = Ok ''aa''"
proof -
  let ?s = "store_after good_io stolen_tag"
  let ?r = "\<lparr>ir_registry = ''docker.io'', ir_repo = ''library/x'', ir_tag = Some ''1'', ir_digest = None\<rparr>"
  have "store_ok ?s" unfolding store_after_def by (rule run_ops_ok [OF good_io_succeeds empty_store_ok])
  moreover have "load_image ''aa'' ?s \<noteq> None" by code_simp
  moreover have "image_ref_parse ''docker.io/x:1'' = Ok ?r" by code_simp
  moreover have "tag_key_opt ?r = Some ''x:1''" by code_simp
  moreover have "resolve_by_id ''x:1'' (snd (tag_image good_io ''aa'' ''x:1'' ?s)) = None" by code_simp
  ultimately show ?thesis using tagged_image_resolves [OF good_io_succeeds] by blast
qed

text \<open>Other spellings of the same reference do not resolve: the index is asked for the text as given,
  while a pulled image is indexed under the normal form.\<close>

lemma qualified_name_not_resolved:
  "image_ref_parse ''docker.io/library/busybox:1'' = image_ref_parse ''busybox:1''
   \<and> fst (resolve_image True ''busybox:1'' (snd (put_image_merged good_io (blank_record ''aa''\<lparr>im_repo_tags := [''busybox:1'']\<rparr>) empty_store))) = Ok ''aa''
   \<and> fst (resolve_image True ''docker.io/library/busybox:1'' (snd (put_image_merged good_io (blank_record ''aa''\<lparr>im_repo_tags := [''busybox:1'']\<rparr>) empty_store)))
       = Err (No_Such_Image ''docker.io/library/busybox:1'')"
  by (intro conjI) code_simp+

text \<open>A failing write of the previous holder of a tag leaves two records that embed the tag, and the
  index at the old one.\<close>

lemma failed_eviction_splits_tag:
  "let s = store_after good_io [Op_Put (blank_record ''aa''\<lparr>im_repo_tags := [''x:1'']\<rparr>)];
       s' = snd (put_image_merged \<lparr>io_record = (\<lambda>i. i \<noteq> ''aa''), io_tags = True\<rparr> (blank_record ''bb''\<lparr>im_repo_tags := [''x:1'']\<rparr>) s)
   in assoc_get (st_tags s') ''x:1'' = Some ''aa'' \<and> map_option im_repo_tags (load_image ''aa'' s') = Some [''x:1'']
      \<and> map_option im_repo_tags (load_image ''bb'' s') = Some [''x:1'']"
  by code_simp

end
