(* ===== verification/Build_Config.thy ===== *)
theory Build_Config
  imports Dockerfile Paths Ipv6_Text Image_Store
begin

text \<open>
  The parts of the image builder (\<open>crates/builder/src/build.rs\<close>) that decide without touching files:
  build arguments and the scope of expansion, the configuration an image accumulates, the command
  of a step, secret mounts, ownership flags, the confinement of sources, destinations and archive
  entries, and the keys of the build cache. Canonical paths, the files of a layer, the reader of
  JSON arrays and the hash function are parameters. The theory shows the precedence of bindings,
  that accepted paths and archives stay inside their directory, that the values of secrets do not
  reach the key of a step, and that equal keys mean equal inputs unless two hashes collide.
\<close>

section \<open>Arguments and scope\<close>

datatype build_failure =
    Bad_Arg string
  | Bad_Shell
  | Mount_Malformed string | Mount_Required string | Mount_Mode string | Mount_Option string
  | Mount_Type "string option" | Mount_No_Id | Mount_Target string | Secret_Missing string
  | Chown_Invalid string | Chown_Bad_Id string | Chown_Unknown string | Chown_No_User string | Chmod_Mode string
  | No_Destination | Remote_Source string | Not_In_Context string | Escapes_Context string | Cannot_Canonicalize
  | No_Stage string | Source_Not_Found string
  | Archive_Kind string | Archive_Limits | Archive_Escapes string | Archive_Link string
  | Step_Failed string | Exit_Code int | Commit_Failed string
  | Parse_Failed dockerfile_error | Store_Failed store_error | Pull_Failed string | Base_Missing string

definition parse_arg_decl :: "string \<Rightarrow> (build_failure, string \<times> string option) result" where
  "parse_arg_decl s0 =
     (let s = trim s0;
          (name, dflt) = (case split_once CHR ''='' s of Some (n, v) \<Rightarrow> (trim n, Some (trim v)) | None \<Rightarrow> (s, None))
      in if name = [] \<or> list_ex is_ws name then Err (Bad_Arg s) else Ok (name, dflt))"

definition resolve_stage_arg ::
  "string \<Rightarrow> string option \<Rightarrow> (string, string) assoc \<Rightarrow> (string, string) assoc \<Rightarrow> string option" where
  "resolve_stage_arg name dflt build_args globals =
     (case assoc_get build_args name of
        Some v \<Rightarrow> Some v
      | None \<Rightarrow> (case dflt of Some d \<Rightarrow> Some d | None \<Rightarrow> assoc_get globals name))"

text \<open>The order of the arguments is that of the association list.\<close>

definition merge_scope :: "(string \<times> string) list \<Rightarrow> (string, string option) assoc \<Rightarrow> (string \<times> string) list" where
  "merge_scope env stage =
     fold (\<lambda>(k, v) out. if list_ex (\<lambda>(ek, _). ek = k) out then out
                        else (case v of Some x \<Rightarrow> out @ [(k, x)] | None \<Rightarrow> out)) stage env"

section \<open>The configuration of an image\<close>

record config_state =
  cs_env :: "string list"
  cs_shell :: "string list"
  cs_cmd :: "string list option"
  cs_entrypoint :: "string list option"
  cs_workdir :: string
  cs_user :: string
  cs_labels :: "(string, string) assoc"
  cs_exposed_ports :: "(string, json) assoc"
  cs_volumes :: "(string, json) assoc"
  cs_stop_signal :: string
  cs_healthcheck :: "health_config option"

definition default_shell :: "string list" where
  "default_shell = [''/bin/sh'', ''-c'']"

definition empty_config :: config_state where
  "empty_config = \<lparr>cs_env = [], cs_shell = default_shell, cs_cmd = None, cs_entrypoint = None, cs_workdir = [], cs_user = [],
     cs_labels = [], cs_exposed_ports = [], cs_volumes = [], cs_stop_signal = [], cs_healthcheck = None\<rparr>"

definition unwrap_or_default :: "('k, 'v) assoc option \<Rightarrow> ('k, 'v) assoc" where
  "unwrap_or_default m = (case m of Some x \<Rightarrow> x | None \<Rightarrow> [])"

definition from_image_record :: "image_record \<Rightarrow> config_state" where
  "from_image_record r = (let c = im_config r in
     \<lparr>cs_env = c_Env c, cs_shell = default_shell, cs_cmd = (if c_Cmd c = [] then None else Some (c_Cmd c)),
      cs_entrypoint = c_Entrypoint c, cs_workdir = c_WorkingDir c, cs_user = c_User c, cs_labels = c_Labels c,
      cs_exposed_ports = unwrap_or_default (c_ExposedPorts c), cs_volumes = unwrap_or_default (c_Volumes c),
      cs_stop_signal = c_StopSignal c, cs_healthcheck = c_Healthcheck c\<rparr>)"

definition env_pairs :: "config_state \<Rightarrow> (string \<times> string) list" where
  "env_pairs c = List.map_filter (split_once CHR ''='') (cs_env c)"

definition trim_quotes :: "string \<Rightarrow> string" where
  "trim_quotes s = trim_end_char CHR 0x22 (trim_start_char CHR 0x22 s)"

definition set_env :: "string \<Rightarrow> string \<Rightarrow> config_state \<Rightarrow> config_state" where
  "set_env k v c = c\<lparr>cs_env := filter (\<lambda>e. \<not> starts_with (k @ ''='') e) (cs_env c) @ [k @ ''='' @ v]\<rparr>"

definition apply_env :: "string \<Rightarrow> config_state \<Rightarrow> config_state" where
  "apply_env args c =
     (let t = trim args in
      case split_once CHR ''='' t of
        Some (k, v) \<Rightarrow> set_env (trim k) (trim_quotes (trim v)) c
      | None \<Rightarrow> (case split_once_ws t of Some (k, v) \<Rightarrow> set_env (trim k) (trim_quotes (trim v)) c | None \<Rightarrow> c))"

text \<open>Words up to the one that closes a quotation are joined by single spaces.\<close>

fun quoted_words :: "string \<Rightarrow> string list \<Rightarrow> string \<times> string list" where
  "quoted_words val [] = (val, [])"
| "quoted_words val (w # ws) =
     (let val' = val @ '' '' @ w in if ends_with [CHR 0x22] w then (val', ws) else quoted_words val' ws)"

lemma quoted_words_shorter: "length (snd (quoted_words val ws)) \<le> length ws"
  by (induction ws arbitrary: val) (auto simp: Let_def intro: le_SucI)

function key_values :: "string list \<Rightarrow> (string \<times> string) list" where
  "key_values [] = []"
| "key_values (p # ps) =
     (case split_once CHR ''='' p of
        None \<Rightarrow> key_values ps
      | Some (k, v) \<Rightarrow>
          if starts_with [CHR 0x22] v \<and> \<not> ends_with [CHR 0x22] v
          then (k, trim_quotes (fst (quoted_words v ps))) # key_values (snd (quoted_words v ps))
          else (k, trim_quotes v) # key_values ps)"
  by pat_completeness auto
termination
  by (relation "measure length") (auto simp: less_Suc_eq_le quoted_words_shorter)

definition parse_key_values :: "string \<Rightarrow> (string \<times> string) list" where
  "parse_key_values args = key_values (split_whitespace args)"

definition parse_json_or_words :: "(string \<Rightarrow> string list option) \<Rightarrow> string \<Rightarrow> string list" where
  "parse_json_or_words J args =
     (case parse_json_form J args of Some j \<Rightarrow> j | None \<Rightarrow> split_whitespace args)"

text \<open>Seconds become nanoseconds with the wrap-around of \<open>i64\<close>.\<close>

definition wrap_i64 :: "int \<Rightarrow> int" where
  "wrap_i64 i = (i + 9223372036854775808) mod 18446744073709551616 - 9223372036854775808"

definition health_duration :: "string \<Rightarrow> int" where
  "health_duration v =
     wrap_i64 ((case parse_i64 (trim_end_char CHR ''s'' v) of Some n \<Rightarrow> n | None \<Rightarrow> 0) * 1000000000)"

definition default_health :: health_config where
  "default_health = \<lparr>hc_Test = [], hc_Interval = None, hc_Timeout = None, hc_Retries = None, hc_StartPeriod = None, hc_StartInterval = None\<rparr>"

definition health_flag :: "string \<Rightarrow> health_config \<Rightarrow> health_config" where
  "health_flag part cfg =
     (case strip_prefix ''--'' part of
        None \<Rightarrow> cfg
      | Some f \<Rightarrow>
         (case split_once CHR ''='' f of
            None \<Rightarrow> cfg
          | Some (k, v) \<Rightarrow>
              if k = ''interval'' then cfg\<lparr>hc_Interval := Some (health_duration v)\<rparr>
              else if k = ''timeout'' then cfg\<lparr>hc_Timeout := Some (health_duration v)\<rparr>
              else if k = ''retries'' then cfg\<lparr>hc_Retries := parse_i64 v\<rparr>
              else if k = ''start-period'' then cfg\<lparr>hc_StartPeriod := Some (health_duration v)\<rparr>
              else cfg))"

definition parse_healthcheck :: "(string \<Rightarrow> string list option) \<Rightarrow> string \<Rightarrow> health_config option" where
  "parse_healthcheck J args =
     (if starts_with ''NONE'' (trim args) then Some (default_health\<lparr>hc_Test := [''NONE'']\<rparr>)
      else
        (case split_once_str ''CMD'' args of
           None \<Rightarrow> None
         | Some (flags, rest) \<Rightarrow>
            (case strip_prefix ''CMD'' (trim (''CMD'' @ rest)) of
               None \<Rightarrow> None
             | Some c \<Rightarrow>
                 let cmd = trim c; cfg = fold health_flag (split_whitespace flags) default_health in
                 Some (cfg\<lparr>hc_Test := (case parse_json_form J cmd of Some j \<Rightarrow> j | None \<Rightarrow> [''CMD-SHELL'', cmd])\<rparr>))))"

section \<open>Steps\<close>

definition run_argv :: "instruction \<Rightarrow> (string \<times> string) list \<Rightarrow> string list \<Rightarrow> string list" where
  "run_argv inst env shell =
     (case in_json_args inst of
        Some j \<Rightarrow> j
      | None \<Rightarrow>
          let stdin = concat (map (\<lambda>h. if hd_target h = [] then hd_content h else []) (in_heredocs inst)) in
          shell @ [if stdin \<noteq> [] then stdin else expand_vars env (in_args inst)])"

text \<open>A mode is octal, at most four digits without the leading zeros.\<close>

definition octal_digit :: "char \<Rightarrow> bool" where
  "octal_digit c = (48 \<le> (of_char c :: nat) \<and> (of_char c :: nat) \<le> 55)"

definition parse_mode :: "string \<Rightarrow> nat option" where
  "parse_mode v =
     (let ds = trim_start_char CHR ''0'' v; digits = (if ds = [] then ''0'' else ds) in
      if 4 < length digits \<or> \<not> list_all octal_digit digits then None
      else Some (foldl (\<lambda>n c. n * 8 + digit_val c) 0 digits))"

record secret_mount =
  sm_id :: string
  sm_target :: string
  sm_required :: bool
  sm_mode :: nat

record mount_options =
  mo_type :: "string option"
  mo_id :: "string option"
  mo_target :: "string option"
  mo_required :: bool
  mo_mode :: nat

definition mount_option :: "string \<Rightarrow> mount_options \<Rightarrow> (build_failure, mount_options) result" where
  "mount_option part m =
     (case split_once CHR ''='' part of
        None \<Rightarrow> Err (Mount_Malformed part)
      | Some (k0, v0) \<Rightarrow>
          let k = trim k0; val = trim v0 in
          if k = ''type'' then Ok (m\<lparr>mo_type := Some val\<rparr>)
          else if k = ''id'' then Ok (m\<lparr>mo_id := Some val\<rparr>)
          else if k = ''target'' \<or> k = ''dst'' \<or> k = ''destination'' then Ok (m\<lparr>mo_target := Some val\<rparr>)
          else if k = ''required'' then
            (if val = ''true'' \<or> val = ''1'' then Ok (m\<lparr>mo_required := True\<rparr>)
             else if val = ''false'' \<or> val = ''0'' then Ok (m\<lparr>mo_required := False\<rparr>)
             else Err (Mount_Required val))
          else if k = ''mode'' then
            (case parse_mode val of Some n \<Rightarrow> Ok (m\<lparr>mo_mode := n\<rparr>) | None \<Rightarrow> Err (Mount_Mode val))
          else Err (Mount_Option k))"

fun mount_options_from :: "string list \<Rightarrow> mount_options \<Rightarrow> (build_failure, mount_options) result" where
  "mount_options_from [] m = Ok m"
| "mount_options_from (p # ps) m = and_then (mount_option p m) (mount_options_from ps)"

definition finish_mount :: "mount_options \<Rightarrow> (build_failure, secret_mount) result" where
  "finish_mount m =
     (if mo_type m \<noteq> Some ''secret'' then Err (Mount_Type (mo_type m))
      else (case mo_id m of
              None \<Rightarrow> Err Mount_No_Id
            | Some i \<Rightarrow>
                if i = [] then Err Mount_No_Id
                else let t = (case mo_target m of Some t \<Rightarrow> t | None \<Rightarrow> ''/run/secrets/'' @ i) in
                  if \<not> starts_with ''/'' t then Err (Mount_Target t)
                  else Ok \<lparr>sm_id = i, sm_target = t, sm_required = mo_required m, sm_mode = mo_mode m\<rparr>))"

fun secret_mounts_of :: "(string \<times> string) list \<Rightarrow> (build_failure, secret_mount list) result" where
  "secret_mounts_of [] = Ok []"
| "secret_mounts_of ((k, v) # fs) =
     (if \<not> eq_ignore_ascii_case k ''mount'' then secret_mounts_of fs
      else and_then (mount_options_from (split_on CHR '','' v)
                       \<lparr>mo_type = None, mo_id = None, mo_target = None, mo_required = True, mo_mode = 256\<rparr>) (\<lambda>m.
           and_then (finish_mount m) (\<lambda>s. and_then (secret_mounts_of fs) (\<lambda>ss. Ok (s # ss)))))"

definition parse_secret_mounts :: "instruction \<Rightarrow> (build_failure, secret_mount list) result" where
  "parse_secret_mounts inst = secret_mounts_of (in_flags inst)"

record resolved_secret =
  rs_target :: string
  rs_mode :: nat
  rs_value :: string

fun resolve_secrets :: "secret_mount list \<Rightarrow> (string, string) assoc \<Rightarrow> (build_failure, resolved_secret list) result" where
  "resolve_secrets [] secrets = Ok []"
| "resolve_secrets (m # ms) secrets =
     (case assoc_get secrets (sm_id m) of
        Some v \<Rightarrow> and_then (resolve_secrets ms secrets) (\<lambda>rs. Ok (\<lparr>rs_target = sm_target m, rs_mode = sm_mode m, rs_value = v\<rparr> # rs))
      | None \<Rightarrow>
          if sm_required m then Err (Secret_Missing (sm_id m))
          else and_then (resolve_secrets ms secrets) (\<lambda>rs. Ok (\<lparr>rs_target = sm_target m, rs_mode = sm_mode m, rs_value = []\<rparr> # rs)))"

definition mount_key :: "secret_mount list \<Rightarrow> string" where
  "mount_key ms = join_with '','' (map (\<lambda>m. sm_id m @ ''='' @ sm_target m) ms)"

definition resolve_secret_mounts ::
  "secret_mount list \<Rightarrow> (string, string) assoc \<Rightarrow> (build_failure, string \<times> resolved_secret list) result" where
  "resolve_secret_mounts ms secrets = and_then (resolve_secrets ms secrets) (\<lambda>rs. Ok (mount_key ms, rs))"

section \<open>Ownership\<close>

record copy_ownership =
  co_uid :: "nat option"
  co_gid :: "nat option"
  co_mode :: "nat option"

definition debug_opt :: "nat option \<Rightarrow> string" where
  "debug_opt x = (case x of None \<Rightarrow> ''None'' | Some n \<Rightarrow> ''Some('' @ show_nat n @ '')'')"

definition own_is_none :: "copy_ownership \<Rightarrow> bool" where
  "own_is_none own = (co_uid own = None \<and> co_gid own = None \<and> co_mode own = None)"

definition key_part :: "copy_ownership \<Rightarrow> string" where
  "key_part own = debug_opt (co_uid own) @ '':'' @ debug_opt (co_gid own) @ '':'' @ debug_opt (co_mode own)"

text \<open>The first line of a user or group file that names the user or group; the files of the layers
  are read top first, a file that is not there is \<open>None\<close>.\<close>

fun find_id :: "string \<Rightarrow> string list \<Rightarrow> string option" where
  "find_id name [] = None"
| "find_id name (l # ls) =
     (case split_on CHR '':'' l of
        n # _ # i # _ \<Rightarrow> if n = name then Some i else find_id name ls
      | _ \<Rightarrow> find_id name ls)"

fun find_id_in :: "string \<Rightarrow> string option list \<Rightarrow> string option" where
  "find_id_in name [] = None"
| "find_id_in name (None # fs) = find_id_in name fs"
| "find_id_in name (Some text # fs) = (case find_id name (lines text) of Some i \<Rightarrow> Some i | None \<Rightarrow> find_id_in name fs)"

definition resolve_copy_id :: "string \<Rightarrow> string option list \<Rightarrow> (build_failure, nat) result" where
  "resolve_copy_id spec texts =
     (case parse_u32 spec of
        Some n \<Rightarrow> Ok n
      | None \<Rightarrow>
          if spec = [] \<or> CHR ''/'' \<in> set spec then Err (Chown_Invalid spec)
          else (case find_id_in spec texts of
                  Some i \<Rightarrow> ok_or (Chown_Bad_Id spec) (parse_u32 i)
                | None \<Rightarrow> Err (Chown_Unknown spec)))"

definition flag_value :: "string \<Rightarrow> (string \<times> string) list \<Rightarrow> string option" where
  "flag_value name flags = map_option snd (find (\<lambda>(k, _). eq_ignore_ascii_case k name) flags)"

definition chown_ids ::
  "string option \<Rightarrow> string option list \<Rightarrow> string option list \<Rightarrow> (build_failure, nat option \<times> nat option) result" where
  "chown_ids spec passwd group_texts =
     (case spec of
        None \<Rightarrow> Ok (None, None)
      | Some sp \<Rightarrow>
          let (user, group) = (case split_once CHR '':'' sp of Some (u, g) \<Rightarrow> (u, Some g) | None \<Rightarrow> (sp, None)) in
          if user = [] then Err (Chown_No_User sp)
          else and_then (resolve_copy_id user passwd) (\<lambda>u.
            (case group of
               Some g \<Rightarrow> if g = [] then Ok (Some u, None) else and_then (resolve_copy_id g group_texts) (\<lambda>n. Ok (Some u, Some n))
             | None \<Rightarrow> Ok (Some u, None))))"

text \<open>The texts of \<open>etc/passwd\<close> and \<open>etc/group\<close> in the layers, top first, are arguments.\<close>

definition parse_copy_ownership ::
  "(string \<times> string) list \<Rightarrow> string option list \<Rightarrow> string option list \<Rightarrow> (build_failure, copy_ownership) result" where
  "parse_copy_ownership flags passwd group_texts =
     and_then (chown_ids (flag_value ''chown'' flags) passwd group_texts) (\<lambda>(u, g).
       (case flag_value ''chmod'' flags of
          None \<Rightarrow> Ok \<lparr>co_uid = u, co_gid = g, co_mode = None\<rparr>
        | Some sp \<Rightarrow>
           (case parse_mode sp of
              Some m \<Rightarrow> Ok \<lparr>co_uid = u, co_gid = g, co_mode = Some m\<rparr>
            | None \<Rightarrow> Err (Chmod_Mode sp))))"

section \<open>Sources, destinations and archives\<close>

definition is_remote_url :: "string \<Rightarrow> bool" where
  "is_remote_url src = (let l = map to_lower src in starts_with ''http://'' l \<or> starts_with ''https://'' l)"

text \<open>Relative components, popping at \<open>..\<close>; a pop at the top escapes.\<close>

fun pop_walk :: "string list \<Rightarrow> component list \<Rightarrow> string list option" where
  "pop_walk rel [] = Some rel"
| "pop_walk rel (Normal p # cs) = pop_walk (rel @ [p]) cs"
| "pop_walk rel (CurDir # cs) = pop_walk rel cs"
| "pop_walk rel (ParentDir # cs) = (if rel = [] then None else pop_walk (butlast rel) cs)"
| "pop_walk rel (Root # cs) = None"

text \<open>The canonical form of a path below the context, as the names of its components, is a parameter;
  it is \<open>None\<close> where the path does not exist.\<close>

definition resolve_context_source :: "(string list \<Rightarrow> string list option) \<Rightarrow> string \<Rightarrow> (build_failure, string list) result" where
  "resolve_context_source canon src =
     (if is_absolute src then Err (Not_In_Context src)
      else
        (case pop_walk [] (path_components src) of
           None \<Rightarrow> Err (Escapes_Context src)
         | Some rel \<Rightarrow>
            (case canon rel of
               None \<Rightarrow> Ok rel
             | Some c \<Rightarrow>
                (case canon [] of
                   None \<Rightarrow> Err Cannot_Canonicalize
                 | Some ctx \<Rightarrow> if take (length ctx) c = ctx then Ok rel else Err (Escapes_Context src)))))"

definition normalize_container_dest :: "string \<Rightarrow> string list" where
  "normalize_container_dest dest = clean_components [] (path_components dest)"

datatype tar_kind = Plain | Gzip | Zstd | Unsupported string

definition sniff_tar :: "nat list \<Rightarrow> tar_kind option" where
  "sniff_tar bytes =
     (let magic = take 512 bytes in
      if take 2 magic = [0x1f, 0x8b] then Some Gzip
      else if take 4 magic = [0x28, 0xB5, 0x2F, 0xFD] then Some Zstd
      else if take 3 magic = [0x42, 0x5A, 0x68] then Some (Unsupported ''bzip2'')
      else if take 6 magic = [0xFD, 0x37, 0x7A, 0x58, 0x5A, 0x00] then Some (Unsupported ''xz'')
      else if take 5 (drop 257 magic) = [117, 115, 116, 97, 114] then Some Plain
      else None)"

text \<open>An entry of an archive: its path, its size, and for links the target, which may be missing.\<close>

record archive_entry =
  ae_path :: string
  ae_size :: nat
  ae_link :: "string option option"

definition confined_link :: "string list \<Rightarrow> string \<Rightarrow> bool" where
  "confined_link link_path target =
     (\<not> is_absolute target \<and> pop_walk (butlast link_path) (path_components target) \<noteq> None)"

fun normal_only :: "component list \<Rightarrow> string list option" where
  "normal_only [] = Some []"
| "normal_only (Normal p # cs) = map_option (\<lambda>ps. p # ps) (normal_only cs)"
| "normal_only (CurDir # cs) = normal_only cs"
| "normal_only (_ # cs) = None"

definition add_extract_max_bytes :: nat where "add_extract_max_bytes = 1073741824"

definition add_extract_max_files :: nat where "add_extract_max_files = 100000"

definition saturating_add :: "nat \<Rightarrow> nat \<Rightarrow> nat" where
  "saturating_add a b = min 18446744073709551615 (a + b)"

text \<open>The entries that are handed to the unpacker, with the count and the sizes so far.\<close>

fun guard_entries :: "nat \<Rightarrow> nat \<Rightarrow> archive_entry list \<Rightarrow> (build_failure, archive_entry list) result" where
  "guard_entries files bytes [] = Ok []"
| "guard_entries files bytes (e # es) =
     (if add_extract_max_files < files + 1 then Err Archive_Limits
      else
        (case normal_only (path_components (ae_path e)) of
           None \<Rightarrow> Err (Archive_Escapes (ae_path e))
         | Some normal \<Rightarrow>
             if normal = [] then guard_entries (files + 1) bytes es
             else if add_extract_max_bytes < saturating_add bytes (ae_size e) then Err Archive_Limits
             else
               (case ae_link e of
                  Some None \<Rightarrow> Err (Archive_Link (ae_path e))
                | Some (Some t) \<Rightarrow>
                    if \<not> confined_link normal t then Err (Archive_Escapes (ae_path e))
                    else and_then (guard_entries (files + 1) (saturating_add bytes (ae_size e)) es) (\<lambda>rest. Ok (e # rest))
                | None \<Rightarrow>
                    and_then (guard_entries (files + 1) (saturating_add bytes (ae_size e)) es) (\<lambda>rest. Ok (e # rest)))))"

section \<open>Cache keys\<close>

text \<open>The \<open>Debug\<close> form of strings, lists and pairs, as the standard library prints them.\<close>

definition escape_debug :: "char \<Rightarrow> string" where
  "escape_debug c =
     (if c = CHR 0x00 then [CHR 0x5C, CHR ''0'']
      else if c = CHR 0x09 then [CHR 0x5C, CHR ''t'']
      else if c = CHR 0x0D then [CHR 0x5C, CHR ''r'']
      else if c = CHR 0x0A then [CHR 0x5C, CHR ''n'']
      else if c = CHR 0x5C then [CHR 0x5C, CHR 0x5C]
      else if c = CHR 0x22 then [CHR 0x5C, CHR 0x22]
      else if is_control c then [CHR 0x5C, CHR ''u'', CHR 0x7B] @ show_hex (of_char c) @ [CHR 0x7D]
      else [c])"

definition debug_str :: "string \<Rightarrow> string" where
  "debug_str s = CHR 0x22 # concat (map escape_debug s) @ [CHR 0x22]"

definition debug_pair :: "string \<times> string \<Rightarrow> string" where
  "debug_pair p = ''('' @ debug_str (fst p) @ '', '' @ debug_str (snd p) @ '')''"

fun debug_tail :: "('a \<Rightarrow> string) \<Rightarrow> 'a list \<Rightarrow> string" where
  "debug_tail f [] = '']''"
| "debug_tail f (x # xs) = '', '' @ f x @ debug_tail f xs"

fun debug_list :: "('a \<Rightarrow> string) \<Rightarrow> 'a list \<Rightarrow> string" where
  "debug_list f [] = ''[]''"
| "debug_list f (x # xs) = ''['' @ f x @ debug_tail f xs"

definition render_history :: "instruction \<Rightarrow> string" where
  "render_history inst =
     in_verb inst @ (if trim (in_args inst) = [] then [] else '' '' @ trim (in_args inst))
     @ (case in_json_args inst of
          Some j \<Rightarrow> if j = [] then [] else '' '' @ debug_list debug_str j
        | None \<Rightarrow> [])"

definition last_chain :: "string list \<Rightarrow> string" where
  "last_chain chain = (if chain = [] then [] else last chain)"

record run_inputs =
  ri_last :: string
  ri_args :: string
  ri_env :: "(string \<times> string) list"
  ri_shell :: "string list"
  ri_workdir :: string
  ri_user :: string
  ri_mounts :: string
  ri_heredocs :: "string list"

definition run_key_text :: "run_inputs \<Rightarrow> string" where
  "run_key_text i = debug_str (ri_last i) @ ''|'' @ debug_str (ri_args i) @ ''|'' @ debug_list debug_pair (ri_env i) @ ''|''
     @ debug_list debug_str (ri_shell i) @ ''|'' @ debug_str (ri_workdir i) @ ''|'' @ debug_str (ri_user i) @ ''|''
     @ debug_str (ri_mounts i)"

definition run_cache_key :: "(string \<Rightarrow> string) \<Rightarrow> run_inputs \<Rightarrow> string" where
  "run_cache_key sha i = ''run-'' @ foldl (\<lambda>h c. sha (h @ c)) (sha (run_key_text i)) (ri_heredocs i)"

definition copy_cache_key ::
  "(string \<Rightarrow> string) \<Rightarrow> string \<Rightarrow> string option \<Rightarrow> string \<Rightarrow> string list \<Rightarrow> string \<Rightarrow> string" where
  "copy_cache_key sha args from last_id source_hashes ownership =
     ''copy-'' @ sha (''copy|'' @ args @ ''|'' @ (case from of Some f \<Rightarrow> f | None \<Rightarrow> []) @ ''|'' @ ownership @ ''|'' @ last_id
       @ concat (map (\<lambda>s. ''|'' @ s) source_hashes))"

section \<open>Keys separate inputs\<close>

text \<open>A form is readable when a text that starts with it determines the value and the rest.\<close>

definition readable :: "('a \<Rightarrow> string) \<Rightarrow> bool" where
  "readable f \<longleftrightarrow> (\<forall>a b r r'. f a @ r = f b @ r' \<longrightarrow> a = b \<and> r = r')"

lemma readableD: "readable f \<Longrightarrow> f a @ r = f b @ r' \<Longrightarrow> a = b \<and> r = r'"
  by (simp add: readable_def)

lemma readableI: "(\<And>a b r r'. f a @ r = f b @ r' \<Longrightarrow> a = b \<and> r = r') \<Longrightarrow> readable f"
  by (simp add: readable_def)

text \<open>The character that an escape sequence denotes.\<close>

definition unescape :: "string \<Rightarrow> (char \<times> string) option" where
  "unescape s =
     (case s of
        [] \<Rightarrow> None
      | c # t \<Rightarrow>
          if c \<noteq> CHR 0x5C then Some (c, t)
          else (case t of
                  [] \<Rightarrow> None
                | d # u \<Rightarrow>
                    if d = CHR ''0'' then Some (CHR 0x00, u) else if d = CHR ''t'' then Some (CHR 0x09, u)
                    else if d = CHR ''r'' then Some (CHR 0x0D, u) else if d = CHR ''n'' then Some (CHR 0x0A, u)
                    else if d = CHR ''u'' then
                      (case split_once CHR 0x7D (tl u) of Some (h, r) \<Rightarrow> Some (char_of (hex_value h), r) | None \<Rightarrow> None)
                    else Some (d, u)))"

lemma show_hex_no_brace: "CHR 0x7D \<notin> set (show_hex n)"
proof
  assume "CHR 0x7D \<in> set (show_hex n)"
  then have "is_hex CHR 0x7D" by (rule show_hex_is_hex)
  then show False by (simp add: is_hex_def is_digit_def)
qed

lemma unescape_escape [simp]: "unescape (escape_debug c @ r) = Some (c, r)"
proof -
  have "split_once CHR 0x7D (show_hex (of_char c) @ CHR 0x7D # r) = Some (show_hex (of_char c), r)"
    by (simp add: split_once_Some show_hex_no_brace)
  then show ?thesis by (simp add: unescape_def escape_debug_def)
qed

lemma readable_escape: "readable escape_debug"
proof (rule readableI)
  fix a b r r' assume "escape_debug a @ r = escape_debug b @ r'"
  then have "unescape (escape_debug a @ r) = unescape (escape_debug b @ r')" by simp
  then show "a = b \<and> r = r'" by simp
qed

lemma escape_not_quote: "escape_debug c \<noteq> [] \<and> hd (escape_debug c) \<noteq> CHR 0x22"
  by (simp add: escape_debug_def)

lemma escaped_text_unique:
  "concat (map escape_debug s) @ CHR 0x22 # r = concat (map escape_debug t) @ CHR 0x22 # r' \<Longrightarrow> s = t \<and> r = r'"
proof (induction s arbitrary: t)
  case Nil
  then show ?case using escape_not_quote by (cases t) (auto simp: neq_Nil_conv, metis list.sel(1) append_Cons)
next
  case (Cons c s)
  show ?case
  proof (cases t)
    case Nil
    then show ?thesis using Cons.prems escape_not_quote [of c] by (auto simp: neq_Nil_conv)
  next
    case (Cons d t')
    then have "escape_debug c @ (concat (map escape_debug s) @ CHR 0x22 # r) = escape_debug d @ (concat (map escape_debug t') @ CHR 0x22 # r')"
      using Cons.prems by simp
    from readableD [OF readable_escape this] show ?thesis using Cons.IH Cons by simp
  qed
qed

lemma readable_str: "readable debug_str"
  by (rule readableI) (auto simp: debug_str_def dest: escaped_text_unique)

lemma readable_pair: "readable debug_pair"
proof (rule readableI)
  fix a b r r' assume "debug_pair a @ r = debug_pair b @ r'"
  then have eq: "debug_str (fst a) @ '', '' @ debug_str (snd a) @ '')'' @ r = debug_str (fst b) @ '', '' @ debug_str (snd b) @ '')'' @ r'"
    by (simp add: debug_pair_def)
  then have "debug_str (snd a) @ '')'' @ r = debug_str (snd b) @ '')'' @ r'" "fst a = fst b"
    using readableD [OF readable_str eq] by simp_all
  then show "a = b \<and> r = r'" using readableD [OF readable_str] by (metis append_Cons append_Nil list.inject prod_eqI)
qed

lemma readable_tail:
  assumes "readable f"
  shows "debug_tail f xs @ r = debug_tail f ys @ r' \<Longrightarrow> xs = ys \<and> r = r'"
proof (induction xs arbitrary: ys)
  case Nil
  then show ?case by (cases ys) simp_all
next
  case (Cons x xs)
  then obtain y ys' where y: "ys = y # ys'" by (cases ys) simp_all
  then have "f x @ (debug_tail f xs @ r) = f y @ (debug_tail f ys' @ r')" using Cons.prems by simp
  from readableD [OF assms this] Cons.IH y show ?case by simp
qed

lemma readable_list:
  assumes "readable f" "\<And>x. f x \<noteq> [] \<and> hd (f x) \<noteq> CHR '']''"
  shows "readable (debug_list f)"
proof (rule readableI)
  fix xs ys r r' assume eq: "debug_list f xs @ r = debug_list f ys @ r'"
  have first: "\<exists>c t. f x = c # t \<and> c \<noteq> CHR '']''" for x using assms(2) [of x] by (cases "f x") auto
  show "xs = ys \<and> r = r'"
  proof (cases xs; cases ys)
    fix x xs' y ys' assume l: "xs = x # xs'" "ys = y # ys'"
    then have "f x @ (debug_tail f xs' @ r) = f y @ (debug_tail f ys' @ r')" using eq by simp
    from readableD [OF assms(1) this] readable_tail [OF assms(1), of xs' r ys' r'] l show ?thesis by simp
  next
    fix y ys' assume l: "xs = []" "ys = y # ys'"
    then show ?thesis using eq first [of y] by auto
  next
    fix x xs' assume l: "xs = x # xs'" "ys = []"
    then show ?thesis using eq first [of x] by auto
  qed (use eq in simp)
qed

lemma readable_then: "readable f \<Longrightarrow> f a @ c # r = f b @ c # r' \<longleftrightarrow> a = b \<and> r = r'"
  using readableD [of f a "c # r" b "c # r'"] by auto

lemma readable_eq: "readable f \<Longrightarrow> f a = f b \<longleftrightarrow> a = b"
  using readableD [of f a "[]" b "[]"] by auto

lemma key_text_unique:
  assumes "run_key_text i = run_key_text j" "ri_heredocs i = ri_heredocs j"
  shows "i = j"
proof -
  have pairs: "readable (debug_list debug_pair)" by (rule readable_list [OF readable_pair]) (simp add: debug_pair_def)
  have strs: "readable (debug_list debug_str)" by (rule readable_list [OF readable_str]) (simp add: debug_str_def)
  show ?thesis using assms
    by (cases i; cases j) (simp add: run_key_text_def readable_then [OF readable_str] readable_then [OF pairs]
        readable_then [OF strs] readable_eq [OF readable_str])
qed

text \<open>The texts that are hashed for a key: the inputs, then each document after the hash so far.\<close>

fun doc_inputs :: "(string \<Rightarrow> string) \<Rightarrow> string \<Rightarrow> string list \<Rightarrow> string list" where
  "doc_inputs sha h [] = []"
| "doc_inputs sha h (c # cs) = (h @ c) # doc_inputs sha (sha (h @ c)) cs"

definition run_hashed :: "(string \<Rightarrow> string) \<Rightarrow> run_inputs \<Rightarrow> string list" where
  "run_hashed sha i = run_key_text i # doc_inputs sha (sha (run_key_text i)) (ri_heredocs i)"

lemma doc_inputs_snoc: "doc_inputs sha h (cs @ [c]) = doc_inputs sha h cs @ [foldl (\<lambda>h c. sha (h @ c)) h cs @ c]"
  by (induction cs arbitrary: h) auto

lemma doc_hash_is_hash: "\<exists>s. foldl (\<lambda>h c. sha (h @ c)) (sha t) cs = sha s"
  by (induction cs arbitrary: t) auto

definition digest_text :: "(string \<Rightarrow> string) \<Rightarrow> bool" where
  "digest_text sha \<longleftrightarrow> (\<forall>s. length (sha s) = 64 \<and> list_all is_hex (sha s))"

lemma digest_not_quoted: "digest_text sha \<Longrightarrow> sha s @ r \<noteq> CHR 0x22 # q"
  by (cases "sha s") (auto simp: digest_text_def is_hex_def is_digit_def dest: spec [of _ s])

lemma doc_hash_unique:
  assumes "digest_text sha" "t = CHR 0x22 # q" "t' = CHR 0x22 # q'"
  shows "foldl (\<lambda>h c. sha (h @ c)) (sha t) cs = foldl (\<lambda>h c. sha (h @ c)) (sha t') ds \<Longrightarrow>
     inj_on sha (set (t # doc_inputs sha (sha t) cs) \<union> set (t' # doc_inputs sha (sha t') ds)) \<Longrightarrow> t = t' \<and> cs = ds"
proof (induction cs arbitrary: ds rule: rev_induct)
  case Nil
  show ?case
  proof (cases ds rule: rev_cases)
    case Nil
    then show ?thesis using Nil.prems by (auto dest: inj_onD)
  next
    case (snoc ds' d)
    obtain s where s: "foldl (\<lambda>h c. sha (h @ c)) (sha t') ds' = sha s" using doc_hash_is_hash by blast
    have "sha t = sha (sha s @ d)" using Nil.prems(1) snoc s by simp
    then have "t = sha s @ d" by (rule inj_onD [OF Nil.prems(2)]) (simp_all add: snoc s doc_inputs_snoc)
    then show ?thesis using digest_not_quoted [OF assms(1)] assms(2) by metis
  qed
next
  case (snoc c cs)
  obtain s where s: "foldl (\<lambda>h c. sha (h @ c)) (sha t) cs = sha s" using doc_hash_is_hash by blast
  show ?case
  proof (cases ds rule: rev_cases)
    case Nil
    then have "sha t' = sha (sha s @ c)" using snoc.prems(1) s by simp
    then have "t' = sha s @ c" by (rule inj_onD [OF snoc.prems(2)]) (simp_all add: Nil s doc_inputs_snoc)
    then show ?thesis using digest_not_quoted [OF assms(1)] assms(3) by metis
  next
    case (snoc ds' d)
    obtain s' where s': "foldl (\<lambda>h c. sha (h @ c)) (sha t') ds' = sha s'" using doc_hash_is_hash by blast
    have "sha (sha s @ c) = sha (sha s' @ d)" using snoc.prems(1) snoc s s' by simp
    then have eq: "sha s @ c = sha s' @ d" by (rule inj_onD [OF snoc.prems(2)]) (simp_all add: snoc s s' doc_inputs_snoc)
    have "length (sha s) = length (sha s')" using assms(1) by (simp add: digest_text_def)
    then have h: "sha s = sha s'" and c: "c = d" using eq by simp_all
    have "inj_on sha (set (t # doc_inputs sha (sha t) cs) \<union> set (t' # doc_inputs sha (sha t') ds'))"
      by (rule inj_on_subset [OF snoc.prems(2)]) (auto simp: snoc doc_inputs_snoc)
    then have "t = t' \<and> cs = ds'" by (intro snoc.IH) (simp only: s s' h)
    then show ?thesis using c snoc by simp
  qed
qed


section \<open>Archives stay inside\<close>

text \<open>A walk stays inside when no prefix of it leaves the depth it starts at.\<close>

definition goes_up :: "component list \<Rightarrow> nat" where
  "goes_up cs = length (filter (\<lambda>c. c = ParentDir) cs)"

definition goes_down :: "component list \<Rightarrow> nat" where
  "goes_down cs = length (filter (\<lambda>c. \<exists>n. c = Normal n) cs)"

lemma all_take_Cons: "(\<forall>k. P (take k (c # cs))) \<longleftrightarrow> P [] \<and> (\<forall>k. P (c # take k cs))"
proof (intro iffI conjI allI)
  fix k assume "\<forall>k. P (take k (c # cs))"
  then show "P []" "P (c # take k cs)" by (metis take0, metis take_Suc_Cons)
next
  fix k assume "P [] \<and> (\<forall>k. P (c # take k cs))"
  then show "P (take k (c # cs))" by (cases k) simp_all
qed

definition stays_inside :: "nat \<Rightarrow> component list \<Rightarrow> bool" where
  "stays_inside depth cs \<longleftrightarrow> Root \<notin> set cs \<and> (\<forall>k. goes_up (take k cs) \<le> depth + goes_down (take k cs))"

lemma stays_inside_Cons [simp]:
  "stays_inside d []"
  "stays_inside d (Normal p # cs) \<longleftrightarrow> stays_inside (Suc d) cs"
  "stays_inside d (CurDir # cs) \<longleftrightarrow> stays_inside d cs"
  "stays_inside d (ParentDir # cs) \<longleftrightarrow> 0 < d \<and> stays_inside (d - 1) cs"
  "\<not> stays_inside d (Root # cs)"
proof -
  have "\<forall>k. goes_up (take k cs) \<le> (d - 1) + goes_down (take k cs)" if "0 < d" "\<forall>k. Suc (goes_up (take k cs)) \<le> d + goes_down (take k cs)"
    using that by (metis Suc_diff_1 Suc_le_mono add_Suc)
  moreover have "0 < d" if "\<forall>k. Suc (goes_up (take k cs)) \<le> d + goes_down (take k cs)"
    using spec [OF that, of 0] by (simp add: goes_down_def)
  ultimately have "(\<forall>k. Suc (goes_up (take k cs)) \<le> d + goes_down (take k cs)) \<longleftrightarrow> 0 < d \<and> (\<forall>k. goes_up (take k cs) \<le> (d - 1) + goes_down (take k cs))"
    by (metis Suc_diff_1 Suc_le_mono add_Suc)
  then show "stays_inside d (ParentDir # cs) \<longleftrightarrow> 0 < d \<and> stays_inside (d - 1) cs"
    unfolding stays_inside_def all_take_Cons [where P = "\<lambda>cs. goes_up cs \<le> d + goes_down cs"]
    by (auto simp: goes_up_def goes_down_def)
  show "stays_inside d []" "\<not> stays_inside d (Root # cs)" by (simp_all add: stays_inside_def goes_up_def)
  show "stays_inside d (Normal p # cs) \<longleftrightarrow> stays_inside (Suc d) cs" "stays_inside d (CurDir # cs) \<longleftrightarrow> stays_inside d cs"
    unfolding stays_inside_def all_take_Cons [where P = "\<lambda>cs. goes_up cs \<le> d + goes_down cs"]
    by (simp_all add: goes_up_def goes_down_def)
qed

lemma pop_walk_inside: "pop_walk rel cs \<noteq> None \<longleftrightarrow> stays_inside (length rel) cs"
  by (induction rel cs rule: pop_walk.induct) auto

lemma confined_link_iff:
  "confined_link ns t \<longleftrightarrow> \<not> is_absolute t \<and> stays_inside (length ns - 1) (path_components t)"
  by (simp only: confined_link_def pop_walk_inside length_butlast)

lemma normal_only_plain:
  "normal_only cs = Some ns \<Longrightarrow> \<forall>c \<in> set cs. plain_component c \<Longrightarrow> list_all plain_name ns"
  by (induction cs arbitrary: ns rule: normal_only.induct) (auto simp: plain_component_def)

lemma normal_only_kept: "normal_only cs = Some ns \<Longrightarrow> clean_components out cs = out @ ns"
  by (induction cs arbitrary: ns out rule: normal_only.induct) auto

text \<open>What an archive entry may do: it names a place below the destination, and a link points from
  its directory to a place below the destination.\<close>

definition entry_confined :: "archive_entry \<Rightarrow> bool" where
  "entry_confined e \<longleftrightarrow>
     (let names = clean_relative_path (ae_path e) in
      names \<noteq> [] \<and> list_all plain_name names \<and> ParentDir \<notin> set (path_components (ae_path e)) \<and> \<not> is_absolute (ae_path e) \<and>
      (case ae_link e of
         None \<Rightarrow> True
       | Some None \<Rightarrow> False
       | Some (Some t) \<Rightarrow> \<not> is_absolute t \<and> stays_inside (length names - 1) (path_components t)))"

lemma normal_only_components: "normal_only cs = Some ns \<Longrightarrow> ParentDir \<notin> set cs \<and> Root \<notin> set cs"
  by (induction cs arbitrary: ns rule: normal_only.induct) auto

lemma absolute_has_root: "is_absolute s \<Longrightarrow> Root \<in> set (path_components s)"
  by (simp add: is_absolute_def path_components_def Let_def)

lemma entry_confinedI:
  assumes "normal_only (path_components (ae_path e)) = Some ns" "ns \<noteq> []"
    and "case ae_link e of None \<Rightarrow> True | Some None \<Rightarrow> False | Some (Some t) \<Rightarrow> confined_link ns t"
  shows "entry_confined e"
proof -
  have "clean_relative_path (ae_path e) = ns" using normal_only_kept [OF assms(1)] by (simp add: clean_relative_path_def)
  moreover have "list_all plain_name ns" using normal_only_plain [OF assms(1)] path_components_plain by blast
  ultimately show ?thesis
    using assms normal_only_components [OF assms(1)] absolute_has_root
    by (auto simp: entry_confined_def confined_link_iff split: option.splits)
qed

lemma guard_entries_kept:
  assumes "guard_entries files bytes es = Ok kept" "files \<le> add_extract_max_files" "bytes \<le> add_extract_max_bytes"
  shows "list_all entry_confined kept \<and> files + length kept \<le> add_extract_max_files
    \<and> bytes + sum_list (map ae_size kept) \<le> add_extract_max_bytes \<and> subseq kept es"
  using assms
proof (induction files bytes es arbitrary: kept rule: guard_entries.induct)
  case (1 files bytes)
  then show ?case by simp
next
  case (2 files bytes e es)
  obtain ns where ns: "normal_only (path_components (ae_path e)) = Some ns" and f: "files + 1 \<le> add_extract_max_files"
    using "2.prems"(1) by (auto split: if_splits option.splits)
  show ?case
  proof (cases "ns = []")
    case True
    then have "guard_entries (files + 1) bytes es = Ok kept" using "2.prems"(1) ns f by simp
    then show ?thesis using "2.IH"(1) [OF _ ns True] f "2.prems"(3) by (auto intro: subseq_Cons')
  next
    case False
    have b: "saturating_add bytes (ae_size e) \<le> add_extract_max_bytes"
      and l: "case ae_link e of None \<Rightarrow> True | Some None \<Rightarrow> False | Some (Some t) \<Rightarrow> confined_link ns t"
      using "2.prems"(1) ns f False by (auto split: if_splits option.splits)
    then obtain rest where r: "guard_entries (files + 1) (saturating_add bytes (ae_size e)) es = Ok rest" "kept = e # rest"
      using "2.prems"(1) ns f False by (auto simp: and_then_Ok split: option.splits if_splits)
    have sum: "saturating_add bytes (ae_size e) = bytes + ae_size e"
      using b by (simp add: saturating_add_def add_extract_max_bytes_def min_def split: if_splits)
    have "list_all entry_confined rest \<and> files + 1 + length rest \<le> add_extract_max_files
        \<and> bytes + ae_size e + sum_list (map ae_size rest) \<le> add_extract_max_bytes \<and> subseq rest es"
      using "2.IH"(2,3) ns f False b l r(1) sum by (cases "ae_link e") (auto split: option.splits)
    then show ?thesis using entry_confinedI [OF ns False l] r(2) by simp
  qed
qed


lemma pop_walk_plain:
  "pop_walk rel cs = Some out \<Longrightarrow> \<forall>n \<in> set rel. plain_name n \<Longrightarrow> \<forall>c \<in> set cs. plain_component c \<Longrightarrow> \<forall>n \<in> set out. plain_name n"
  by (induction rel cs rule: pop_walk.induct) (auto simp: plain_component_def split: if_splits dest: in_set_butlastD)

text \<open>Claim C17: A source that is accepted is a path of plain names below the build context, and where it exists
  its canonical form is below the canonical context; a destination is always a path of plain names,
  so that it lies below the directory of the new layer.\<close>

theorem copied_paths_confined:
  assumes "resolve_context_source canon src = Ok rel"
  shows "list_all plain_name rel \<and> (canon rel = None \<or> (\<exists>ctx below. canon [] = Some ctx \<and> canon rel = Some (ctx @ below)))
    \<and> list_all plain_name (normalize_container_dest dest)"
proof -
  have walk: "pop_walk [] (path_components src) = Some rel"
    using assms by (auto simp: resolve_context_source_def split: if_splits option.splits)
  have "list_all plain_name rel"
    using pop_walk_plain [OF walk] path_components_plain by (simp add: list_all_iff)
  moreover have "canon rel = None \<or> (\<exists>ctx below. canon [] = Some ctx \<and> canon rel = Some (ctx @ below))"
  proof (cases "canon rel")
    case (Some c)
    then obtain ctx where "canon [] = Some ctx" "take (length ctx) c = ctx"
      using assms walk by (auto simp: resolve_context_source_def split: if_splits option.splits)
    then show ?thesis using Some append_take_drop_id [of "length ctx" c] by metis
  qed simp
  moreover have "list_all plain_name (normalize_container_dest dest)"
    using clean_relative_plain [of dest] by (simp add: normalize_container_dest_def clean_relative_path_def list_all_iff)
  ultimately show ?thesis by blast
qed

theorem copied_paths_confined_witness:
  "\<exists>ctx below. ctx @ below = [''work'', ''real'', ''x''] \<and> normalize_container_dest ''/a/../../etc//x/.'' = [''etc'', ''x''] \<and> list_all plain_name [''etc'', ''x'']"
proof -
  define canon where "canon rel = (if rel = [] then Some [''work''] else if rel = [''link''] then Some [''work'', ''real'', ''x''] else None)" for rel
  have "pop_walk [] (path_components ''a/../link'') = Some [''link'']" "\<not> is_absolute ''a/../link''" by code_simp+
  then have "resolve_context_source canon ''a/../link'' = Ok [''link'']" by (simp add: resolve_context_source_def canon_def)
  moreover have "normalize_container_dest ''/a/../../etc//x/.'' = [''etc'', ''x'']" by code_simp
  ultimately show ?thesis using copied_paths_confined [of canon "''a/../link''" "[''link'']" "''/a/../../etc//x/.''"] by (auto simp: canon_def)
qed

definition sample_inputs :: "string list \<Rightarrow> run_inputs" where
  "sample_inputs shell = \<lparr>ri_last = ''sha256:aa'', ri_args = ''make'', ri_env = [(''A'', ''b'')], ri_shell = shell, ri_workdir = ''/'', ri_user = [],
     ri_mounts = [], ri_heredocs = []\<rparr>"


section \<open>Precedence of bindings\<close>

lemma merge_scope_snoc:
  "merge_scope env (stage @ [(k, v)]) =
     (let out = merge_scope env stage in
      if list_ex (\<lambda>(ek, _). ek = k) out then out else (case v of Some x \<Rightarrow> out @ [(k, x)] | None \<Rightarrow> out))"
  by (simp add: merge_scope_def Let_def)

lemma list_ex_key: "list_ex (\<lambda>(ek, _). ek = k) m \<longleftrightarrow> map_of m k \<noteq> None"
  by (induction m) auto

lemma scope_lookup:
  assumes "assoc_wf stage"
  shows "map_of (merge_scope env stage) n =
     (case map_of env n of Some v \<Rightarrow> Some v | None \<Rightarrow> (case assoc_get stage n of Some (Some v) \<Rightarrow> Some v | _ \<Rightarrow> None))"
  using assms
proof (induction stage rule: rev_induct)
  case Nil
  then show ?case by (simp add: merge_scope_def assoc_get_def split: option.splits)
next
  case (snoc p stage)
  obtain k v where p: "p = (k, v)" by (cases p)
  have wf: "assoc_wf stage" "k \<notin> fst ` set stage" using snoc.prems p by (auto simp: assoc_wf_def)
  then have "assoc_get stage k = None" by (simp add: assoc_get_def map_of_eq_None_iff)
  then show ?case using snoc.IH [OF wf(1)] p
    by (auto simp: merge_scope_snoc Let_def list_ex_key assoc_get_def map_add_def split: option.splits)
qed

lemma env_pairs_set:
  assumes "CHR ''='' \<notin> set k"
  shows "env_pairs (set_env k v c) = filter (\<lambda>(n, _). n \<noteq> k) (env_pairs c) @ [(k, v)]"
proof -
  have keep: "List.map_filter (split_once CHR ''='') (filter (\<lambda>e. \<not> starts_with (k @ ''='') e) es)
      = filter (\<lambda>(n, _). n \<noteq> k) (List.map_filter (split_once CHR ''='') es)" for es
  proof (induction es)
    case (Cons e es)
    have "starts_with (k @ ''='') e \<longleftrightarrow> (\<exists>x. split_once CHR ''='' e = Some (k, x))"
      using assms by (auto simp: starts_with_iff split_once_Some)
    then show ?case using Cons by (auto simp: List.map_filter_simps split: option.splits)
  qed (simp add: List.map_filter_simps)
  have "split_once CHR ''='' (k @ CHR ''='' # v) = Some (k, v)" using assms by (simp add: split_once_Some)
  then have "List.map_filter (split_once CHR ''='') (es @ [k @ CHR ''='' # v]) = List.map_filter (split_once CHR ''='') es @ [(k, v)]" for es
    by (simp add: List.map_filter_def)
  then show ?thesis by (simp add: env_pairs_def set_env_def keep)
qed

lemma map_of_other_keys: "map_of (filter (\<lambda>(n, _). n \<noteq> k) m) n = (if n = k then None else map_of m n)"
  by (induction m) auto

text \<open>A variable that an \<open>ENV\<close> instruction has set expands to its value whatever the build arguments are;
  the instruction changes no other variable; and a variable that \<open>ENV\<close> has not set expands to the
  value of the argument in scope, or to nothing.\<close>

theorem expansion_precedence:
  assumes "CHR ''='' \<notin> set k" "assoc_wf args"
  shows "plain_value (merge_scope (env_pairs (set_env k v c)) args) n =
     (if n = k then v
      else (case map_of (env_pairs c) n of
              Some x \<Rightarrow> x
            | None \<Rightarrow> (case assoc_get args n of Some (Some x) \<Rightarrow> x | _ \<Rightarrow> [])))"
  by (auto simp: plain_value_def scope_lookup [OF assms(2)] env_pairs_set [OF assms(1)] map_of_other_keys map_add_def split: option.splits)

theorem expansion_precedence_witness:
  "plain_value (merge_scope (env_pairs (set_env ''A'' ''1'' (empty_config\<lparr>cs_env := [''A=0'', ''B=2'']\<rparr>))) [(''A'', Some ''9''), (''C'', Some ''3'')]) ''C'' = ''3''"
proof -
  have "CHR ''='' \<notin> set ''A''" "assoc_wf [(''A'', Some ''9''), (''C'', Some ''3'')]" by (simp_all add: assoc_wf_def)
  from expansion_precedence [OF this, of "''1''" "empty_config\<lparr>cs_env := [''A=0'', ''B=2'']\<rparr>" "''C''"]
  show ?thesis by (simp add: env_pairs_def List.map_filter_simps assoc_get_def)
qed

section \<open>Where the builder differs from its comments\<close>

text \<open>An instruction in JSON form appears twice in the history.\<close>

lemma json_form_rendered_twice:
  "render_history \<lparr>in_verb = ''CMD'', in_args = ''[]'', in_json_args = Some [''a''], in_flags = [], in_heredocs = [], in_line = 1\<rparr>
     = ''CMD [] ['' @ debug_str ''a'' @ '']''"
  by code_simp

text \<open>Several variables in one \<open>ENV\<close> instruction become one.\<close>

lemma env_pairs_merged: "env_pairs (apply_env ''A=1 B=2'' empty_config) = [(''A'', ''1 B=2'')]"
  by code_simp

text \<open>The options of a health check are flags to the reader of the file, so that they do not reach the
  reader of the health check; a command in JSON form loses the word that says how to run it.\<close>

lemma health_options_lost:
  "map_sum id (map (\<lambda>i. (in_flags i, parse_healthcheck J (in_args i))))
     (parse_dockerfile (\<lambda>_. None) (join_with [CHR 0x0A] [''FROM a'', ''HEALTHCHECK --interval=5s CMD true'']))
   = Ok [([], None), ([(''interval'', ''5s'')], Some (default_health\<lparr>hc_Test := [''CMD-SHELL'', ''true'']\<rparr>))]"
  "parse_healthcheck (\<lambda>_. Some [''true'']) ''CMD [x]'' = Some (default_health\<lparr>hc_Test := [''true'']\<rparr>)"
  by code_simp+

text \<open>The mode of a secret is not part of the key, although it changes what the step can read.\<close>

lemma mount_mode_not_in_key:
  "map_sum id mount_key (secret_mounts_of [(''mount'', ''type=secret,id=a,mode=400'')])
     = map_sum id mount_key (secret_mounts_of [(''mount'', ''type=secret,id=a,mode=444'')])"
  "secret_mounts_of [(''mount'', ''type=secret,id=a,mode=400'')] \<noteq> secret_mounts_of [(''mount'', ''type=secret,id=a,mode=444'')]"
  by code_simp+

end
