(* ===== verification/Image_Build.thy ===== *)
theory Image_Build
  imports Build_Config
begin

text \<open>
  The image builder (\<open>crates/builder/src/build.rs\<close>): hashes of trees, the build cache, the steps that add
  a layer, the loop over stages and instructions, and the record of the finished image, on top of
  the parser, the decisions of \<open>Build_Config\<close> and the image store. Running a step in a container,
  copying files, the archive and compression libraries, the JSON printer and the pull of a base
  image are parameters. The theory shows that a built image is well formed, that its tags name it,
  and that the values of secrets reach the image through executed steps only.
\<close>

section \<open>Hashes of trees\<close>

record file_meta =
  fm_len :: nat
  fm_mtime :: nat
  fm_mode :: nat
  fm_uid :: nat
  fm_gid :: nat

datatype entry_kind = Is_File string | Is_Dir | Is_Link "string option" | Is_Other

record walk_entry =
  we_rel :: string
  we_kind :: entry_kind
  we_meta :: "file_meta option"

type_synonym tree = "walk_entry list"

datatype source_tree = Src_Missing | Src_File string "file_meta option" | Src_Dir tree

fun le_bytes :: "nat \<Rightarrow> nat \<Rightarrow> string" where
  "le_bytes 0 v = []"
| "le_bytes (Suc n) v = char_of (v mod 256) # le_bytes n (v div 256)"

definition fingerprint_entry :: "walk_entry \<Rightarrow> string" where
  "fingerprint_entry e =
     we_rel e @ [CHR 0x00]
     @ (case we_meta e of
          Some m \<Rightarrow> le_bytes 8 (fm_len m) @ le_bytes 8 (fm_mtime m) @ le_bytes 4 (fm_mode m) @ '';''
        | None \<Rightarrow> ''unreadable;'')
     @ (case we_kind e of Is_Link (Some t) \<Rightarrow> t @ '';'' | _ \<Rightarrow> [])"

definition layer_fingerprint :: "(string \<Rightarrow> string) \<Rightarrow> tree \<Rightarrow> string" where
  "layer_fingerprint sha t = sha (concat (map fingerprint_entry t))"

definition owner_bytes :: "file_meta option \<Rightarrow> string" where
  "owner_bytes m = (case m of Some x \<Rightarrow> le_bytes 4 (fm_uid x) @ le_bytes 4 (fm_gid x) @ le_bytes 4 (fm_mode x) | None \<Rightarrow> [])"

definition tree_entry_bytes :: "walk_entry \<Rightarrow> string" where
  "tree_entry_bytes e =
     we_rel e @ [CHR 0x00]
     @ (case we_kind e of
          Is_Link t \<Rightarrow> ''link'' @ [CHR 0x00] @ (case t of Some x \<Rightarrow> x | None \<Rightarrow> []) @ '';''
        | k \<Rightarrow> (case k of Is_File c \<Rightarrow> c | _ \<Rightarrow> []) @ (if we_meta e = None then [] else owner_bytes (we_meta e) @ '';''))"

definition hash_tree :: "(string \<Rightarrow> string) \<Rightarrow> source_tree \<Rightarrow> string" where
  "hash_tree sha t =
     (case t of
        Src_File c m \<Rightarrow> sha (''file'' @ [CHR 0x00] @ c @ owner_bytes m)
      | Src_Missing \<Rightarrow> ''missing''
      | Src_Dir es \<Rightarrow> sha (concat (map tree_entry_bytes es)))"

section \<open>The state of a build and its surroundings\<close>

record cache_entry =
  ce_diff_id :: string
  ce_blob_digest :: "string option"
  ce_fingerprint :: "string option"

record build_state =
  bs_store :: image_store
  bs_dirs :: "(string, tree) assoc"
  bs_cache :: "(string, cache_entry) assoc"
  bs_declared :: "string list"
  bs_output :: "string list"

record build_options =
  bo_dockerfile :: string
  bo_tags :: "string list"
  bo_target :: "string option"
  bo_build_args :: "(string, string) assoc"
  bo_nocache :: bool
  bo_no_cache_filter :: "string list"

record run_request =
  rr_lowers :: "string list"
  rr_argv :: "string list"
  rr_env :: "(string \<times> string) list"
  rr_workdir :: string
  rr_secrets :: "resolved_secret list"

text \<open>What a copy step does for one source; of an archive, the entries that are unpacked.\<close>

datatype copy_action =
    Extract source_tree "archive_entry list" | Into_Dir source_tree | Copy_File source_tree | Copy_Dir source_tree

text \<open>The surroundings: the hash function, the clock, the reader of JSON arrays, the canonical paths and
  the files of the context, the files of a layer, the entries of an archive, a step run in a container (exit code, output and
  the changed files), the copying of files, the compressed archive of a directory, decompression,
  the unpacking of an archive, whether a layer can be put in place, the pull of an image, the
  outcome of writes to the store and of the configuration, the printed configuration, the size of a
  blob, and the age of the cached listing.\<close>

record build_env =
  be_sha :: "string \<Rightarrow> string"
  be_now :: string
  be_now_unix :: int
  be_version :: string
  be_json :: "string \<Rightarrow> string list option"
  be_canon :: "string list \<Rightarrow> string list option"
  be_context :: "string \<Rightarrow> source_tree"
  be_lookup :: "tree \<Rightarrow> string \<Rightarrow> source_tree"
  be_entries :: "source_tree \<Rightarrow> archive_entry list"
  be_run :: "run_request \<Rightarrow> (string, int \<times> string \<times> tree) result"
  be_copy :: "copy_action list \<Rightarrow> string list \<Rightarrow> copy_ownership option \<Rightarrow> (string, tree) result"
  be_archive :: "tree \<Rightarrow> string"
  be_gunzip :: "string \<Rightarrow> string option"
  be_untar :: "string \<Rightarrow> tree option"
  be_place :: "string \<Rightarrow> bool"
  be_pull :: "image_ref \<Rightarrow> image_store \<Rightarrow> (string, unit) result \<times> image_store"
  be_io :: store_io
  be_write_config :: bool
  be_config_json :: "config_state \<Rightarrow> string list \<Rightarrow> history_entry list \<Rightarrow> string"
  be_size :: "string \<Rightarrow> int"
  be_fresh :: bool

type_synonym 'a build = "build_state \<Rightarrow> (build_failure, 'a) result \<times> build_state"

definition bind_build :: "'a build \<Rightarrow> ('a \<Rightarrow> 'b build) \<Rightarrow> 'b build" where
  "bind_build m f s = (case m s of (Inl e, s') \<Rightarrow> (Err e, s') | (Inr x, s') \<Rightarrow> f x s')"

definition lift_build :: "(build_failure, 'a) result \<Rightarrow> 'a build" where
  "lift_build r s = (r, s)"

definition send :: "string \<Rightarrow> unit build" where
  "send msg s = (Ok (), s\<lparr>bs_output := bs_output s @ [msg]\<rparr>)"

fun send_all :: "string list \<Rightarrow> unit build" where
  "send_all [] = lift_build (Ok ())"
| "send_all (m # ms) = bind_build (send m) (\<lambda>_. send_all ms)"

section \<open>The cache\<close>

definition layer_content :: "string \<Rightarrow> build_state \<Rightarrow> tree" where
  "layer_content diff_id s = (case assoc_get (bs_dirs s) (layer_name diff_id) of Some t \<Rightarrow> t | None \<Rightarrow> [])"

definition cache_hit_valid :: "build_env \<Rightarrow> cache_entry \<Rightarrow> build_state \<Rightarrow> bool" where
  "cache_hit_valid E hit s =
     (let blob = (case ce_blob_digest hit of Some b \<Rightarrow> b | None \<Rightarrow> ce_diff_id hit) in
      layer_name (ce_diff_id hit) \<in> set (st_layers (bs_store s)) \<and> blob_name blob \<in> set (st_blobs (bs_store s))
      \<and> (case ce_fingerprint hit of
           None \<Rightarrow> True
         | Some fp \<Rightarrow> layer_fingerprint (be_sha E) (layer_content (ce_diff_id hit) s) = fp))"

definition usable_hit :: "build_env \<Rightarrow> build_options \<Rightarrow> bool \<Rightarrow> string \<Rightarrow> build_state \<Rightarrow> cache_entry option" where
  "usable_hit E opts bust key s =
     (if bo_nocache opts \<or> bust then None
      else (case assoc_get (bs_cache s) key of
              Some hit \<Rightarrow> if cache_hit_valid E hit s then Some hit else None
            | None \<Rightarrow> None))"

definition evict_over :: "nat \<Rightarrow> (string, cache_entry) assoc \<Rightarrow> (string, cache_entry) assoc" where
  "evict_over n cache = (if n < length cache then fold (\<lambda>k c. assoc_del c k) (take (length cache - n) (assoc_keys cache)) cache else cache)"

definition cache_store :: "string \<Rightarrow> string \<Rightarrow> string \<Rightarrow> string option \<Rightarrow> build_state \<Rightarrow> build_state" where
  "cache_store key diff_id blob fp s =
     s\<lparr>bs_cache := evict_over 2000 (assoc_put (bs_cache s) key \<lparr>ce_diff_id = diff_id, ce_blob_digest = Some blob, ce_fingerprint = fp\<rparr>)\<rparr>"

section \<open>Layers\<close>

type_synonym layers = "string list \<times> string list"

definition insert_new :: "string \<Rightarrow> string list \<Rightarrow> string list" where
  "insert_new x xs = (if x \<in> set xs then xs else xs @ [x])"

definition commit_layer :: "build_env \<Rightarrow> tree \<Rightarrow> (string \<times> string) build" where
  "commit_layer E dir s =
     (let bytes = be_archive E dir;
          blob = ''sha256:'' @ be_sha E bytes;
          s1 = s\<lparr>bs_store := (bs_store s)\<lparr>st_blobs := insert_new (blob_name blob) (st_blobs (bs_store s))\<rparr>\<rparr> in
      case be_gunzip E bytes of
        None \<Rightarrow> (Err (Commit_Failed ''decompress''), s1)
      | Some raw \<Rightarrow>
         (case be_untar E raw of
            None \<Rightarrow> (Err (Commit_Failed ''unpack''), s1)
          | Some content \<Rightarrow>
              let diff_id = ''sha256:'' @ be_sha E raw; name = layer_name diff_id in
              if name \<in> set (st_layers (bs_store s1)) then (Ok (diff_id, blob), s1)
              else if \<not> be_place E name then (Err (Commit_Failed ''place''), s1)
              else (Ok (diff_id, blob),
                    s1\<lparr>bs_store := (bs_store s1)\<lparr>st_layers := st_layers (bs_store s1) @ [name]\<rparr>,
                       bs_dirs := assoc_put (bs_dirs s1) name content\<rparr>)))"

text \<open>The end of both kinds of steps: commit, remember in the cache, extend the chains.\<close>

definition commit_step :: "build_env \<Rightarrow> string \<Rightarrow> tree \<Rightarrow> layers \<Rightarrow> layers build" where
  "commit_step E key dir l =
     bind_build (commit_layer E dir) (\<lambda>(diff_id, blob) s.
       (Ok (fst l @ [diff_id], snd l @ [blob]),
        cache_store key diff_id blob (Some (layer_fingerprint (be_sha E) (layer_content diff_id s))) s))"

definition reuse_layer :: "cache_entry \<Rightarrow> layers \<Rightarrow> layers build" where
  "reuse_layer hit l =
     bind_build (send '' ---> Using cache'') (\<lambda>_. lift_build (Ok
       (fst l @ [ce_diff_id hit],
        snd l @ [case ce_blob_digest hit of Some b \<Rightarrow> b | None \<Rightarrow> ce_diff_id hit])))"

definition in_context_dir :: "walk_entry \<Rightarrow> bool" where
  "in_context_dir e = (we_rel e = ''.ingot-context'' \<or> starts_with ''.ingot-context/'' (we_rel e))"

definition inputs_of :: "instruction \<Rightarrow> (string \<times> string) list \<Rightarrow> config_state \<Rightarrow> string \<Rightarrow> string list \<Rightarrow> run_inputs" where
  "inputs_of inst env c mounts chain =
     \<lparr>ri_last = last_chain chain, ri_args = in_args inst, ri_env = env, ri_shell = cs_shell c, ri_workdir = cs_workdir c,
      ri_user = cs_user c, ri_mounts = mounts, ri_heredocs = map hd_content (in_heredocs inst)\<rparr>"

definition run_layer ::
  "build_env \<Rightarrow> build_options \<Rightarrow> (string, string) assoc \<Rightarrow> bool \<Rightarrow> instruction \<Rightarrow> (string \<times> string) list \<Rightarrow> config_state
    \<Rightarrow> layers \<Rightarrow> layers build" where
  "run_layer E opts secrets bust inst env c l =
     bind_build (lift_build (and_then (parse_secret_mounts inst) (\<lambda>ms. resolve_secret_mounts ms secrets))) (\<lambda>(mounts, resolved) s.
       let key = run_cache_key (be_sha E) (inputs_of inst env c mounts (fst l)) in
       case usable_hit E opts bust key s of
         Some hit \<Rightarrow> reuse_layer hit l s
       | None \<Rightarrow>
          (case be_run E \<lparr>rr_lowers = rev (map layer_name (fst l)), rr_argv = run_argv inst env (cs_shell c), rr_env = env,
                          rr_workdir = cs_workdir c, rr_secrets = resolved\<rparr> of
             Inl e \<Rightarrow> (Err (Step_Failed e), s)
           | Inr (code, output, dir) \<Rightarrow>
               bind_build (send_all (map (\<lambda>x. ''  '' @ x) (lines output))) (\<lambda>_.
                 if code \<noteq> 0 then lift_build (Err (Exit_Code code))
                 else commit_step E key (filter (\<lambda>e. \<not> in_context_dir e) dir) l) s))"

section \<open>Stages\<close>

record stage_result =
  sg_chain :: "string list"
  sg_blobs :: "string list"
  sg_config :: config_state
  sg_history :: "history_entry list"

record from_stages =
  fs_named :: "(string, stage_result) assoc"
  fs_ordered :: "string list list"

definition resolve_from_chain :: "string \<Rightarrow> from_stages \<Rightarrow> (build_failure, string list) result" where
  "resolve_from_chain sel st =
     (case parse_u64 sel of
        Some i \<Rightarrow> if i < length (fs_ordered st) then Ok (fs_ordered st ! i) else Err (No_Stage sel)
      | None \<Rightarrow> (case assoc_get (fs_named st) sel of Some g \<Rightarrow> Ok (sg_chain g) | None \<Rightarrow> Err (No_Stage sel)))"

definition chain_layers :: "string list \<Rightarrow> build_state \<Rightarrow> tree list" where
  "chain_layers chain s = map (\<lambda>d. layer_content d s) (rev chain)"

fun find_in_stage :: "build_env \<Rightarrow> tree list \<Rightarrow> string \<Rightarrow> source_tree option" where
  "find_in_stage E [] rel = None"
| "find_in_stage E (t # ts) rel = (case be_lookup E t rel of Src_Missing \<Rightarrow> find_in_stage E ts rel | x \<Rightarrow> Some x)"

definition sniff_source :: "source_tree \<Rightarrow> tar_kind option" where
  "sniff_source t = (case t of Src_File c _ \<Rightarrow> sniff_tar (map of_char c) | _ \<Rightarrow> None)"

definition layer_texts :: "build_env \<Rightarrow> string \<Rightarrow> tree list \<Rightarrow> string option list" where
  "layer_texts E file ts = map (\<lambda>t. case be_lookup E t file of Src_File c _ \<Rightarrow> Some c | _ \<Rightarrow> None) ts"

fun stage_sources :: "build_env \<Rightarrow> tree list \<Rightarrow> string list \<Rightarrow> (build_failure, source_tree list) result" where
  "stage_sources E ts [] = Ok []"
| "stage_sources E ts (src # srcs) =
     and_then (ok_or (Source_Not_Found src) (find_in_stage E ts (trim_start_char CHR ''/'' src))) (\<lambda>x.
     and_then (stage_sources E ts srcs) (\<lambda>xs. Ok (x # xs)))"

text \<open>A source of the context is resolved for the copy and hashed as it was written.\<close>

fun context_sources :: "build_env \<Rightarrow> string list \<Rightarrow> (build_failure, (source_tree \<times> string) list) result" where
  "context_sources E [] = Ok []"
| "context_sources E (src # srcs) =
     and_then (resolve_context_source (be_canon E) src) (\<lambda>rel.
     and_then (context_sources E srcs) (\<lambda>xs. Ok ((be_context E (path_string rel), hash_tree (be_sha E) (be_context E src)) # xs)))"

definition copy_action_of :: "build_env \<Rightarrow> bool \<Rightarrow> bool \<Rightarrow> source_tree \<Rightarrow> (build_failure, copy_action) result" where
  "copy_action_of E is_add dest_is_dir t =
     (case (if is_add then sniff_source t else None) of
        Some (Unsupported what) \<Rightarrow> Err (Archive_Kind what)
      | Some _ \<Rightarrow> and_then (guard_entries 0 0 (be_entries E t)) (\<lambda>es. Ok (Extract t es))
      | None \<Rightarrow>
          Ok (if dest_is_dir then Into_Dir t
              else (case t of Src_File _ _ \<Rightarrow> Copy_File t | Src_Dir _ \<Rightarrow> Copy_Dir t | Src_Missing \<Rightarrow> Into_Dir t)))"

fun copy_actions :: "build_env \<Rightarrow> bool \<Rightarrow> bool \<Rightarrow> source_tree list \<Rightarrow> (build_failure, copy_action list) result" where
  "copy_actions E is_add dest_is_dir [] = Ok []"
| "copy_actions E is_add dest_is_dir (t # ts) =
     and_then (copy_action_of E is_add dest_is_dir t) (\<lambda>x.
     and_then (copy_actions E is_add dest_is_dir ts) (\<lambda>xs. Ok (x # xs)))"

definition copy_sources ::
  "build_env \<Rightarrow> from_stages \<Rightarrow> string option \<Rightarrow> string list \<Rightarrow> build_state \<Rightarrow> (build_failure, (source_tree \<times> string) list) result" where
  "copy_sources E st from sources s =
     (case from of
        Some sel \<Rightarrow>
          and_then (resolve_from_chain sel st) (\<lambda>chain.
          and_then (stage_sources E (chain_layers chain s) sources) (\<lambda>xs. Ok (map (\<lambda>x. (x, hash_tree (be_sha E) x)) xs)))
      | None \<Rightarrow> context_sources E sources)"

record copy_step =
  cp_add :: bool
  cp_from :: "string option"
  cp_args :: string
  cp_dest :: string
  cp_several :: bool
  cp_own :: copy_ownership
  cp_found :: "(source_tree \<times> string) list"

definition prepare_copy ::
  "build_env \<Rightarrow> from_stages \<Rightarrow> instruction \<Rightarrow> (string \<times> string) list \<Rightarrow> layers \<Rightarrow> build_state \<Rightarrow> (build_failure, copy_step) result" where
  "prepare_copy E st inst env l s =
     (let is_add = (in_verb inst = ''ADD'');
          from = map_option snd (find (\<lambda>(k, _). k = ''from'') (in_flags inst));
          args = expand_vars env (in_args inst);
          ws = split_whitespace args in
      if ws = [] then Err No_Destination
      else
        let dest = last ws; sources = butlast ws in
        case (if is_add then find is_remote_url sources else None) of
          Some src \<Rightarrow> Err (Remote_Source src)
        | None \<Rightarrow>
            let ts = chain_layers (fst l) s in
            and_then (parse_copy_ownership (in_flags inst) (layer_texts E ''etc/passwd'' ts) (layer_texts E ''etc/group'' ts)) (\<lambda>own.
            and_then (copy_sources E st from sources s) (\<lambda>found.
              Ok \<lparr>cp_add = is_add, cp_from = from, cp_args = args, cp_dest = dest, cp_several = (1 < length sources),
                  cp_own = own, cp_found = found\<rparr>)))"

definition copy_key :: "build_env \<Rightarrow> copy_step \<Rightarrow> layers \<Rightarrow> string" where
  "copy_key E p l =
     copy_cache_key (be_sha E) (cp_args p) (cp_from p) (last_chain (fst l)) (map snd (cp_found p)) (key_part (cp_own p))"

definition copy_files :: "build_env \<Rightarrow> copy_step \<Rightarrow> (build_failure, tree) result" where
  "copy_files E p =
     and_then (copy_actions E (cp_add p) (ends_with ''/'' (cp_dest p) \<or> cp_several p) (map fst (cp_found p))) (\<lambda>acts.
       (case be_copy E acts (normalize_container_dest (cp_dest p)) (if own_is_none (cp_own p) then None else Some (cp_own p)) of
          Inl e \<Rightarrow> Err (Step_Failed e)
        | Inr dir \<Rightarrow> Ok dir))"

definition copy_prepared :: "build_env \<Rightarrow> build_options \<Rightarrow> bool \<Rightarrow> copy_step \<Rightarrow> layers \<Rightarrow> layers build" where
  "copy_prepared E opts bust p l s =
     (case usable_hit E opts bust (copy_key E p l) s of
        Some hit \<Rightarrow> reuse_layer hit l s
      | None \<Rightarrow>
         (case copy_files E p of
            Inl e \<Rightarrow> (Err e, s)
          | Inr dir \<Rightarrow> commit_step E (copy_key E p l) dir l s))"

definition copy_layer ::
  "build_env \<Rightarrow> build_options \<Rightarrow> from_stages \<Rightarrow> bool \<Rightarrow> instruction \<Rightarrow> (string \<times> string) list \<Rightarrow> layers \<Rightarrow> layers build" where
  "copy_layer E opts st bust inst env l s =
     (case prepare_copy E st inst env l s of Inl e \<Rightarrow> (Err e, s) | Inr p \<Rightarrow> copy_prepared E opts bust p l s)"

text \<open>The working state of a stage.\<close>

record stage_state =
  ss_layers :: layers
  ss_config :: config_state
  ss_history :: "history_entry list"
  ss_args :: "(string, string option) assoc"
  ss_name :: "string option"

fun as_name :: "string list \<Rightarrow> string option" where
  "as_name (a # b # ws) = (if eq_ignore_ascii_case a ''AS'' then Some b else as_name (b # ws))"
| "as_name ws = None"

definition with_store :: "(image_store \<Rightarrow> (store_error, 'a) result \<times> image_store) \<Rightarrow> 'a build" where
  "with_store f s =
     (case f (bs_store s) of
        (Inl e, st) \<Rightarrow> (Err (Store_Failed e), s\<lparr>bs_store := st\<rparr>)
      | (Inr x, st) \<Rightarrow> (Ok x, s\<lparr>bs_store := st\<rparr>))"

definition pull_image :: "build_env \<Rightarrow> image_ref \<Rightarrow> unit build" where
  "pull_image E r s =
     (case be_pull E r (bs_store s) of
        (Inl m, st) \<Rightarrow> (Err (Pull_Failed m), s\<lparr>bs_store := st\<rparr>)
      | (Inr _, st) \<Rightarrow> (Ok (), s\<lparr>bs_store := st\<rparr>))"

definition resolve_or_pull :: "build_env \<Rightarrow> string \<Rightarrow> string build" where
  "resolve_or_pull E base s =
     (case with_store (resolve_image (be_fresh E) base) s of
        (Inr i, s1) \<Rightarrow> (Ok i, s1)
      | (Inl _, s1) \<Rightarrow>
          bind_build (send (''Pulling '' @ base @ ''...'')) (\<lambda>_.
          bind_build (lift_build (case image_ref_parse base of Inl e \<Rightarrow> Err (Store_Failed (Bad_Reference e)) | Inr r \<Rightarrow> Ok r)) (\<lambda>r.
          bind_build (pull_image E r) (\<lambda>_. with_store (resolve_image (be_fresh E) base)))) s1)"

definition from_step :: "build_env \<Rightarrow> from_stages \<Rightarrow> (string, string) assoc \<Rightarrow> instruction \<Rightarrow> stage_state \<Rightarrow> stage_state build" where
  "from_step E st globals inst g =
     (let ws = split_whitespace (expand_vars globals (in_args inst));
          base = (case ws of [] \<Rightarrow> [] | w # _ \<Rightarrow> w);
          g1 = g\<lparr>ss_name := as_name ws\<rparr> in
      if base = ''scratch'' then lift_build (Ok (g1\<lparr>ss_layers := ([], []), ss_config := empty_config, ss_history := []\<rparr>))
      else
        (case assoc_get (fs_named st) base of
           Some p \<Rightarrow> lift_build (Ok (g1\<lparr>ss_layers := (sg_chain p, sg_blobs p), ss_config := sg_config p, ss_history := sg_history p\<rparr>))
         | None \<Rightarrow>
             bind_build (resolve_or_pull E base) (\<lambda>i s.
               case load_image i (bs_store s) of
                 None \<Rightarrow> (Err (Base_Missing base), s)
               | Some r \<Rightarrow> (Ok (g1\<lparr>ss_layers := (im_diff_ids r, im_layer_blobs r), ss_config := from_image_record r,
                                  ss_history := im_history r\<rparr>), s))))"

section \<open>Instructions\<close>

definition set_config :: "config_state \<Rightarrow> stage_state \<Rightarrow> stage_state build" where
  "set_config c g = lift_build (Ok (g\<lparr>ss_config := c\<rparr>))"

definition workdir_after :: "string \<Rightarrow> string \<Rightarrow> string" where
  "workdir_after old wd =
     (if starts_with ''/'' wd then wd else if old = [] then ''/'' @ wd else trim_end_char CHR ''/'' old @ ''/'' @ wd)"

definition port_key :: "string \<Rightarrow> string" where
  "port_key p = (if CHR ''/'' \<in> set p then p else p @ ''/tcp'')"

definition command_of :: "instruction \<Rightarrow> (string \<times> string) list \<Rightarrow> string list" where
  "command_of inst scope =
     (case in_json_args inst of Some j \<Rightarrow> j | None \<Rightarrow> [''/bin/sh'', ''-c'', expand_vars scope (in_args inst)])"

definition arg_step :: "build_options \<Rightarrow> (string, string) assoc \<Rightarrow> instruction \<Rightarrow> stage_state \<Rightarrow> stage_state build" where
  "arg_step opts globals inst g =
     bind_build (lift_build (parse_arg_decl (in_args inst))) (\<lambda>(name, dflt) s.
       (Ok (g\<lparr>ss_args := assoc_put (ss_args g) name (resolve_stage_arg name dflt (bo_build_args opts) globals)\<rparr>),
        s\<lparr>bs_declared := insert_new name (bs_declared s)\<rparr>))"

text \<open>Instructions that change the configuration only; \<open>None\<close> for the others.\<close>

definition config_step :: "build_env \<Rightarrow> instruction \<Rightarrow> (string \<times> string) list \<Rightarrow> config_state \<Rightarrow> config_state option" where
  "config_step E inst scope c =
     (let v = in_verb inst; expanded = expand_vars scope (in_args inst) in
      if v = ''ENV'' then Some (apply_env expanded c)
      else if v = ''WORKDIR'' then Some (c\<lparr>cs_workdir := workdir_after (cs_workdir c) expanded\<rparr>)
      else if v = ''USER'' then Some (c\<lparr>cs_user := expanded\<rparr>)
      else if v = ''LABEL'' then Some (c\<lparr>cs_labels := fold (\<lambda>(k, x) m. assoc_put m k x) (parse_key_values expanded) (cs_labels c)\<rparr>)
      else if v = ''EXPOSE'' then
        Some (c\<lparr>cs_exposed_ports := fold (\<lambda>p m. assoc_put m (port_key p) (JObj [])) (split_whitespace (in_args inst)) (cs_exposed_ports c)\<rparr>)
      else if v = ''VOLUME'' then
        Some (c\<lparr>cs_volumes := fold (\<lambda>p m. assoc_put m p (JObj [])) (parse_json_or_words (be_json E) (in_args inst)) (cs_volumes c)\<rparr>)
      else if v = ''STOPSIGNAL'' then Some (c\<lparr>cs_stop_signal := expanded\<rparr>)
      else if v = ''CMD'' then Some (c\<lparr>cs_cmd := Some (command_of inst scope)\<rparr>)
      else if v = ''ENTRYPOINT'' then Some (c\<lparr>cs_entrypoint := Some (command_of inst scope)\<rparr>)
      else if v = ''HEALTHCHECK'' then Some (c\<lparr>cs_healthcheck := parse_healthcheck (be_json E) (in_args inst)\<rparr>)
      else None)"

definition with_layers :: "layers build \<Rightarrow> stage_state \<Rightarrow> stage_state build" where
  "with_layers m g = bind_build m (\<lambda>l. lift_build (Ok (g\<lparr>ss_layers := l\<rparr>)))"

definition apply_instruction ::
  "build_env \<Rightarrow> build_options \<Rightarrow> (string, string) assoc \<Rightarrow> (string, string) assoc \<Rightarrow> from_stages \<Rightarrow> bool
    \<Rightarrow> instruction \<Rightarrow> stage_state \<Rightarrow> stage_state build" where
  "apply_instruction E opts secrets globals st bust inst g =
     (let v = in_verb inst; scope = merge_scope (env_pairs (ss_config g)) (ss_args g) in
      if v = ''FROM'' then from_step E st globals inst g
      else if v = ''RUN'' then with_layers (run_layer E opts secrets bust inst scope (ss_config g) (ss_layers g)) g
      else if v = ''COPY'' \<or> v = ''ADD'' then with_layers (copy_layer E opts st bust inst scope (ss_layers g)) g
      else if v = ''ARG'' then arg_step opts globals inst g
      else if v = ''SHELL'' then
        (case in_json_args inst of
           Some sh \<Rightarrow> if sh = [] then lift_build (Err Bad_Shell) else set_config ((ss_config g)\<lparr>cs_shell := sh\<rparr>) g
         | None \<Rightarrow> lift_build (Err Bad_Shell))
      else if v = ''MAINTAINER'' then bind_build (send ''Warning: MAINTAINER is deprecated'') (\<lambda>_. lift_build (Ok g))
      else if v = ''ONBUILD'' then bind_build (send ''Warning: ONBUILD triggers are not stored'') (\<lambda>_. lift_build (Ok g))
      else
        (case config_step E inst scope (ss_config g) of
           Some c \<Rightarrow> set_config c g
         | None \<Rightarrow> bind_build (send (''Skipping unsupported instruction '' @ v)) (\<lambda>_. lift_build (Ok g))))"

definition history_row :: "build_env \<Rightarrow> instruction \<Rightarrow> history_entry list" where
  "history_row E inst =
     (if in_verb inst \<in> {''FROM'', ''MAINTAINER'', ''ONBUILD''} then []
      else [\<lparr>hi_created = be_now E, hi_created_by = render_history inst, hi_created_for = None, hi_author = None, hi_comment = None,
             hi_empty_layer = (if in_verb inst \<in> {''RUN'', ''COPY'', ''ADD''} then None else Some True)\<rparr>])"

definition build_instruction ::
  "build_env \<Rightarrow> build_options \<Rightarrow> (string, string) assoc \<Rightarrow> (string, string) assoc \<Rightarrow> from_stages \<Rightarrow> bool
    \<Rightarrow> nat \<Rightarrow> nat \<times> instruction \<Rightarrow> stage_state \<Rightarrow> stage_state build" where
  "build_instruction E opts secrets globals st bust n p g =
     (case p of (idx, inst) \<Rightarrow>
      bind_build (send (''Step '' @ show_nat (idx + 1) @ ''/'' @ show_nat n @ '' : '' @ in_verb inst @ '' '' @ in_args inst)) (\<lambda>_.
      bind_build (apply_instruction E opts secrets globals st bust inst g) (\<lambda>g'.
        lift_build (Ok (g'\<lparr>ss_history := ss_history g' @ history_row E inst\<rparr>)))))"

fun build_instructions ::
  "build_env \<Rightarrow> build_options \<Rightarrow> (string, string) assoc \<Rightarrow> (string, string) assoc \<Rightarrow> from_stages \<Rightarrow> bool
    \<Rightarrow> nat \<Rightarrow> (nat \<times> instruction) list \<Rightarrow> stage_state \<Rightarrow> stage_state build" where
  "build_instructions E opts secrets globals st bust n [] g = lift_build (Ok g)"
| "build_instructions E opts secrets globals st bust n (p # ps) g =
     bind_build (build_instruction E opts secrets globals st bust n p g) (build_instructions E opts secrets globals st bust n ps)"

definition fresh_stage :: stage_state where
  "fresh_stage = \<lparr>ss_layers = ([], []), ss_config = empty_config, ss_history = [], ss_args = [], ss_name = None\<rparr>"

definition finish_stage :: "stage_state \<Rightarrow> stage_result" where
  "finish_stage g = \<lparr>sg_chain = fst (ss_layers g), sg_blobs = snd (ss_layers g), sg_config = ss_config g, sg_history = ss_history g\<rparr>"

definition add_stage :: "stage_state \<Rightarrow> from_stages \<Rightarrow> from_stages" where
  "add_stage g st =
     \<lparr>fs_named = (case ss_name g of Some name \<Rightarrow> assoc_put (fs_named st) name (finish_stage g) | None \<Rightarrow> fs_named st),
      fs_ordered = fs_ordered st @ [fst (ss_layers g)]\<rparr>"

text \<open>The stages up to the last one that is wanted; the result of the last one is the image.\<close>

fun build_stages ::
  "build_env \<Rightarrow> build_options \<Rightarrow> (string, string) assoc \<Rightarrow> (string, string) assoc \<Rightarrow> nat option \<Rightarrow> nat \<Rightarrow> nat
    \<Rightarrow> (nat \<times> (nat \<times> instruction) list) list \<Rightarrow> from_stages \<Rightarrow> stage_result build" where
  "build_stages E opts secrets globals bust_start last_stage n [] st =
     lift_build (Ok \<lparr>sg_chain = [], sg_blobs = [], sg_config = empty_config, sg_history = []\<rparr>)"
| "build_stages E opts secrets globals bust_start last_stage n ((sidx, ps) # rest) st =
     bind_build (build_instructions E opts secrets globals st (case bust_start of Some b \<Rightarrow> b \<le> sidx | None \<Rightarrow> False) n ps fresh_stage) (\<lambda>g.
       if sidx = last_stage then lift_build (Ok (finish_stage g))
       else build_stages E opts secrets globals bust_start last_stage n rest (add_stage g st))"

section \<open>The image\<close>

fun group_stages :: "(nat \<times> instruction) list \<Rightarrow> (nat \<times> instruction) list list \<Rightarrow> (nat \<times> instruction) list list" where
  "group_stages [] stages = stages"
| "group_stages ((idx, i) # is) stages =
     group_stages is
       (if in_verb i = ''FROM'' then stages @ [[(idx, i)]]
        else if stages = [] then [] else butlast stages @ [last stages @ [(idx, i)]])"

definition stage_named :: "string \<Rightarrow> (nat \<times> instruction) list \<Rightarrow> bool" where
  "stage_named t ps =
     (case ps of
        [] \<Rightarrow> False
      | (_, i) # _ \<Rightarrow> (case as_name (split_whitespace (in_args i)) of Some n \<Rightarrow> eq_ignore_ascii_case n t | None \<Rightarrow> False))"

definition resolve_stage_index :: "(nat \<times> instruction) list list \<Rightarrow> string \<Rightarrow> nat option" where
  "resolve_stage_index stages sel =
     (let t = trim sel;
          by_name = map_option fst (find (\<lambda>(_, ps). stage_named t ps) (enumerate 0 stages)) in
      if t = [] then None
      else (case parse_u64 t of
              Some i \<Rightarrow> if i < length stages then Some i else by_name
            | None \<Rightarrow> by_name))"

fun global_args ::
  "(string, string) assoc \<Rightarrow> instruction list \<Rightarrow> (string, string) assoc \<Rightarrow> string list
    \<Rightarrow> (build_failure, (string, string) assoc \<times> string list) result" where
  "global_args build_args [] globals declared = Ok (globals, declared)"
| "global_args build_args (i # is) globals declared =
     (if in_verb i = ''FROM'' then Ok (globals, declared)
      else if in_verb i \<noteq> ''ARG'' then global_args build_args is globals declared
      else and_then (parse_arg_decl (in_args i)) (\<lambda>(name, dflt).
        global_args build_args is
          (case assoc_get build_args name of
             Some v \<Rightarrow> assoc_put globals name v
           | None \<Rightarrow> (case dflt of Some v \<Rightarrow> assoc_put globals name v | None \<Rightarrow> globals))
          (insert_new name declared)))"

definition image_config :: "config_state \<Rightarrow> container_config" where
  "image_config c = \<lparr>c_Hostname = [], c_Domainname = [], c_User = cs_user c, c_AttachStdin = False, c_AttachStdout = False,
     c_AttachStderr = False, c_ExposedPorts = (if cs_exposed_ports c = [] then None else Some (cs_exposed_ports c)),
     c_Tty = False, c_OpenStdin = False, c_StdinOnce = False, c_Env = cs_env c,
     c_Cmd = (case cs_cmd c of Some x \<Rightarrow> x | None \<Rightarrow> []), c_Healthcheck = cs_healthcheck c, c_ArgsEscaped = False, c_Image = [],
     c_Volumes = (if cs_volumes c = [] then None else Some (cs_volumes c)), c_WorkingDir = cs_workdir c,
     c_Entrypoint = cs_entrypoint c, c_OnBuild = None, c_Labels = cs_labels c, c_StopSignal = cs_stop_signal c,
     c_StopTimeout = None, c_Shell = None\<rparr>"

definition blob_sizes :: "build_env \<Rightarrow> build_state \<Rightarrow> string list \<Rightarrow> int" where
  "blob_sizes E s blobs =
     sum_list (map (\<lambda>d. if blob_name d \<in> set (st_blobs (bs_store s)) then be_size E d else 0) blobs)"

definition built_record :: "build_env \<Rightarrow> build_options \<Rightarrow> build_state \<Rightarrow> stage_result \<Rightarrow> image_record" where
  "built_record E opts s g =
     \<lparr>im_id = be_sha E (be_config_json E (sg_config g) (sg_chain g) (sg_history g)), im_manifest_digest = [],
      im_repo_tags = bo_tags opts, im_repo_digests = [], im_created = be_now E, im_created_unix = be_now_unix E,
      im_architecture = ''amd64'', im_os = ''linux'', im_author = [], im_comment = [],
      im_docker_version = ''ingot/'' @ be_version E, im_diff_ids = sg_chain g, im_layer_blobs = sg_blobs g,
      im_size = blob_sizes E s (sg_blobs g), im_config = image_config (sg_config g), im_history = sg_history g,
      im_chain_ids = compute_chain_ids (be_sha E) (sg_chain g)\<rparr>"

definition write_config :: "build_env \<Rightarrow> string \<Rightarrow> unit build" where
  "write_config E i s =
     (if be_write_config E
      then (Ok (), s\<lparr>bs_store := (bs_store s)\<lparr>st_blobs := insert_new i (st_blobs (bs_store s))\<rparr>\<rparr>)
      else (Err (Commit_Failed ''config''), s))"

fun tag_all :: "build_env \<Rightarrow> string \<Rightarrow> string list \<Rightarrow> unit build" where
  "tag_all E i [] = lift_build (Ok ())"
| "tag_all E i (t # ts) = bind_build (with_store (tag_image (be_io E) i t)) (\<lambda>_. tag_all E i ts)"

definition store_image :: "build_env \<Rightarrow> build_options \<Rightarrow> stage_result \<Rightarrow> string build" where
  "store_image E opts g =
     bind_build (write_config E (be_sha E (be_config_json E (sg_config g) (sg_chain g) (sg_history g)))) (\<lambda>_ s.
       (let r = built_record E opts s g in
        bind_build (with_store (put_image_merged (be_io E) r)) (\<lambda>_.
        bind_build (tag_all E (im_id r) (bo_tags opts)) (\<lambda>_.
        bind_build (send (''Successfully built '' @ take 12 (im_id r))) (\<lambda>_.
        bind_build (send (''Successfully tagged '' @ join_with '', '' (bo_tags opts))) (\<lambda>_. lift_build (Ok (im_id r)))))) s))"

definition unused_args :: "build_options \<Rightarrow> build_state \<Rightarrow> string list" where
  "unused_args opts s = filter (\<lambda>k. k \<notin> set (bs_declared s)) (assoc_keys (bo_build_args opts))"

definition warn_unused :: "build_options \<Rightarrow> unit build" where
  "warn_unused opts s = send_all (map (\<lambda>k. ''[Warning] One or more build-args were not consumed: ['' @ k @ '']'') (unused_args opts s)) s"

definition min_index :: "nat list \<Rightarrow> nat option" where
  "min_index is = (case is of [] \<Rightarrow> None | i # rest \<Rightarrow> Some (fold min rest i))"

definition build_image :: "build_env \<Rightarrow> build_options \<Rightarrow> (string, string) assoc \<Rightarrow> string build" where
  "build_image E opts secrets =
     bind_build (send ''Step 0 : parsing Dockerfile'') (\<lambda>_.
     bind_build (lift_build (case parse_dockerfile (be_json E) (bo_dockerfile opts) of Inl e \<Rightarrow> Err (Parse_Failed e) | Inr is \<Rightarrow> Ok is)) (\<lambda>is.
       let stages = group_stages (enumerate 0 is) [];
           last_stage = (case Option.bind (bo_target opts) (resolve_stage_index stages) of Some i \<Rightarrow> i | None \<Rightarrow> length stages - 1);
           bust_start = min_index (List.map_filter (resolve_stage_index stages) (bo_no_cache_filter opts)) in
     bind_build (lift_build (global_args (bo_build_args opts) is [] [])) (\<lambda>(globals, declared) s.
     bind_build (build_stages E opts secrets globals bust_start last_stage (length is) (enumerate 0 stages) \<lparr>fs_named = [], fs_ordered = []\<rparr>) (\<lambda>g.
     bind_build (warn_unused opts) (\<lambda>_. store_image E opts g)) (s\<lparr>bs_declared := declared\<rparr>))))"

section \<open>Secrets\<close>

text \<open>A step that does not depend on the values of its secrets, only on where they are mounted.\<close>

definition secret_shape :: "resolved_secret \<Rightarrow> string \<times> nat" where
  "secret_shape x = (rs_target x, rs_mode x)"

definition steps_blind :: "build_env \<Rightarrow> bool" where
  "steps_blind E \<longleftrightarrow>
     (\<forall>r vs ws. map secret_shape vs = map secret_shape ws \<longrightarrow> be_run E (r\<lparr>rr_secrets := vs\<rparr>) = be_run E (r\<lparr>rr_secrets := ws\<rparr>))"

definition same_ids :: "(string, string) assoc \<Rightarrow> (string, string) assoc \<Rightarrow> bool" where
  "same_ids a b \<longleftrightarrow> (\<forall>i. has_key a i \<longleftrightarrow> has_key b i)"

lemma resolve_secrets_shape:
  assumes "same_ids a b"
  shows "case resolve_secrets ms a of
     Inl e \<Rightarrow> resolve_secrets ms b = Err e
   | Inr vs \<Rightarrow> \<exists>ws. resolve_secrets ms b = Ok ws \<and> map secret_shape ws = map secret_shape vs"
proof (induction ms)
  case (Cons m ms)
  have "assoc_get a (sm_id m) = None \<longleftrightarrow> assoc_get b (sm_id m) = None"
    using assms unfolding same_ids_def has_key_def by blast
  then show ?case using Cons
    by (cases "assoc_get a (sm_id m)"; cases "assoc_get b (sm_id m)"; cases "resolve_secrets ms a")
       (auto simp: and_then_def secret_shape_def split: sum.splits)
qed simp

lemma run_layer_blind:
  assumes "steps_blind E" "same_ids a b"
  shows "run_layer E opts a bust inst env c l s = run_layer E opts b bust inst env c l s"
proof (cases "parse_secret_mounts inst")
  case (Inl e)
  then show ?thesis by (simp add: run_layer_def bind_build_def lift_build_def and_then_def)
next
  case (Inr ms)
  show ?thesis
  proof (cases "resolve_secrets ms a")
    case (Inl e)
    then show ?thesis using Inr resolve_secrets_shape [OF assms(2), of ms]
      by (simp add: run_layer_def bind_build_def lift_build_def and_then_def resolve_secret_mounts_def)
  next
    case (Inr vs)
    then obtain ws where ws: "resolve_secrets ms b = Ok ws" "map secret_shape ws = map secret_shape vs"
      using resolve_secrets_shape [OF assms(2), of ms] by auto
    have run: "be_run E \<lparr>rr_lowers = lo, rr_argv = av, rr_env = en, rr_workdir = wd, rr_secrets = vs\<rparr>
        = be_run E \<lparr>rr_lowers = lo, rr_argv = av, rr_env = en, rr_workdir = wd, rr_secrets = ws\<rparr>" for lo av en wd
      using assms(1) ws(2) unfolding steps_blind_def by (metis run_request.update_convs(5))
    show ?thesis using Inr ws(1) \<open>parse_secret_mounts inst = Inr ms\<close>
      by (simp add: run_layer_def bind_build_def lift_build_def and_then_def resolve_secret_mounts_def run Let_def split: option.split)
  qed
qed

lemma build_instructions_blind:
  assumes "steps_blind E" "same_ids a b"
  shows "build_instructions E opts a globals st bust n ps g = build_instructions E opts b globals st bust n ps g"
proof (induction ps arbitrary: g)
  case (Cons p ps)
  have run: "run_layer E opts a = run_layer E opts b" by (intro ext run_layer_blind [OF assms])
  have step: "build_instruction E opts a globals st bust n p g = build_instruction E opts b globals st bust n p g"
    unfolding build_instruction_def apply_instruction_def run by (rule refl)
  have rest: "build_instructions E opts a globals st bust n ps = build_instructions E opts b globals st bust n ps"
    by (intro ext) (simp only: Cons.IH)
  show ?case unfolding build_instructions.simps step rest by (rule refl)
qed simp

lemma build_stages_blind:
  assumes "steps_blind E" "same_ids a b"
  shows "build_stages E opts a globals bs ls n sts st = build_stages E opts b globals bs ls n sts st"
proof (induction sts arbitrary: st)
  case (Cons p sts)
  obtain sidx ps where p: "p = (sidx, ps)" by (cases p)
  show ?case unfolding p build_stages.simps Cons.IH build_instructions_blind [OF assms, of opts globals st _ n ps fresh_stage] by simp
qed simp


section \<open>Invariants of a build\<close>

text \<open>A computation keeps \<open>I\<close> and returns values that satisfy \<open>Q\<close>.\<close>

definition ensures :: "(build_state \<Rightarrow> bool) \<Rightarrow> 'a build \<Rightarrow> ('a \<Rightarrow> bool) \<Rightarrow> bool" where
  "ensures I m Q \<longleftrightarrow> (\<forall>s. I s \<longrightarrow> I (snd (m s)) \<and> (\<forall>x. fst (m s) = Ok x \<longrightarrow> Q x))"

lemma ensures_bind:
  assumes "ensures I m P" "\<And>x. P x \<Longrightarrow> ensures I (f x) Q"
  shows "ensures I (bind_build m f) Q"
  unfolding ensures_def
proof (intro allI impI)
  fix s assume "I s"
  obtain r s' where m: "m s = (r, s')" by fastforce
  then have "I s'" "\<And>x. r = Ok x \<Longrightarrow> P x" using assms(1) \<open>I s\<close> by (auto simp: ensures_def dest: spec [of _ s])
  then show "I (snd (bind_build m f s)) \<and> (\<forall>x. fst (bind_build m f s) = Ok x \<longrightarrow> Q x)"
    using assms(2) m by (cases r) (auto simp: bind_build_def ensures_def)
qed

lemma ensures_lift: "(\<And>x. r = Ok x \<Longrightarrow> Q x) \<Longrightarrow> ensures I (lift_build r) Q"
  by (simp add: ensures_def lift_build_def)

lemma ensures_weaken: "ensures I m P \<Longrightarrow> (\<And>x. P x \<Longrightarrow> Q x) \<Longrightarrow> ensures I m Q"
  by (simp add: ensures_def)

lemma ensures_fail: "ensures I (\<lambda>s. (Err e, s)) Q"
  by (simp add: ensures_def)

lemma ensures_option:
  "(\<And>x. ensures I (f x) Q) \<Longrightarrow> ensures I g Q \<Longrightarrow> ensures I (\<lambda>s. case h s of Some x \<Rightarrow> f x s | None \<Rightarrow> g s) Q"
  by (simp add: ensures_def split: option.splits)

text \<open>Rows of the history that stand for a layer, and records whose lists agree.\<close>

definition layer_rows :: "history_entry list \<Rightarrow> nat" where
  "layer_rows h = length (filter (\<lambda>e. hi_empty_layer e \<noteq> Some True) h)"

definition aligned :: "string list \<Rightarrow> string list \<Rightarrow> history_entry list \<Rightarrow> bool" where
  "aligned diffs blobs h \<longleftrightarrow> length blobs = length diffs \<and> layer_rows h = length diffs"

definition store_aligned :: "image_store \<Rightarrow> bool" where
  "store_aligned st \<longleftrightarrow> (\<forall>i r. load_image i st = Some r \<longrightarrow> aligned (im_diff_ids r) (im_layer_blobs r) (im_history r))"

definition store_good :: "image_store \<Rightarrow> bool" where
  "store_good st \<longleftrightarrow> store_ok st \<and> store_aligned st"

abbreviation build_inv :: "build_state \<Rightarrow> bool" where
  "build_inv \<equiv> \<lambda>s. store_good (bs_store s)"

lemma store_good_frame [simp]:
  "store_good (st\<lparr>st_blobs := b\<rparr>) \<longleftrightarrow> store_good st" "store_good (st\<lparr>st_layers := y\<rparr>) \<longleftrightarrow> store_good st"
  by (simp_all add: store_good_def store_ok_def store_aligned_def ids_match_def tags_of_def load_image_def list_uncached_def)

definition layers_ok :: "layers \<Rightarrow> bool" where
  "layers_ok l \<longleftrightarrow> length (snd l) = length (fst l)"

lemma ensures_send: "ensures build_inv (send m) (\<lambda>_. True)"
  by (simp add: ensures_def send_def)

lemma ensures_send_all: "ensures build_inv (send_all ms) (\<lambda>_. True)"
  by (induction ms) (auto intro!: ensures_bind [OF ensures_send] ensures_lift)

lemma ensures_commit: "ensures build_inv (commit_layer E dir) (\<lambda>_. True)"
  by (auto simp: ensures_def commit_layer_def Let_def split: option.splits)

definition grown :: "layers \<Rightarrow> layers \<Rightarrow> bool" where
  "grown l l' \<longleftrightarrow> (layers_ok l \<longrightarrow> layers_ok l') \<and> length (fst l') = Suc (length (fst l))"

lemma ensures_commit_step: "ensures build_inv (commit_step E key dir l) (grown l)"
  unfolding commit_step_def
  by (rule ensures_bind [OF ensures_commit]) (auto simp: ensures_def cache_store_def grown_def layers_ok_def split: prod.splits)

lemma ensures_reuse: "ensures build_inv (reuse_layer hit l) (grown l)"
  unfolding reuse_layer_def by (rule ensures_bind [OF ensures_send], rule ensures_lift) (auto simp: grown_def layers_ok_def)

lemma ensures_run_layer: "ensures build_inv (run_layer E opts secrets bust inst env c l) (grown l)"
  unfolding run_layer_def
proof (rule ensures_bind [OF ensures_lift [of _ "\<lambda>_. True"]])
  fix x :: "string \<times> resolved_secret list"
  obtain mounts resolved where x: "x = (mounts, resolved)" by (cases x)
  define key where "key = run_cache_key (be_sha E) (inputs_of inst env c mounts (fst l))"
  define out where "out = be_run E \<lparr>rr_lowers = rev (map layer_name (fst l)), rr_argv = run_argv inst env (cs_shell c), rr_env = env,
      rr_workdir = cs_workdir c, rr_secrets = resolved\<rparr>"
  have step: "ensures build_inv (bind_build (send_all (map (\<lambda>x. ''  '' @ x) (lines outp))) (\<lambda>_.
       if code \<noteq> 0 then lift_build (Err (Exit_Code code)) else commit_step E key (filter (\<lambda>e. \<not> in_context_dir e) dir) l)) (grown l)"
    for outp code dir
    by (rule ensures_bind [OF ensures_send_all]) (auto intro: ensures_lift ensures_commit_step)
  show "ensures build_inv (case x of (mounts, resolved) \<Rightarrow> \<lambda>s. let key = run_cache_key (be_sha E) (inputs_of inst env c mounts (fst l)) in
       case usable_hit E opts bust key s of
         Some hit \<Rightarrow> reuse_layer hit l s
       | None \<Rightarrow>
          (case be_run E \<lparr>rr_lowers = rev (map layer_name (fst l)), rr_argv = run_argv inst env (cs_shell c), rr_env = env,
                          rr_workdir = cs_workdir c, rr_secrets = resolved\<rparr> of
             Inl e \<Rightarrow> (Err (Step_Failed e), s)
           | Inr (code, output, dir) \<Rightarrow>
               bind_build (send_all (map (\<lambda>x. ''  '' @ x) (lines output))) (\<lambda>_.
                 if code \<noteq> 0 then lift_build (Err (Exit_Code code))
                 else commit_step E key (filter (\<lambda>e. \<not> in_context_dir e) dir) l) s)) (grown l)"
    unfolding x prod.case key_def [symmetric] out_def [symmetric] Let_def
  proof (rule ensures_option [OF ensures_reuse], cases out)
    fix p assume p: "out = Inr p"
    obtain code outp dir where "p = (code, outp, dir)" by (cases p)
    then show "ensures build_inv (\<lambda>s. case out of Inl e \<Rightarrow> (Err (Step_Failed e), s)
        | Inr (code, output, dir) \<Rightarrow> bind_build (send_all (map (\<lambda>x. ''  '' @ x) (lines output))) (\<lambda>_.
             if code \<noteq> 0 then lift_build (Err (Exit_Code code)) else commit_step E key (filter (\<lambda>e. \<not> in_context_dir e) dir) l) s) (grown l)"
      unfolding p using step [of outp code dir] by (simp only: sum.case prod.case)
  qed (simp only: sum.case ensures_fail)
qed simp

lemma ensuresD:
  assumes "ensures I m Q" "I s"
  shows "I (snd (m s))" "fst (m s) = Ok x \<Longrightarrow> Q x"
  using assms by (auto simp: ensures_def)

lemma ensures_copy_layer: "ensures build_inv (copy_layer E opts st bust inst env l) (grown l)"
proof -
  have "ensures build_inv (copy_prepared E opts bust p l) (grown l)" for p
    unfolding copy_prepared_def
    by (rule ensures_option [OF ensures_reuse], cases "copy_files E p") (simp_all add: ensures_fail ensures_commit_step)
  then show ?thesis by (auto simp: ensures_def copy_layer_def split: sum.splits)
qed

lemma ensures_with_store:
  assumes "\<And>st. store_good st \<Longrightarrow> store_good (snd (f st))"
  shows "ensures build_inv (with_store f) (\<lambda>_. True)"
  using assms by (auto simp: ensures_def with_store_def split: prod.splits sum.splits) (metis snd_conv)+

lemma cached_good: "store_good st \<Longrightarrow> store_good (snd (resolve_image fresh name st))"
proof -
  assume g: "store_good st"
  have l: "store_good (snd (list_images fresh st))"
    using list_images_state [of fresh st] list_images_ok [of st fresh] g
    by (auto simp: store_good_def store_aligned_def load_image_def)
  show "store_good (snd (resolve_image fresh name st))" using resolve_image_state [of fresh name st] g l by metis
qed

definition pull_keeps :: "build_env \<Rightarrow> bool" where
  "pull_keeps E \<longleftrightarrow> (\<forall>r st. store_good st \<longrightarrow> store_good (snd (be_pull E r st)))"

lemma ensures_resolve_or_pull:
  assumes "pull_keeps E"
  shows "ensures build_inv (resolve_or_pull E base) (\<lambda>_. True)"
proof -
  have resolve: "ensures build_inv (with_store (resolve_image (be_fresh E) base)) (\<lambda>_. True)"
    by (rule ensures_with_store) (rule cached_good)
  have "ensures build_inv (pull_image E r) (\<lambda>_. True)" for r
    unfolding ensures_def
  proof (intro allI impI)
    fix s assume "build_inv s"
    then have "store_good (snd (be_pull E r (bs_store s)))" using assms by (simp add: pull_keeps_def)
    then show "build_inv (snd (pull_image E r s)) \<and> (\<forall>x. fst (pull_image E r s) = Ok x \<longrightarrow> True)"
      by (cases "be_pull E r (bs_store s)") (auto simp: pull_image_def split: sum.splits)
  qed
  then have pull: "ensures build_inv (bind_build (send (''Pulling '' @ base @ ''...'')) (\<lambda>_.
          bind_build (lift_build (case image_ref_parse base of Inl e \<Rightarrow> Err (Store_Failed (Bad_Reference e)) | Inr r \<Rightarrow> Ok r)) (\<lambda>r.
          bind_build (pull_image E r) (\<lambda>_. with_store (resolve_image (be_fresh E) base))))) (\<lambda>_. True)"
    by (intro ensures_bind [OF ensures_send] ensures_bind [OF ensures_lift [of _ "\<lambda>_. True"]] ensures_bind resolve) auto
  show ?thesis unfolding ensures_def
  proof (intro allI impI)
    fix s assume s: "build_inv s"
    obtain r s1 where r: "with_store (resolve_image (be_fresh E) base) s = (r, s1)" by fastforce
    then have "build_inv s1" using ensuresD(1) [OF resolve s] by simp
    then show "build_inv (snd (resolve_or_pull E base s)) \<and> (\<forall>x. fst (resolve_or_pull E base s) = Ok x \<longrightarrow> True)"
      using ensuresD(1) [OF pull] r by (cases r) (simp_all add: resolve_or_pull_def)
  qed
qed

text \<open>A stage and the stages before it are aligned.\<close>

definition stage_ok :: "stage_state \<Rightarrow> bool" where
  "stage_ok g \<longleftrightarrow> aligned (fst (ss_layers g)) (snd (ss_layers g)) (ss_history g)"

definition result_ok :: "stage_result \<Rightarrow> bool" where
  "result_ok g \<longleftrightarrow> aligned (sg_chain g) (sg_blobs g) (sg_history g)"

definition stages_ok :: "from_stages \<Rightarrow> bool" where
  "stages_ok st \<longleftrightarrow> (\<forall>n g. assoc_get (fs_named st) n = Some g \<longrightarrow> result_ok g)"

lemma ensures_from:
  assumes "pull_keeps E" "stages_ok st"
  shows "ensures build_inv (from_step E st globals inst g) stage_ok"
proof -
  have load: "ensures build_inv (\<lambda>s. case load_image i (bs_store s) of
       None \<Rightarrow> (Err (Base_Missing b), s)
     | Some r \<Rightarrow> (Ok (g1\<lparr>ss_layers := (im_diff_ids r, im_layer_blobs r), ss_config := from_image_record r, ss_history := im_history r\<rparr>), s)) stage_ok"
    for i b g1
    by (auto simp: ensures_def stage_ok_def store_good_def store_aligned_def split: option.splits)
  show ?thesis unfolding from_step_def Let_def
    using assms(2) ensures_bind [OF ensures_resolve_or_pull [OF assms(1)] load]
    by (auto intro!: ensures_lift simp: stages_ok_def result_ok_def stage_ok_def aligned_def layer_rows_def split: option.splits)
qed

definition step_effect :: "instruction \<Rightarrow> stage_state \<Rightarrow> stage_state \<Rightarrow> bool" where
  "step_effect inst g g' \<longleftrightarrow>
     (if in_verb inst = ''FROM'' then stage_ok g'
      else if in_verb inst \<in> {''RUN'', ''COPY'', ''ADD''} then ss_history g' = ss_history g \<and> grown (ss_layers g) (ss_layers g')
      else ss_history g' = ss_history g \<and> ss_layers g' = ss_layers g)"

lemma ensures_with_layers:
  "ensures I m (grown (ss_layers g)) \<Longrightarrow> ensures I (with_layers m g) (\<lambda>g'. ss_history g' = ss_history g \<and> grown (ss_layers g) (ss_layers g'))"
  unfolding with_layers_def by (rule ensures_bind, assumption, rule ensures_lift) auto

lemma ensures_apply:
  assumes "pull_keeps E" "stages_ok st"
  shows "ensures build_inv (apply_instruction E opts secrets globals st bust inst g) (step_effect inst g)"
proof -
  consider "in_verb inst = ''FROM''" | "in_verb inst \<in> {''RUN'', ''COPY'', ''ADD''}" | "in_verb inst = ''ARG''"
    | "in_verb inst \<notin> {''FROM'', ''RUN'', ''COPY'', ''ADD'', ''ARG''}" by blast
  then show ?thesis
  proof cases
    case 1
    then show ?thesis using ensures_weaken [OF ensures_from [OF assms], of "step_effect inst g"]
      by (simp add: apply_instruction_def step_effect_def)
  next
    case 2
    then show ?thesis
      using ensures_with_layers [OF ensures_run_layer, where g = g] ensures_with_layers [OF ensures_copy_layer, where g = g]
      by (auto simp: apply_instruction_def step_effect_def [abs_def])
  next
    case 3
    then have "apply_instruction E opts secrets globals st bust inst g = arg_step opts globals inst g" by (simp add: apply_instruction_def)
    moreover have "ensures build_inv (arg_step opts globals inst g) (step_effect inst g)"
      unfolding arg_step_def
      by (rule ensures_bind [OF ensures_lift [of _ "\<lambda>_. True"]]) (auto simp: ensures_def step_effect_def 3 split: prod.splits)
    ultimately show ?thesis by simp
  next
    case 4
    have same: "step_effect inst g (g\<lparr>ss_config := c\<rparr>)" "step_effect inst g g" for c using 4 by (simp_all add: step_effect_def)
    have "ensures build_inv (set_config c g) (step_effect inst g)" for c
      unfolding set_config_def using same(1) by (auto intro: ensures_lift)
    moreover have "ensures build_inv (bind_build (send m) (\<lambda>_. lift_build (Ok g))) (step_effect inst g)" for m
      using same(2) by (auto intro: ensures_bind [OF ensures_send] ensures_lift)
    moreover have "ensures build_inv (lift_build (Err e)) (step_effect inst g)" for e by (rule ensures_lift) simp
    ultimately show ?thesis using 4 by (simp add: apply_instruction_def Let_def split: option.split)
  qed
qed

lemma layer_rows_append [simp]: "layer_rows (a @ b) = layer_rows a + layer_rows b"
  by (simp add: layer_rows_def)

lemma history_row_rows [simp]: "layer_rows (history_row E inst) = (if in_verb inst \<in> {''RUN'', ''COPY'', ''ADD''} then 1 else 0)"
  by (auto simp: history_row_def layer_rows_def)

lemma effect_keeps_stage:
  "step_effect inst g g' \<Longrightarrow> stage_ok g \<Longrightarrow> stage_ok (g'\<lparr>ss_history := ss_history g' @ history_row E inst\<rparr>)"
  by (auto simp: step_effect_def stage_ok_def aligned_def grown_def layers_ok_def split: if_splits)

lemma ensures_instructions:
  assumes "pull_keeps E" "stages_ok st"
  shows "stage_ok g \<Longrightarrow> ensures build_inv (build_instructions E opts secrets globals st bust n ps g) stage_ok"
proof (induction ps arbitrary: g)
  case Nil
  then show ?case by (auto intro: ensures_lift)
next
  case (Cons p ps)
  have "ensures build_inv (build_instruction E opts secrets globals st bust n p g) stage_ok"
    unfolding build_instruction_def
    by (cases p) (auto intro!: ensures_bind [OF ensures_send] ensures_bind [OF ensures_apply [OF assms]] ensures_lift
        effect_keeps_stage Cons.prems)
  then show ?case using Cons.IH by (auto intro: ensures_bind)
qed

lemma ensures_stages:
  assumes "pull_keeps E"
  shows "stages_ok st \<Longrightarrow> ensures build_inv (build_stages E opts secrets globals bust_start last_stage n sts st) result_ok"
proof (induction sts arbitrary: st)
  case Nil
  then show ?case by (auto intro!: ensures_lift simp: result_ok_def aligned_def layer_rows_def)
next
  case (Cons p sts)
  obtain sidx ps where p: "p = (sidx, ps)" by (cases p)
  have fresh: "stage_ok fresh_stage" by (simp add: stage_ok_def fresh_stage_def aligned_def layer_rows_def)
  show ?case unfolding p build_stages.simps
  proof (rule ensures_bind [OF ensures_instructions [OF assms Cons.prems fresh]])
    fix g assume g: "stage_ok g"
    then have "result_ok (finish_stage g)" by (simp add: result_ok_def stage_ok_def finish_stage_def)
    moreover from this have "stages_ok (add_stage g st)"
      using Cons.prems by (auto simp: stages_ok_def add_stage_def split: option.splits if_splits)
    ultimately show "ensures build_inv (if sidx = last_stage then lift_build (Ok (finish_stage g))
        else build_stages E opts secrets globals bust_start last_stage n sts (add_stage g st)) result_ok"
      using Cons.IH by (auto intro: ensures_lift)
  qed
qed

section \<open>The finished image\<close>

lemma ensures_warn: "ensures build_inv (warn_unused opts) (\<lambda>_. True)"
  using ensures_send_all by (auto simp: ensures_def warn_unused_def)

lemma bind_build_Ok:
  "bind_build m f s = (Ok y, s') \<longleftrightarrow> (\<exists>x s1. m s = (Ok x, s1) \<and> f x s1 = (Ok y, s'))"
  by (auto simp: bind_build_def split: prod.splits sum.splits)

lemma with_store_Ok: "with_store f s = (Ok x, s') \<longleftrightarrow> (\<exists>st. f (bs_store s) = (Ok x, st) \<and> s' = s\<lparr>bs_store := st\<rparr>)"
  by (auto simp: with_store_def split: prod.splits sum.splits)

definition image_stored :: "build_env \<Rightarrow> build_options \<Rightarrow> stage_result \<Rightarrow> string \<Rightarrow> image_store \<Rightarrow> bool" where
  "image_stored E opts g i st \<longleftrightarrow>
     store_ok st \<and> (\<forall>t \<in> set (bo_tags opts). assoc_get (st_tags st) t = Some i)
     \<and> (\<exists>r. load_image i st = Some r \<and> set (bo_tags opts) \<subseteq> set (im_repo_tags r)
          \<and> im_diff_ids r = sg_chain g \<and> im_layer_blobs r = sg_blobs g \<and> im_history r = sg_history g
          \<and> im_config r = image_config (sg_config g) \<and> im_chain_ids r = compute_chain_ids (be_sha E) (sg_chain g))"

lemma tag_all_stored:
  assumes "set ts \<subseteq> set (bo_tags opts)" "image_stored E opts g i (bs_store s)" "tag_all E i ts s = (Ok x, s')"
  shows "bs_store s' = bs_store s"
  using assms
proof (induction ts arbitrary: s)
  case Nil
  then show ?case by (simp add: lift_build_def)
next
  case (Cons t ts)
  obtain r where r: "load_image i (bs_store s) = Some r" "t \<in> set (im_repo_tags r)"
    using Cons.prems(1,2) by (auto simp: image_stored_def)
  then have "tag_image (be_io E) i t (bs_store s) = (Ok (), bs_store s)" by (simp add: tag_image_def)
  then have "tag_all E i ts s = (Ok x, s')" using Cons.prems(3) by (auto simp: bind_build_Ok with_store_Ok)
  then show ?case using Cons.IH [of s] Cons.prems(1,2) by simp
qed

lemma put_image_stored:
  assumes "writes_succeed (be_io E)" "store_ok st"
    and "put_image_merged (be_io E) (built_record E opts s g) st = (res, st')"
  shows "image_stored E opts g (im_id (built_record E opts s g)) st'"
proof -
  let ?r = "built_record E opts s g"
  let ?m = "merge_record ?r (load_image (im_id ?r) st)"
  have p: "put_image (be_io E) ?m st = (res, st')" using assms(3) by (simp add: put_image_merged_def)
  note f = put_image_effect [OF assms(1,2) p]
  have "store_ok st'" using put_image_merged_ok [OF assms(1,2), of ?r] assms(3) by simp
  moreover have "set (bo_tags opts) \<subseteq> set (im_repo_tags ?m)"
    by (auto simp: merge_record_def built_record_def set_union_list split: option.splits)
  moreover have "load_image (im_id ?r) st' = Some ?m" using f by simp
  moreover have "im_diff_ids ?m = sg_chain g" "im_layer_blobs ?m = sg_blobs g" "im_history ?m = sg_history g"
    "im_config ?m = image_config (sg_config g)" "im_chain_ids ?m = compute_chain_ids (be_sha E) (sg_chain g)"
    by (simp_all add: merge_record_def built_record_def split: option.splits)
  ultimately show ?thesis using f by (auto simp: image_stored_def)
qed

lemma store_image_stored:
  assumes "writes_succeed (be_io E)" "store_ok (bs_store s)" "store_image E opts g s = (Ok i, s')"
  shows "i = be_sha E (be_config_json E (sg_config g) (sg_chain g) (sg_history g)) \<and> image_stored E opts g i (bs_store s')"
proof -
  obtain x s1 where w: "write_config E (be_sha E (be_config_json E (sg_config g) (sg_chain g) (sg_history g))) s = (Ok x, s1)"
    and rest: "(let r = built_record E opts s1 g in
        bind_build (with_store (put_image_merged (be_io E) r)) (\<lambda>_.
        bind_build (tag_all E (im_id r) (bo_tags opts)) (\<lambda>_.
        bind_build (send (''Successfully built '' @ take 12 (im_id r))) (\<lambda>_.
        bind_build (send (''Successfully tagged '' @ join_with '', '' (bo_tags opts))) (\<lambda>_. lift_build (Ok (im_id r)))))) s1) = (Ok i, s')"
    using assms(3) unfolding store_image_def bind_build_Ok by blast
  have ok: "store_ok (bs_store s1)" using w assms(2)
    by (auto simp: write_config_def store_ok_def ids_match_def tags_of_def load_image_def list_uncached_def split: if_splits)
  define r where "r = built_record E opts s1 g"
  obtain st where p: "put_image_merged (be_io E) r (bs_store s1) = (Ok (), st)"
    and t: "\<exists>y s2. tag_all E (im_id r) (bo_tags opts) (s1\<lparr>bs_store := st\<rparr>) = (Ok y, s2) \<and> bs_store s' = bs_store s2" and i: "i = im_id r"
    using rest unfolding r_def [symmetric] Let_def by (auto simp: bind_build_Ok with_store_Ok send_def lift_build_def)
  have "image_stored E opts g i st" using put_image_stored [OF assms(1) ok] p i unfolding r_def by blast
  then have "bs_store s' = st" using t tag_all_stored [of "bo_tags opts" opts E g i "s1\<lparr>bs_store := st\<rparr>"] i by auto
  then show ?thesis using \<open>image_stored E opts g i st\<close> i by (simp add: r_def built_record_def)
qed

lemma length_chain_ids: "length (chain_ids_from sha p ds) = length ds"
  by (induction ds arbitrary: p) (simp_all add: Let_def)

lemma build_image_parts:
  assumes "pull_keeps E" "store_good (bs_store s)" "build_image E opts secrets s = (Ok i, s')"
  shows "\<exists>g s3. result_ok g \<and> store_good (bs_store s3) \<and> store_image E opts g s3 = (Ok i, s')"
proof -
  obtain globals bust_start last_stage n sts g s1 s2 u s3 where
      st: "build_stages E opts secrets globals bust_start last_stage n sts \<lparr>fs_named = [], fs_ordered = []\<rparr> s1 = (Ok g, s2)"
    and w: "warn_unused opts s2 = (Ok u, s3)" and f: "store_image E opts g s3 = (Ok i, s')" and s1: "bs_store s1 = bs_store s"
    using assms(3) by (auto simp: build_image_def bind_build_Ok send_def lift_build_def Let_def split: prod.splits)
  have "stages_ok \<lparr>fs_named = [], fs_ordered = []\<rparr>" by (simp add: stages_ok_def assoc_get_def)
  note e = ensures_stages [OF assms(1) this, of opts secrets globals bust_start last_stage n sts]
  have "build_inv s1" using assms(2) s1 by simp
  then have "result_ok g" "store_good (bs_store s2)" using ensuresD [OF e, of s1] st by auto
  moreover from this have "store_good (bs_store s3)" using ensuresD(1) [OF ensures_warn, of s2 opts] w by auto
  ultimately show ?thesis using f by blast
qed


section \<open>A sample build\<close>

definition sample_build_env :: build_env where
  "sample_build_env =
     \<lparr>be_sha = (\<lambda>s. take 64 (rev s @ replicate 64 CHR ''0'')), be_now = ''2024-05-01T00:00:00Z'', be_now_unix = 1714521600, be_version = ''1'',
      be_json = (\<lambda>_. None), be_canon = (\<lambda>p. Some p), be_context = (\<lambda>p. Src_File p None), be_lookup = (\<lambda>_ _. Src_Missing), be_entries = (\<lambda>_. []),
      be_run = (\<lambda>r. Ok (0, ''done'', [\<lparr>we_rel = concat (rr_lowers r) @ concat (rr_argv r), we_kind = Is_File [], we_meta = None\<rparr>])),
      be_copy = (\<lambda>acts dest own. Ok [\<lparr>we_rel = path_string dest, we_kind = Is_File [], we_meta = None\<rparr>]),
      be_archive = (\<lambda>t. concat (map we_rel t)), be_gunzip = (\<lambda>b. Some (''tar'' @ b)), be_untar = (\<lambda>_. Some []), be_place = (\<lambda>_. True),
      be_pull = (\<lambda>r st. (Err ''offline'', st)), be_io = good_io, be_write_config = True,
      be_config_json = (\<lambda>c ds h. concat ds @ concat (map hi_created_by h)), be_size = (\<lambda>_. 1), be_fresh = False\<rparr>"

definition empty_build :: build_state where
  "empty_build = \<lparr>bs_store = empty_store, bs_dirs = [], bs_cache = [], bs_declared = [], bs_output = []\<rparr>"

definition sample_build_options :: build_options where
  "sample_build_options = \<lparr>bo_dockerfile = join_with [CHR 0x0A] [''ARG V=1'', ''FROM scratch AS base'', ''RUN make'', ''FROM base'', ''ARG V'', ''ENV A=$V''],
     bo_tags = [''app:1''], bo_target = None, bo_build_args = [(''V'', ''2'')], bo_nocache = False, bo_no_cache_filter = []\<rparr>"

lemma sample_surroundings:
  "writes_succeed (be_io sample_build_env)" "pull_keeps sample_build_env" "store_good (bs_store empty_build)" "steps_blind sample_build_env"
proof -
  show "writes_succeed (be_io sample_build_env)" by (simp add: sample_build_env_def)
  show "pull_keeps sample_build_env" by (simp add: pull_keeps_def sample_build_env_def)
  show "store_good (bs_store empty_build)"
    using empty_store_ok by (simp add: store_good_def store_aligned_def empty_build_def empty_store_def load_image_def assoc_get_def)
  show "steps_blind sample_build_env" by (simp add: steps_blind_def sample_build_env_def)
qed

lemma sample_build_result:
  "map_sum (\<lambda>_. ()) length (fst (build_image sample_build_env sample_build_options [] empty_build)) = Ok 64"
  by code_simp



section \<open>Where the builder differs from its comments\<close>

text \<open>The key of a step names the last layer below it, not the chain. A step is reused on another base
  with the same last layer, although it would give another layer there.\<close>

definition make_step :: instruction where
  "make_step = \<lparr>in_verb = ''RUN'', in_args = ''make'', in_json_args = None, in_flags = [], in_heredocs = [], in_line = 1\<rparr>"

definition after_first_base :: build_state where
  "after_first_base = snd (run_layer sample_build_env sample_build_options [] False make_step [] empty_config ([''sha256:a'', ''sha256:x''], [''p'', ''q'']) empty_build)"

lemma other_base_hits_cache:
  "map_sum (\<lambda>_. ()) (last \<circ> fst) (fst (run_layer sample_build_env sample_build_options [] False make_step [] empty_config ([''sha256:b'', ''sha256:x''], [''p'', ''q'']) after_first_base))
   = map_sum (\<lambda>_. ()) (last \<circ> fst) (fst (run_layer sample_build_env sample_build_options [] False make_step [] empty_config ([''sha256:a'', ''sha256:x''], [''p'', ''q'']) empty_build))"
  "map_sum (\<lambda>_. ()) (last \<circ> fst) (fst (run_layer sample_build_env sample_build_options [] True make_step [] empty_config ([''sha256:b'', ''sha256:x''], [''p'', ''q'']) after_first_base))
   \<noteq> map_sum (\<lambda>_. ()) (last \<circ> fst) (fst (run_layer sample_build_env sample_build_options [] False make_step [] empty_config ([''sha256:a'', ''sha256:x''], [''p'', ''q'']) empty_build))"
  by code_simp+

text \<open>A stage that continues an earlier stage keeps the shell of that stage.\<close>

lemma continued_stage_keeps_shell:
  "map_sum id (cs_shell \<circ> ss_config)
     (fst (from_step sample_build_env
        \<lparr>fs_named = [(''base'', \<lparr>sg_chain = [], sg_blobs = [], sg_config = empty_config\<lparr>cs_shell := [''pwsh'']\<rparr>, sg_history = []\<rparr>)], fs_ordered = [[]]\<rparr>
        [] (make_step\<lparr>in_verb := ''FROM'', in_args := ''base''\<rparr>) fresh_stage empty_build))
   = Ok [''pwsh'']"
  by code_simp

text \<open>An instruction that is skipped leaves a row in the history; a target that does not exist selects
  the last stage without a message.\<close>

lemma skipped_instruction_in_history:
  "map hi_created_by (history_row sample_build_env (make_step\<lparr>in_verb := ''RUNN''\<rparr>)) = [''RUNN make'']"
  by code_simp

lemma unknown_target_builds_last_stage:
  "fst (build_image sample_build_env (sample_build_options\<lparr>bo_target := Some ''nosuch''\<rparr>) [] empty_build)
   = fst (build_image sample_build_env sample_build_options [] empty_build)"
  by code_simp

end
