(* ===== verification/Image_Fsck.thy ===== *)
theory Image_Fsck
  imports Image_Store
begin

text \<open>
  The offline check of the image store and its repair (\<open>crates/image/src/fsck.rs\<close>). The data root is
  a record of its files; the daemon's socket and the outcome of writes and deletions are parameters.
  Findings are texts, and the repair reads them back, as in the code. The theory shows that a repair
  leaves exactly the blobs that an image or the builder's cache refers to, that it drops exactly the
  dangling tags when no tag contains the text of a finding, and what goes wrong when one does.
\<close>

section \<open>The data root\<close>

datatype record_file = Unreadable_Record string | Invalid_Record string | Record_File image_record

record data_root =
  dr_root :: string
  dr_images :: "(string, record_file) assoc"
  dr_tags :: "(string, string) assoc"
  dr_cache :: "(string option \<times> string option) list"
  dr_cache_text :: string
  dr_blobs :: "string list"
  dr_layers :: "string list"

record fsck_report =
  rp_images_checked :: nat
  rp_blobs_referenced :: nat
  rp_errors :: "string list"
  rp_fixed :: "string list"

definition record_blob_refs :: "image_record \<Rightarrow> string list" where
  "record_blob_refs r = (if im_id r = [] then [] else [blob_name (im_id r)]) @ map blob_name (im_layer_blobs r)"

definition is_record_name :: "string \<Rightarrow> bool" where
  "is_record_name name = (ends_with ''.json'' name \<and> name \<noteq> ''tags.json'')"

definition blob_exists :: "data_root \<Rightarrow> string \<Rightarrow> bool" where
  "blob_exists D digest = (blob_name digest \<in> set (dr_blobs D))"

definition layer_exists :: "data_root \<Rightarrow> string \<Rightarrow> bool" where
  "layer_exists D diff_id = (blob_name diff_id \<in> set (dr_layers D))"

definition record_exists :: "data_root \<Rightarrow> string \<Rightarrow> bool" where
  "record_exists D i = has_key (dr_images D) (i @ ''.json'')"

text \<open>\<open>str::trim_end_matches\<close>, which strips the suffix as often as it occurs.\<close>

definition trim_end_matches :: "string \<Rightarrow> string \<Rightarrow> string" where
  "trim_end_matches p s = rev (trim_start_matches (rev p) (rev s))"

section \<open>The check\<close>

definition at_image :: "string \<Rightarrow> string \<Rightarrow> string" where
  "at_image name msg = ''images/'' @ name @ '': '' @ msg"

definition id_errors :: "string \<Rightarrow> image_record \<Rightarrow> string list" where
  "id_errors name r =
     (if im_id r = [] then [at_image name ''empty id'']
      else if trim_end_matches ''.json'' name \<noteq> blob_name (im_id r)
      then [at_image name (''filename does not match id '' @ im_id r)] else [])"

definition length_errors :: "string \<Rightarrow> image_record \<Rightarrow> string list" where
  "length_errors name r =
     (if length (im_diff_ids r) \<noteq> length (im_layer_blobs r)
      then [at_image name (show_nat (length (im_diff_ids r)) @ '' diff_ids but '' @ show_nat (length (im_layer_blobs r)) @ '' layer_blobs'')]
      else [])"

definition tag_errors :: "data_root \<Rightarrow> string \<Rightarrow> image_record \<Rightarrow> string list" where
  "tag_errors D name r = concat (map (\<lambda>t.
     case assoc_get (dr_tags D) t of
       Some owner \<Rightarrow> if blob_name owner \<noteq> blob_name (im_id r)
         then [at_image name (''stale embedded tag '' @ t @ '' (index points at '' @ owner @ '')'')] else []
     | None \<Rightarrow> [at_image name (''embedded tag '' @ t @ '' missing from index'')]) (im_repo_tags r))"

definition content_errors :: "data_root \<Rightarrow> string \<Rightarrow> image_record \<Rightarrow> string list" where
  "content_errors D name r =
     (if im_id r \<noteq> [] \<and> \<not> blob_exists D (im_id r) then [at_image name (''missing config blob '' @ im_id r)] else [])
     @ concat (map (\<lambda>(i, b).
         let dir_ok = (i < length (im_diff_ids r) \<and> layer_exists D (im_diff_ids r ! i)) in
         if \<not> blob_exists D b \<and> \<not> dir_ok then [at_image name (''missing blob '' @ b)] else [])
         (enumerate 0 (im_layer_blobs r)))
     @ concat (map (\<lambda>d. if layer_exists D d then [] else [at_image name (''missing layer '' @ d)]) (im_diff_ids r))"

definition file_errors :: "data_root \<Rightarrow> string \<times> record_file \<Rightarrow> string list" where
  "file_errors D f =
     (case f of (name, c) \<Rightarrow>
      if \<not> is_record_name name then []
      else (case c of
          Unreadable_Record e \<Rightarrow> [at_image name (''unreadable: '' @ e)]
        | Invalid_Record e \<Rightarrow> [at_image name (''invalid record: '' @ e)]
        | Record_File r \<Rightarrow> id_errors name r @ length_errors name r @ tag_errors D name r @ content_errors D name r))"

definition valid_records :: "data_root \<Rightarrow> image_record list" where
  "valid_records D = concat (map (\<lambda>(name, c).
     case c of Record_File r \<Rightarrow> if is_record_name name then [r] else [] | _ \<Rightarrow> []) (dr_images D))"

definition referenced :: "data_root \<Rightarrow> string list" where
  "referenced D = concat (map record_blob_refs (valid_records D))"

definition layer_refs :: "data_root \<Rightarrow> string list" where
  "layer_refs D = concat (map (\<lambda>r. map blob_name (im_diff_ids r)) (valid_records D))"

definition cache_blobs :: "data_root \<Rightarrow> string list" where
  "cache_blobs D = filter (\<lambda>s. s \<noteq> []) (map (\<lambda>(blob, diff).
     case blob of Some b \<Rightarrow> blob_name b | None \<Rightarrow> (case diff of Some d \<Rightarrow> blob_name d | None \<Rightarrow> [])) (dr_cache D))"

definition index_errors :: "data_root \<Rightarrow> string list" where
  "index_errors D = concat (map (\<lambda>(t, i).
     if record_exists D (blob_name i) then []
     else [''tags.json: '' @ t @ '' points at missing image '' @ i]) (dr_tags D))"

definition blob_path :: "data_root \<Rightarrow> string \<Rightarrow> string" where
  "blob_path D n = dr_root D @ ''/blobs/sha256/'' @ n"

definition partial_name :: "string \<Rightarrow> bool" where
  "partial_name n = (ends_with ''.part'' n \<or> ends_with ''.tmp'' n)"

definition blob_errors :: "data_root \<Rightarrow> string list" where
  "blob_errors D = concat (map (\<lambda>n.
     if partial_name n then [''stale partial download '' @ blob_path D n]
     else if n \<notin> set (referenced D) \<and> n \<notin> set (cache_blobs D) then [''unreferenced blob '' @ blob_path D n]
     else []) (dr_blobs D))"

definition layer_errors :: "data_root \<Rightarrow> string list" where
  "layer_errors D = concat (map (\<lambda>n.
     if n \<notin> set (layer_refs D) \<and> \<not> contains_str n (dr_cache_text D)
     then [''unreferenced layer '' @ dr_root D @ ''/layers/'' @ n] else []) (dr_layers D))"

definition fsck_check :: "data_root \<Rightarrow> fsck_report" where
  "fsck_check D =
     \<lparr>rp_images_checked = length (valid_records D), rp_blobs_referenced = length (referenced D),
      rp_errors = concat (map (file_errors D) (dr_images D)) @ index_errors D @ blob_errors D @ layer_errors D,
      rp_fixed = []\<rparr>"

section \<open>The repair\<close>

text \<open>Whether a path can be deleted, the index can be written, a record can be written.\<close>

record fsck_io =
  fi_remove :: "string \<Rightarrow> bool"
  fi_tags :: bool
  fi_record :: "string \<Rightarrow> bool"

type_synonym repair_outcome = "data_root \<times> string list \<times> string list"

definition removable :: "string \<Rightarrow> string option" where
  "removable e =
     (case strip_prefix ''stale partial download '' e of Some p \<Rightarrow> Some p | None \<Rightarrow> strip_prefix ''unreferenced blob '' e)"

definition remove_file :: "fsck_io \<Rightarrow> string \<Rightarrow> data_root \<Rightarrow> data_root option" where
  "remove_file io path D =
     (if fi_remove io path \<and> list_ex (\<lambda>n. blob_path D n = path) (dr_blobs D)
      then Some (D\<lparr>dr_blobs := filter (\<lambda>n. blob_path D n \<noteq> path) (dr_blobs D)\<rparr>) else None)"

definition drop_tag :: "fsck_io \<Rightarrow> string \<Rightarrow> data_root \<times> string list \<times> string list \<Rightarrow> string \<Rightarrow> repair_outcome" where
  "drop_tag io e acc rest =
     (case acc of (D, kept, fixed) \<Rightarrow>
      case split_once_str '' points at missing image '' rest of
        Some (t, _) \<Rightarrow>
          if has_key (dr_tags D) t then
            (if fi_tags io then (D\<lparr>dr_tags := assoc_del (dr_tags D) t\<rparr>, kept, fixed @ [''dropped dangling tag '' @ t])
             else (D, kept @ [e @ '' (tag drop failed)''], fixed))
          else (D, kept @ [e], fixed)
      | None \<Rightarrow> (D, kept @ [e], fixed))"

definition stale_embed :: "string \<Rightarrow> (string \<times> string) option" where
  "stale_embed e =
     (case strip_prefix ''images/'' e of
        None \<Rightarrow> None
      | Some rest \<Rightarrow>
         (case split_once_str '': stale embedded tag '' rest of
            None \<Rightarrow> None
          | Some (name, msg) \<Rightarrow>
             (case split_once_str '' (index points at '' msg of None \<Rightarrow> None | Some (t, _) \<Rightarrow> Some (name, t))))"

definition try_evict_stale_embed :: "fsck_io \<Rightarrow> string \<Rightarrow> repair_outcome \<Rightarrow> repair_outcome option" where
  "try_evict_stale_embed io e acc =
     (case acc of (D, kept, fixed) \<Rightarrow>
      case stale_embed e of
        None \<Rightarrow> None
      | Some (name, t) \<Rightarrow>
         (case assoc_get (dr_images D) name of
            Some (Record_File r) \<Rightarrow>
              if t \<notin> set (im_repo_tags r) then Some (D, kept @ [e], fixed)
              else if fi_record io name
              then Some (D\<lparr>dr_images := assoc_put (dr_images D) name (Record_File (r\<lparr>im_repo_tags := filter (\<lambda>x. x \<noteq> t) (im_repo_tags r)\<rparr>))\<rparr>,
                         kept, fixed @ [''evicted stale tag '' @ t @ '' from images/'' @ name])
              else Some (D, kept @ [e @ '' (evict failed)''], fixed)
          | _ \<Rightarrow> None))"

definition repair_error :: "fsck_io \<Rightarrow> string \<Rightarrow> repair_outcome \<Rightarrow> repair_outcome" where
  "repair_error io e acc =
     (case acc of (D, kept, fixed) \<Rightarrow>
      case removable e of
        Some path \<Rightarrow>
          (case remove_file io path D of
             Some D' \<Rightarrow> (D', kept, fixed @ [''removed '' @ path])
           | None \<Rightarrow> (D, kept @ [e @ '' (remove failed)''], fixed))
      | None \<Rightarrow>
         (case strip_prefix ''tags.json: '' e of
            Some rest \<Rightarrow> drop_tag io e acc rest
          | None \<Rightarrow>
             (case try_evict_stale_embed io e acc of
                Some acc' \<Rightarrow> acc'
              | None \<Rightarrow> (D, kept @ [e], fixed))))"

text \<open>\<open>None\<close> is the refusal to run beside a live daemon.\<close>

definition fsck_repair :: "fsck_io \<Rightarrow> bool \<Rightarrow> data_root \<Rightarrow> (fsck_report \<times> data_root) option" where
  "fsck_repair io daemon_live D =
     (if daemon_live then None
      else let rep = fsck_check D in
        if rp_errors rep = [] then Some (rep, D)
        else (case fold (repair_error io) (rp_errors rep) (D, [], []) of
                (D', kept, fixed) \<Rightarrow> Some (rep\<lparr>rp_errors := kept, rp_fixed := fixed\<rparr>, D')))"

section \<open>What a finding makes the repair do\<close>

lemma not_removable [simp]:
  "removable (at_image name msg) = None" "removable (''tags.json: '' @ s) = None" "removable (''unreferenced layer '' @ s) = None"
  by (simp_all add: removable_def at_image_def)

lemma removable_blob [simp]:
  "removable (''stale partial download '' @ p) = Some p" "removable (''unreferenced blob '' @ p) = Some p"
  by (simp_all add: removable_def)

lemma blob_path_inj [simp]: "blob_path D m = blob_path D n \<longleftrightarrow> m = n"
  by (simp add: blob_path_def)

lemma blob_path_root: "dr_root D' = dr_root D \<Longrightarrow> blob_path D' = blob_path D"
  by (rule ext) (simp add: blob_path_def)

lemma repair_root [simp]: "dr_root (fst (repair_error io e acc)) = dr_root (fst acc)"
  by (cases acc) (auto simp: repair_error_def drop_tag_def try_evict_stale_embed_def remove_file_def
      split: option.splits record_file.splits)

lemma repair_keeps_blobs: "removable e = None \<Longrightarrow> dr_blobs (fst (repair_error io e acc)) = dr_blobs (fst acc)"
  by (cases acc) (auto simp: repair_error_def drop_tag_def try_evict_stale_embed_def split: option.splits record_file.splits)

lemma repair_keeps_tags:
  assumes "strip_prefix ''tags.json: '' e = None"
  shows "dr_tags (fst (repair_error io e acc)) = dr_tags (fst acc)"
  using assms by (cases acc)
    (auto simp: repair_error_def try_evict_stale_embed_def remove_file_def split: option.splits record_file.splits)

lemma fold_repair_root [simp]: "dr_root (fst (fold (repair_error io) es acc)) = dr_root (fst acc)"
  by (induction es arbitrary: acc) simp_all

lemma fold_keeps_blobs:
  "\<forall>e \<in> set es. removable e = None \<Longrightarrow> dr_blobs (fst (fold (repair_error io) es acc)) = dr_blobs (fst acc)"
  by (induction es arbitrary: acc) (simp_all add: repair_keeps_blobs)

lemma fold_keeps_tags:
  "\<forall>e \<in> set es. strip_prefix ''tags.json: '' e = None \<Longrightarrow> dr_tags (fst (fold (repair_error io) es acc)) = dr_tags (fst acc)"
  by (induction es arbitrary: acc) (simp_all add: repair_keeps_tags)

lemma file_errors_shape: "e \<in> set (file_errors D f) \<Longrightarrow> \<exists>name msg. e = at_image name msg"
  by (cases f) (auto simp: file_errors_def id_errors_def length_errors_def tag_errors_def content_errors_def Let_def
      split: if_splits record_file.splits option.splits)

lemma other_errors_shape:
  "e \<in> set (index_errors D) \<Longrightarrow> \<exists>s. e = ''tags.json: '' @ s"
  "e \<in> set (blob_errors D) \<Longrightarrow> \<exists>s. e = ''stale partial download '' @ s \<or> e = ''unreferenced blob '' @ s"
  "e \<in> set (layer_errors D) \<Longrightarrow> \<exists>s. e = ''unreferenced layer '' @ s"
  by (auto simp: index_errors_def blob_errors_def layer_errors_def split: if_splits)

lemma image_errors_pass:
  assumes "e \<in> set (concat (map (file_errors D) fs))"
  shows "removable e = None" "strip_prefix ''tags.json: '' e = None"
proof -
  obtain name msg where "e = at_image name msg" using assms file_errors_shape by fastforce
  then show "removable e = None" "strip_prefix ''tags.json: '' e = None" by (simp_all add: at_image_def [of name msg] removable_def)
qed

lemma check_errors:
  "rp_errors (fsck_check D) = concat (map (file_errors D) (dr_images D)) @ index_errors D @ blob_errors D @ layer_errors D"
  by (simp add: fsck_check_def)

lemma dirty_repair:
  assumes "rp_errors (fsck_check D) \<noteq> []" "fsck_repair io False D = Some (rep, D')"
  shows "D' = fst (fold (repair_error io) (rp_errors (fsck_check D)) (D, [], []))"
  using assms by (auto simp: fsck_repair_def Let_def split: prod.splits)

section \<open>Blobs\<close>

definition unneeded :: "data_root \<Rightarrow> string \<Rightarrow> bool" where
  "unneeded D n = (partial_name n \<or> n \<notin> set (referenced D) \<and> n \<notin> set (cache_blobs D))"

definition blob_error :: "data_root \<Rightarrow> string \<Rightarrow> string" where
  "blob_error D n = (if partial_name n then ''stale partial download '' else ''unreferenced blob '') @ blob_path D n"

lemma blob_errors_alt: "blob_errors D = map (blob_error D) (filter (unneeded D) (dr_blobs D))"
proof -
  have "concat (map (\<lambda>n. if partial_name n then [''stale partial download '' @ blob_path D n]
     else if n \<notin> set (referenced D) \<and> n \<notin> set (cache_blobs D) then [''unreferenced blob '' @ blob_path D n]
     else []) ns) = map (blob_error D) (filter (unneeded D) ns)" for ns
    by (induction ns) (auto simp: blob_error_def unneeded_def)
  then show ?thesis by (simp add: blob_errors_def)
qed

lemma repair_blob:
  assumes "dr_root (fst acc) = dr_root D"
  shows "dr_blobs (fst (repair_error io (blob_error D n) acc)) =
    (if fi_remove io (blob_path D n) then filter (\<lambda>m. m \<noteq> n) (dr_blobs (fst acc)) else dr_blobs (fst acc))"
proof -
  have "removable (blob_error D n) = Some (blob_path D n)" by (simp add: blob_error_def removable_def)
  moreover have "filter (\<lambda>m. m \<noteq> n) xs = xs" if "n \<notin> set xs" for xs :: "string list" using that by (auto simp: filter_id_conv)
  ultimately show ?thesis
    using blob_path_root [OF assms]
    by (cases acc) (auto simp: repair_error_def remove_file_def list_ex_iff split: option.splits)
qed

lemma fold_repair_blobs:
  assumes "dr_root (fst acc) = dr_root D"
  shows "set (dr_blobs (fst (fold (repair_error io) (map (blob_error D) ns) acc))) =
    {n \<in> set (dr_blobs (fst acc)). n \<notin> set ns \<or> \<not> fi_remove io (blob_path D n)}"
  using assms by (induction ns arbitrary: acc) (auto simp: repair_blob)

text \<open>Claim C11: After a repair the store holds exactly the blobs that a readable image record or the builder's
  cache refers to and that are not partial downloads, besides those whose deletion failed; no blob
  in use is ever deleted.\<close>

theorem repair_blobs_exact:
  assumes "fsck_repair io False D = Some (rep, D')"
  shows "n \<in> set (dr_blobs D') \<longleftrightarrow>
     n \<in> set (dr_blobs D) \<and> ((n \<in> set (referenced D) \<or> n \<in> set (cache_blobs D)) \<and> \<not> partial_name n
                               \<or> \<not> fi_remove io (blob_path D n))"
proof -
  let ?img = "concat (map (file_errors D) (dr_images D))"
  have n: "n \<notin> set (filter (unneeded D) (dr_blobs D)) \<longleftrightarrow>
      n \<notin> set (dr_blobs D) \<or> (n \<in> set (referenced D) \<or> n \<in> set (cache_blobs D)) \<and> \<not> partial_name n"
    by (auto simp: unneeded_def)
  show ?thesis
  proof (cases "rp_errors (fsck_check D) = []")
    case True
    then have "n \<notin> set (filter (unneeded D) (dr_blobs D))" by (simp add: fsck_check_def blob_errors_alt)
    then have "n \<in> set (dr_blobs D) \<longrightarrow> (n \<in> set (referenced D) \<or> n \<in> set (cache_blobs D)) \<and> \<not> partial_name n" using n by blast
    moreover have "D' = D" using assms True by (simp add: fsck_repair_def Let_def)
    ultimately show ?thesis by blast
  next
    case False
    let ?a1 = "fold (repair_error io) ?img (D, [], [])"
    let ?a2 = "fold (repair_error io) (index_errors D) ?a1"
    let ?a3 = "fold (repair_error io) (blob_errors D) ?a2"
    have D': "D' = fst (fold (repair_error io) (layer_errors D) ?a3)"
      using dirty_repair [OF False assms] by (simp add: check_errors)
    have "dr_blobs D' = dr_blobs (fst ?a3)"
      unfolding D' by (rule fold_keeps_blobs) (use other_errors_shape(3) not_removable(3) in metis)
    moreover have "dr_blobs (fst ?a2) = dr_blobs (fst ?a1)"
      by (rule fold_keeps_blobs) (use other_errors_shape(1) not_removable(2) in metis)
    moreover have "dr_blobs (fst ?a1) = dr_blobs (fst (D, [] :: string list, [] :: string list))"
      by (rule fold_keeps_blobs) (use image_errors_pass(1) in blast)
    moreover have "set (dr_blobs (fst ?a3)) = {n \<in> set (dr_blobs (fst ?a2)). n \<notin> set (filter (unneeded D) (dr_blobs D)) \<or> \<not> fi_remove io (blob_path D n)}"
      unfolding blob_errors_alt by (rule fold_repair_blobs) simp
    ultimately show ?thesis using n by auto
  qed
qed

definition sample_record :: "string \<Rightarrow> string list \<Rightarrow> image_record" where
  "sample_record i tags = blank_record i\<lparr>im_repo_tags := tags, im_layer_blobs := [''sha256:b1''], im_diff_ids := [''sha256:d1'']\<rparr>"

text \<open>A root with an orphaned blob, a partial download and a dangling tag.\<close>

definition damaged_root :: data_root where
  "damaged_root = \<lparr>dr_root = ''/var/lib/ingot'', dr_images = [(''aa.json'', Record_File (sample_record ''aa'' [''x:1'']))],
     dr_tags = [(''x:1'', ''aa''), (''y:1'', ''bb'')], dr_cache = [], dr_cache_text = [],
     dr_blobs = [''aa'', ''b1'', ''orphan'', ''c.part''], dr_layers = [''d1'']\<rparr>"

definition good_fsck_io :: fsck_io where
  "good_fsck_io = \<lparr>fi_remove = (\<lambda>_. True), fi_tags = True, fi_record = (\<lambda>_. True)\<rparr>"

definition repaired_root :: data_root where
  "repaired_root = damaged_root\<lparr>dr_tags := [(''x:1'', ''aa'')], dr_blobs := [''aa'', ''b1'']\<rparr>"

definition repaired_report :: fsck_report where
  "repaired_report = \<lparr>rp_images_checked = 1, rp_blobs_referenced = 2, rp_errors = [],
     rp_fixed = [''dropped dangling tag y:1'', ''removed /var/lib/ingot/blobs/sha256/orphan'', ''removed /var/lib/ingot/blobs/sha256/c.part'']\<rparr>"

lemma damaged_repair: "fsck_repair good_fsck_io False damaged_root = Some (repaired_report, repaired_root)"
  by code_simp

theorem repair_blobs_exact_witness:
  "''orphan'' \<notin> set (dr_blobs repaired_root) \<and> ''b1'' \<in> set (dr_blobs repaired_root)"
proof -
  have "''b1'' \<in> set (referenced damaged_root)" "''orphan'' \<notin> set (referenced damaged_root)" "''orphan'' \<notin> set (cache_blobs damaged_root)"
    "''b1'' \<in> set (dr_blobs damaged_root)" "\<not> partial_name ''b1''" "fi_remove good_fsck_io (blob_path damaged_root ''orphan'')" by code_simp+
  then show ?thesis
    using repair_blobs_exact [OF damaged_repair, of "''orphan''"] repair_blobs_exact [OF damaged_repair, of "''b1''"] by blast
qed

section \<open>The index\<close>

definition dangling :: "data_root \<Rightarrow> string \<times> string \<Rightarrow> bool" where
  "dangling D p = (\<not> record_exists D (blob_name (snd p)))"

definition index_error :: "string \<times> string \<Rightarrow> string" where
  "index_error p = ''tags.json: '' @ fst p @ '' points at missing image '' @ snd p"

lemma index_errors_alt: "index_errors D = map index_error (filter (dangling D) (dr_tags D))"
proof -
  have "concat (map (\<lambda>(t, i). if record_exists D (blob_name i) then [] else [''tags.json: '' @ t @ '' points at missing image '' @ i]) ps)
      = map index_error (filter (dangling D) ps)" for ps
    by (induction ps) (auto simp: index_error_def dangling_def)
  then show ?thesis by (simp add: index_errors_def)
qed

lemma repair_index_error:
  assumes "fi_tags io" "CHR '' '' \<notin> set (fst p)" "has_key (dr_tags (fst acc)) (fst p)"
  shows "dr_tags (fst (repair_error io (index_error p) acc)) = assoc_del (dr_tags (fst acc)) (fst p)"
proof -
  define rest where "rest = fst p @ '' points at missing image '' @ snd p"
  have "split_once_str '' points at missing image '' rest = Some (fst p, snd p)"
    unfolding rest_def using split_once_str_head [OF assms(2), of "''points at missing image ''" "snd p"] by simp
  moreover have "index_error p = ''tags.json: '' @ rest" by (simp add: index_error_def rest_def)
  moreover have "removable (index_error p) = None" by (simp add: index_error_def removable_def)
  ultimately show ?thesis using assms(1,3) by (cases acc; cases p) (simp add: repair_error_def drop_tag_def)
qed

lemma fold_repair_index:
  assumes "fi_tags io" "distinct (map fst ps)" "\<forall>p \<in> set ps. CHR '' '' \<notin> set (fst p) \<and> has_key (dr_tags (fst acc)) (fst p)"
  shows "assoc_get (dr_tags (fst (fold (repair_error io) (map index_error ps) acc))) t =
    (if t \<in> fst ` set ps then None else assoc_get (dr_tags (fst acc)) t)"
  using assms(2,3)
proof (induction ps arbitrary: acc)
  case Nil
  then show ?case by simp
next
  case (Cons p ps)
  let ?a = "repair_error io (index_error p) acc"
  have d: "dr_tags (fst ?a) = assoc_del (dr_tags (fst acc)) (fst p)" using assms(1) Cons.prems by (intro repair_index_error) auto
  have n: "fst q \<noteq> fst p" if "q \<in> set ps" for q using Cons.prems(1) that by (metis distinct.simps(2) list.simps(9) image_eqI set_map)
  have "\<forall>q \<in> set ps. CHR '' '' \<notin> set (fst q) \<and> has_key (dr_tags (fst ?a)) (fst q)"
    using Cons.prems(2) n by (simp add: d has_key_def)
  then show ?case using Cons.IH [of ?a] Cons.prems(1) by (auto simp: d)
qed

text \<open>Claim C21: A repair drops from the index exactly the tags whose image has no record, when no tag has a
  space in it.\<close>

theorem repair_tags_exact:
  assumes "fsck_repair io False D = Some (rep, D')" "fi_tags io" "assoc_wf (dr_tags D)"
    and "\<forall>t \<in> set (assoc_keys (dr_tags D)). CHR '' '' \<notin> set t"
  shows "assoc_get (dr_tags D') t =
     (case assoc_get (dr_tags D) t of
        Some i \<Rightarrow> if record_exists D (blob_name i) then Some i else None
      | None \<Rightarrow> None)"
proof -
  let ?img = "concat (map (file_errors D) (dr_images D))" and ?ps = "filter (dangling D) (dr_tags D)"
  have m: "t \<in> fst ` set ?ps \<longleftrightarrow> (\<exists>i. assoc_get (dr_tags D) t = Some i \<and> \<not> record_exists D (blob_name i))"
    using assoc_get_iff [OF assms(3)] by (force simp: dangling_def)
  show ?thesis
  proof (cases "rp_errors (fsck_check D) = []")
    case True
    then have "?ps = []" by (simp add: fsck_check_def index_errors_alt)
    moreover have "D' = D" using assms(1) True by (simp add: fsck_repair_def Let_def)
    ultimately show ?thesis using m by (auto split: option.splits)
  next
    case False
    let ?a1 = "fold (repair_error io) ?img (D, [], [])"
    let ?a2 = "fold (repair_error io) (index_errors D) ?a1"
    have D': "D' = fst (fold (repair_error io) (blob_errors D @ layer_errors D) ?a2)"
      using dirty_repair [OF False assms(1)] by (simp add: check_errors)
    have "strip_prefix ''tags.json: '' e = None" if "e \<in> set (blob_errors D @ layer_errors D)" for e
      using that other_errors_shape(2,3) [of e D] by auto
    then have "dr_tags D' = dr_tags (fst ?a2)" unfolding D' by (intro fold_keeps_tags ballI)
    moreover have a1: "dr_tags (fst ?a1) = dr_tags D"
      using fold_keeps_tags [of ?img io "(D, [], [])"] image_errors_pass(2) by simp
    moreover have "assoc_get (dr_tags (fst ?a2)) t = (if t \<in> fst ` set ?ps then None else assoc_get (dr_tags (fst ?a1)) t)"
      unfolding index_errors_alt
    proof (rule fold_repair_index [OF assms(2)])
      show "distinct (map fst ?ps)" using assms(3) by (simp add: assoc_wf_def distinct_map_filter)
      show "\<forall>p \<in> set ?ps. CHR '' '' \<notin> set (fst p) \<and> has_key (dr_tags (fst ?a1)) (fst p)"
        using assms(4) by (auto simp: a1 assoc_keys_def has_key_iff)
    qed
    ultimately show ?thesis using m by (auto split: option.splits)
  qed
qed

theorem repair_tags_exact_witness:
  "assoc_get (dr_tags repaired_root) ''y:1'' = None \<and> assoc_get (dr_tags repaired_root) ''x:1'' = Some ''aa''"
proof -
  have a: "fi_tags good_fsck_io" "assoc_wf (dr_tags damaged_root)" by code_simp+
  have "list_all (\<lambda>t. CHR '' '' \<notin> set t) (assoc_keys (dr_tags damaged_root))" by code_simp
  then have b: "\<forall>t \<in> set (assoc_keys (dr_tags damaged_root)). CHR '' '' \<notin> set t" by (simp add: list_all_iff)
  have "assoc_get (dr_tags damaged_root) ''y:1'' = Some ''bb''" "\<not> record_exists damaged_root (blob_name ''bb'')"
    "assoc_get (dr_tags damaged_root) ''x:1'' = Some ''aa''" "record_exists damaged_root (blob_name ''aa'')" by code_simp+
  then show ?thesis
    using repair_tags_exact [OF damaged_repair a b, of "''y:1''"] repair_tags_exact [OF damaged_repair a b, of "''x:1''"] by simp
qed

section \<open>Findings that mislead\<close>

text \<open>A dangling tag whose text contains that of a finding makes the repair drop the valid tag named
  before it, and keep the dangling one.\<close>

lemma misread_finding_drops_valid_tag:
  "map_option (dr_tags \<circ> snd) (fsck_repair good_fsck_io False
     (damaged_root\<lparr>dr_tags := [(''x:1'', ''aa''), (''x:1 points at missing image z'', ''bb'')]\<rparr>))
   = Some [(''x:1 points at missing image z'', ''bb'')]"
  by code_simp

text \<open>The directory in which the store remembers the layer of each blob counts as an unreferenced
  layer: after the first pull no store is clean.\<close>

lemma by_blob_directory_reported:
  assumes "''.by-blob'' \<in> set (dr_layers D)" "''.by-blob'' \<notin> set (layer_refs D)" "\<not> contains_str ''.by-blob'' (dr_cache_text D)"
  shows "rp_errors (fsck_check D) \<noteq> []"
proof -
  have "''unreferenced layer '' @ dr_root D @ ''/layers/'' @ ''.by-blob'' \<in> set (layer_errors D)"
    using assms unfolding layer_errors_def by force
  then show ?thesis by (auto simp: fsck_check_def)
qed

end
