(* ===== verification/Volumes.thy ===== *)
theory Volumes
  imports Paths Api_Types
begin

text \<open>
  Volumes (\<open>crates/volume/src/lib.rs\<close>) and their endpoints (\<open>crates/server/src/handlers/volumes.rs\<close>). The
  directory of volumes is a map from names to entries; the clock, fresh identifiers, the readers of
  JSON and of RFC 3339 times and the outcome of file operations are parameters. The theory shows
  that a volume reads back as it was created, that pruning deletes exactly the volumes that are not
  in use and pass the filters, and what happens when the metadata in a volume is changed.
\<close>

section \<open>The manager\<close>

record volume_meta =
  vm_name :: string
  vm_created_at :: string
  vm_driver :: string
  vm_labels :: "(string, string) assoc"
  vm_options :: "(string, string) assoc"

record volume =
  v_CreatedAt :: string
  v_Driver :: string
  v_Labels :: "(string, string) assoc"
  v_Mountpoint :: string
  v_Name :: string
  v_Options :: "(string, string) assoc"
  v_Scope :: string

datatype meta_file = No_Meta | Corrupt_Meta | Meta volume_meta

datatype volume_entry = Other_Entry | Volume_Dir meta_file

type_synonym volume_dirs = "(string, volume_entry) assoc"

datatype volume_error =
  Bad_Name name_error | Cannot_Create string | Corrupt string | No_Such_Volume string | Cannot_Remove string

text \<open>The root of the volumes, the present time as text and in seconds, a fresh identifier, and whether
  a directory can be created, its metadata written, and a directory removed.\<close>

record volume_env =
  ve_root :: string
  ve_now_text :: string
  ve_now :: int
  ve_new_id :: string
  ve_mkdir :: "string \<Rightarrow> bool"
  ve_write :: "string \<Rightarrow> bool"
  ve_remove :: "string \<Rightarrow> bool"
  ve_rfc3339 :: "string \<Rightarrow> int option"
  ve_json :: "string \<Rightarrow> json option"

definition volume_dir :: "volume_env \<Rightarrow> string \<Rightarrow> (volume_error, string) result" where
  "volume_dir E name =
     (case validate_resource_name name of Inl e \<Rightarrow> Err (Bad_Name e) | Inr _ \<Rightarrow> Ok (ve_root E @ ''/'' @ name))"

definition to_volume :: "volume_meta \<Rightarrow> string \<Rightarrow> volume" where
  "to_volume m dir = \<lparr>v_CreatedAt = vm_created_at m, v_Driver = vm_driver m, v_Labels = vm_labels m, v_Mountpoint = dir,
     v_Name = vm_name m, v_Options = vm_options m, v_Scope = ''local''\<rparr>"

definition create_name :: "volume_env \<Rightarrow> string option \<Rightarrow> (volume_error, string) result" where
  "create_name E name =
     (case name of
        Some n \<Rightarrow> if trim n \<noteq> [] then
           (case validate_resource_name (trim n) of Inl e \<Rightarrow> Err (Bad_Name e) | Inr _ \<Rightarrow> Ok (trim n))
         else Ok (take 32 (ve_new_id E))
      | None \<Rightarrow> Ok (take 32 (ve_new_id E)))"

definition volume_create ::
  "volume_env \<Rightarrow> string option \<Rightarrow> string option \<Rightarrow> (string, string) assoc \<Rightarrow> (string, string) assoc \<Rightarrow> volume_dirs
    \<Rightarrow> (volume_error, volume) result \<times> volume_dirs" where
  "volume_create E name driver labels options s =
     (case and_then (create_name E name) (\<lambda>n. and_then (volume_dir E n) (\<lambda>dir. Ok (n, dir))) of
        Inl e \<Rightarrow> (Err e, s)
      | Inr (n, dir) \<Rightarrow>
          if \<not> ve_mkdir E n \<or> assoc_get s n = Some Other_Entry then (Err (Cannot_Create n), s)
          else
            let s1 = (if has_key s n then s else assoc_put s n (Volume_Dir No_Meta));
                m = \<lparr>vm_name = n, vm_created_at = ve_now_text E, vm_driver = (case driver of Some d \<Rightarrow> d | None \<Rightarrow> ''local''),
                     vm_labels = labels, vm_options = options\<rparr> in
            if \<not> ve_write E n then (Err (Cannot_Create n), s1)
            else (Ok (to_volume m dir), assoc_put s1 n (Volume_Dir (Meta m))))"

definition volume_get :: "volume_env \<Rightarrow> string \<Rightarrow> volume_dirs \<Rightarrow> (volume_error, volume option) result" where
  "volume_get E name s =
     and_then (volume_dir E name) (\<lambda>dir.
       case assoc_get s name of
         Some (Volume_Dir f) \<Rightarrow>
           (case f of
              No_Meta \<Rightarrow> Ok None
            | Corrupt_Meta \<Rightarrow> Err (Corrupt name)
            | Meta m \<Rightarrow> Ok (Some (to_volume m dir)))
       | _ \<Rightarrow> Ok None)"

definition listed :: "volume_env \<Rightarrow> volume_dirs \<Rightarrow> string \<times> volume_entry \<Rightarrow> volume list" where
  "listed E s entry =
     (case entry of
        (n, Volume_Dir _) \<Rightarrow> (case volume_get E n s of Inr (Some v) \<Rightarrow> [v] | _ \<Rightarrow> [])
      | _ \<Rightarrow> [])"

definition volume_list :: "volume_env \<Rightarrow> volume_dirs \<Rightarrow> volume list" where
  "volume_list E s = sort_by (\<lambda>a b. str_le (v_Name a) (v_Name b)) (concat (map (listed E s) s))"

definition volume_remove :: "volume_env \<Rightarrow> string \<Rightarrow> volume_dirs \<Rightarrow> (volume_error, unit) result \<times> volume_dirs" where
  "volume_remove E name s =
     (case volume_dir E name of
        Inl e \<Rightarrow> (Err e, s)
      | Inr _ \<Rightarrow>
          (case assoc_get s name of
             Some (Volume_Dir _) \<Rightarrow> if ve_remove E name then (Ok (), assoc_del s name) else (Err (Cannot_Remove name), s)
           | _ \<Rightarrow> (Err (No_Such_Volume name), s)))"

section \<open>Pruning\<close>

definition labels_match :: "(string, string) assoc \<Rightarrow> (string, string) assoc \<Rightarrow> bool" where
  "labels_match vol flt =
     list_all (\<lambda>(k, v). case assoc_get vol k of Some got \<Rightarrow> v = [] \<or> got = v | None \<Rightarrow> False) flt"

definition prunable :: "volume_env \<Rightarrow> string list \<Rightarrow> int option \<Rightarrow> (string, string) assoc \<Rightarrow> volume \<Rightarrow> bool" where
  "prunable E protected until flt v =
     (v_Name v \<notin> set protected
      \<and> (case until of
           Some ts \<Rightarrow> \<not> ts < (case ve_rfc3339 E (v_CreatedAt v) of Some c \<Rightarrow> c | None \<Rightarrow> ve_now E)
         | None \<Rightarrow> True)
      \<and> (flt = [] \<or> labels_match (v_Labels v) flt))"

fun prune_loop ::
  "volume_env \<Rightarrow> string list \<Rightarrow> int option \<Rightarrow> (string, string) assoc \<Rightarrow> volume list \<Rightarrow> volume_dirs \<Rightarrow> string list \<times> volume_dirs" where
  "prune_loop E protected until flt [] s = ([], s)"
| "prune_loop E protected until flt (v # vs) s =
     (if prunable E protected until flt v then
        (case volume_remove E (v_Name v) s of
           (Inr _, s') \<Rightarrow> (case prune_loop E protected until flt vs s' of (removed, s'') \<Rightarrow> (v_Name v # removed, s''))
         | (Inl _, s') \<Rightarrow> prune_loop E protected until flt vs s')
      else prune_loop E protected until flt vs s)"

definition volume_prune ::
  "volume_env \<Rightarrow> string list \<Rightarrow> int option \<Rightarrow> (string, string) assoc \<Rightarrow> volume_dirs \<Rightarrow> string list \<times> volume_dirs" where
  "volume_prune E protected until flt s = prune_loop E protected until flt (volume_list E s) s"

section \<open>The endpoints\<close>

datatype volume_response =
  Volume_Created volume | Volume_Found volume | Volumes_Listed "volume list" | Volume_Deleted
| Volumes_Pruned "string list" | Volume_Bad_Request string | Volume_Not_Found string | Volume_Server_Error

text \<open>The state of the endpoints: the volumes, the records of the containers and the published events.\<close>

record volume_state =
  vs_dirs :: volume_dirs
  vs_containers :: "container_record list"
  vs_events :: "(string \<times> string) list"

record volume_create_body =
  vb_Name :: string
  vb_Driver :: string
  vb_Labels :: "(string, string) assoc"
  vb_DriverOpts :: "(string, string) assoc"

definition filter_values :: "json \<Rightarrow> string list" where
  "filter_values v =
     (case v of
        JArr a \<Rightarrow> concat (map (\<lambda>x. case json_str x of Some s \<Rightarrow> [s] | None \<Rightarrow> []) a)
      | JStr s \<Rightarrow> [s]
      | _ \<Rightarrow> [])"

definition parse_filter_map :: "volume_env \<Rightarrow> string option \<Rightarrow> (string, string list) assoc option" where
  "parse_filter_map E raw =
     (case raw of
        None \<Rightarrow> Some []
      | Some s \<Rightarrow>
          if trim s = [] then Some []
          else (case ve_json E s of
                  Some (JObj m) \<Rightarrow> Some (map (\<lambda>(k, v). (k, filter_values v)) m)
                | _ \<Rightarrow> None))"

text \<open>Durations: the digits read so far, the sum, and whether a unit has been read; arithmetic that
  leaves the range of \<open>i64\<close> fails.\<close>

definition checked :: "int \<Rightarrow> int option" where
  "checked i = (if - 9223372036854775808 \<le> i \<and> i \<le> 9223372036854775807 then Some i else None)"

definition unit_seconds :: "char \<Rightarrow> int option" where
  "unit_seconds c = (if c = CHR ''h'' then Some 3600 else if c = CHR ''m'' then Some 60 else if c = CHR ''s'' then Some 1 else None)"

fun go_duration_loop :: "string \<Rightarrow> int \<Rightarrow> bool \<Rightarrow> string \<Rightarrow> int option" where
  "go_duration_loop num acc any [] = (if num \<noteq> [] \<or> \<not> any then None else Some acc)"
| "go_duration_loop num acc any (c # cs) =
     (if is_digit c then go_duration_loop (num @ [c]) acc any cs
      else (case parse_i64 num of
              None \<Rightarrow> None
            | Some n \<Rightarrow>
               (case unit_seconds c of
                  None \<Rightarrow> None
                | Some u \<Rightarrow>
                   (case checked (n * u) of
                      None \<Rightarrow> None
                    | Some secs \<Rightarrow>
                       (case checked (acc + secs) of None \<Rightarrow> None | Some t \<Rightarrow> go_duration_loop [] t True cs)))))"

definition parse_go_duration :: "string \<Rightarrow> int option" where
  "parse_go_duration v = go_duration_loop [] 0 False v"

definition saturating_sub :: "int \<Rightarrow> int \<Rightarrow> int" where
  "saturating_sub a b = max (- 9223372036854775808) (min 9223372036854775807 (a - b))"

definition parse_until_filter :: "volume_env \<Rightarrow> string \<Rightarrow> int option" where
  "parse_until_filter E raw =
     (let v = trim raw in
      if v = [] then None
      else (case parse_i64 v of
              Some ts \<Rightarrow> if 0 \<le> ts then Some ts else None
            | None \<Rightarrow>
               (case ve_rfc3339 E v of
                  Some t \<Rightarrow> Some t
                | None \<Rightarrow> map_option (saturating_sub (ve_now E)) (parse_go_duration v))))"

definition in_use_volumes :: "container_record list \<Rightarrow> string list" where
  "in_use_volumes recs = remdups (sort_by str_le (concat (map (\<lambda>r.
     concat (map (\<lambda>m. if m_typ m = ''volume'' \<and> m_name m \<noteq> [] then [m_name m] else []) (cr_mounts r))) recs)))"

definition volume_list_handler :: "volume_env \<Rightarrow> volume_state \<Rightarrow> volume_response" where
  "volume_list_handler E s = Volumes_Listed (volume_list E (vs_dirs s))"

definition volume_create_handler :: "volume_env \<Rightarrow> volume_create_body option \<Rightarrow> volume_state \<Rightarrow> volume_response \<times> volume_state" where
  "volume_create_handler E body s =
     (case body of
        None \<Rightarrow> (Volume_Bad_Request ''invalid volume body'', s)
      | Some b \<Rightarrow>
          if vb_Name b \<noteq> [] \<and> \<not> is_ok (validate_resource_name (vb_Name b)) then (Volume_Bad_Request ''invalid volume name'', s)
          else if vb_Driver b \<noteq> [] \<and> vb_Driver b \<noteq> ''local'' then (Volume_Bad_Request ''volume driver'', s)
          else
            (case volume_create E (if vb_Name b = [] then None else Some (vb_Name b))
                    (if vb_Driver b = [] then None else Some (vb_Driver b)) (vb_Labels b) (vb_DriverOpts b) (vs_dirs s) of
               (Inr v, dirs) \<Rightarrow> (Volume_Created v, s\<lparr>vs_dirs := dirs, vs_events := vs_events s @ [(''create'', v_Name v)]\<rparr>)
             | (Inl _, dirs) \<Rightarrow> (Volume_Bad_Request ''create volume'', s\<lparr>vs_dirs := dirs\<rparr>)))"

definition volume_inspect_handler :: "volume_env \<Rightarrow> string \<Rightarrow> volume_state \<Rightarrow> volume_response" where
  "volume_inspect_handler E name s =
     (if \<not> is_ok (validate_resource_name name) then Volume_Bad_Request ''invalid volume name''
      else (case volume_get E name (vs_dirs s) of
              Inr (Some v) \<Rightarrow> Volume_Found v
            | Inr None \<Rightarrow> Volume_Not_Found name
            | Inl _ \<Rightarrow> Volume_Server_Error))"

definition volume_remove_handler :: "volume_env \<Rightarrow> string \<Rightarrow> volume_state \<Rightarrow> volume_response \<times> volume_state" where
  "volume_remove_handler E name s =
     (if \<not> is_ok (validate_resource_name name) then (Volume_Bad_Request ''invalid volume name'', s)
      else (case volume_remove E name (vs_dirs s) of
              (Inr _, dirs) \<Rightarrow> (Volume_Deleted, s\<lparr>vs_dirs := dirs, vs_events := vs_events s @ [(''destroy'', name)]\<rparr>)
            | (Inl (No_Such_Volume _), dirs) \<Rightarrow> (Volume_Not_Found name, s)
            | (Inl _, dirs) \<Rightarrow> (Volume_Server_Error, s)))"

text \<open>The filters of a prune request, read in the order of the object.\<close>

fun until_values :: "volume_env \<Rightarrow> string list \<Rightarrow> int option \<Rightarrow> (string, int option) result" where
  "until_values E [] acc = Ok acc"
| "until_values E (v # vs) acc =
     (case parse_until_filter E v of Some ts \<Rightarrow> until_values E vs (Some ts) | None \<Rightarrow> Err ''invalid until filter'')"

definition add_label_filter :: "string \<Rightarrow> (string, string) assoc \<Rightarrow> (string, string) assoc" where
  "add_label_filter v flt =
     (case split_once CHR ''='' v of Some (k, x) \<Rightarrow> assoc_put flt k x | None \<Rightarrow> assoc_put flt v [])"

fun prune_filters ::
  "volume_env \<Rightarrow> (string, string list) assoc \<Rightarrow> int option \<Rightarrow> (string, string) assoc
    \<Rightarrow> (string, int option \<times> (string, string) assoc) result" where
  "prune_filters E [] until flt = Ok (until, flt)"
| "prune_filters E ((k, vals) # fs) until flt =
     (if k = ''until'' then
        (case until_values E vals until of Inl e \<Rightarrow> Err e | Inr u \<Rightarrow> prune_filters E fs u flt)
      else if k = ''label'' then prune_filters E fs until (fold add_label_filter vals flt)
      else Err ''invalid filter'')"

definition volume_prune_handler :: "volume_env \<Rightarrow> string option \<Rightarrow> volume_state \<Rightarrow> volume_response \<times> volume_state" where
  "volume_prune_handler E raw s =
     (case parse_filter_map E raw of
        None \<Rightarrow> (Volume_Bad_Request ''invalid filters'', s)
      | Some filters \<Rightarrow>
         (case prune_filters E filters None [] of
            Inl e \<Rightarrow> (Volume_Bad_Request e, s)
          | Inr (until, flt) \<Rightarrow>
             (case volume_prune E (in_use_volumes (vs_containers s)) until flt (vs_dirs s) of
                (deleted, dirs) \<Rightarrow> (Volumes_Pruned deleted, s\<lparr>vs_dirs := dirs\<rparr>))))"

section \<open>Volumes read back\<close>

text \<open>The directories the manager makes: a valid name, which is also the name in the metadata.\<close>

definition volumes_ok :: "volume_dirs \<Rightarrow> bool" where
  "volumes_ok s \<longleftrightarrow> assoc_wf s \<and>
     (\<forall>n m. assoc_get s n = Some (Volume_Dir (Meta m)) \<longrightarrow> vm_name m = n \<and> validate_resource_name n = Ok ())"

lemma volume_dir_Ok: "volume_dir E n = Ok d \<longleftrightarrow> validate_resource_name n = Ok () \<and> d = ve_root E @ ''/'' @ n"
  by (auto simp: volume_dir_def split: sum.splits)

lemma volume_get_Some:
  "volume_get E n s = Ok (Some v) \<longleftrightarrow>
     validate_resource_name n = Ok () \<and> (\<exists>m. assoc_get s n = Some (Volume_Dir (Meta m)) \<and> v = to_volume m (ve_root E @ ''/'' @ n))"
  by (auto simp: volume_get_def and_then_Ok volume_dir_Ok split: option.splits volume_entry.splits meta_file.splits)

lemma volume_name: "volumes_ok s \<Longrightarrow> volume_get E n s = Ok (Some v) \<Longrightarrow> v_Name v = n"
  by (auto simp: volume_get_Some volumes_ok_def to_volume_def)

definition new_meta :: "volume_env \<Rightarrow> string \<Rightarrow> string option \<Rightarrow> (string, string) assoc \<Rightarrow> (string, string) assoc \<Rightarrow> volume_meta" where
  "new_meta E n driver labels options =
     \<lparr>vm_name = n, vm_created_at = ve_now_text E, vm_driver = (case driver of Some d \<Rightarrow> d | None \<Rightarrow> ''local''),
      vm_labels = labels, vm_options = options\<rparr>"

lemma create_Ok:
  assumes "volume_create E (Some name) driver labels options s = (Ok v, s')" "trim name \<noteq> []"
  shows "validate_resource_name (trim name) = Ok () \<and> v = to_volume (new_meta E (trim name) driver labels options) (ve_root E @ ''/'' @ trim name)
    \<and> s' = assoc_put (if has_key s (trim name) then s else assoc_put s (trim name) (Volume_Dir No_Meta)) (trim name)
             (Volume_Dir (Meta (new_meta E (trim name) driver labels options)))"
proof (cases "validate_resource_name (trim name)")
  case (Inl e)
  then show ?thesis using assms by (simp add: volume_create_def create_name_def and_then_def)
next
  case (Inr u)
  then have "and_then (create_name E (Some name)) (\<lambda>n. and_then (volume_dir E n) (\<lambda>dir. Ok (n, dir)))
      = Ok (trim name, ve_root E @ ''/'' @ trim name)"
    using assms(2) by (simp add: create_name_def and_then_def volume_dir_def)
  then show ?thesis using assms(1) Inr by (auto simp: volume_create_def new_meta_def Let_def split: if_splits)
qed

text \<open>A created volume has the requested name, labels and options, it reads back as the value the
  creation returned, its directory is directly below the root, and no other volume changes.\<close>

theorem created_volume_reads_back:
  assumes "volume_create E (Some n) driver labels options s = (Ok v, s')" "trim n \<noteq> []" "volumes_ok s"
  shows "v_Name v = trim n \<and> v_Labels v = labels \<and> v_Options v = options \<and> volume_get E (trim n) s' = Ok (Some v)
     \<and> plain_name (trim n) \<and> volumes_ok s'
     \<and> (\<forall>k. k = trim n \<or> volume_get E k s' = volume_get E k s)"
proof -
  define m where "m = new_meta E (trim n) driver labels options"
  have m: "validate_resource_name (trim n) = Ok ()" "v = to_volume m (ve_root E @ ''/'' @ trim n)"
    and s': "s' = assoc_put (if has_key s (trim n) then s else assoc_put s (trim n) (Volume_Dir No_Meta)) (trim n) (Volume_Dir (Meta m))"
    using create_Ok [OF assms(1,2)] by (simp_all add: m_def)
  have v: "v_Name v = trim n" "v_Labels v = labels" "v_Options v = options" "vm_name m = trim n"
    by (simp_all add: m(2) m_def new_meta_def to_volume_def)
  have get: "assoc_get s' k = (if k = trim n then Some (Volume_Dir (Meta m)) else assoc_get s k)" for k
    by (simp add: s')
  have "volumes_ok s'" using assms(3) m(1) get v(4) by (auto simp: volumes_ok_def s')
  moreover have "volume_get E (trim n) s' = Ok (Some v)" using m get by (simp add: volume_get_Some)
  moreover have "volume_get E k s' = volume_get E k s" if "k \<noteq> trim n" for k using that get by (simp add: volume_get_def)
  ultimately show ?thesis using v valid_name_plain [of "trim n"] m(1) by auto
qed

section \<open>Pruning is exact\<close>

lemma listed_iff:
  assumes "assoc_wf s"
  shows "v \<in> set (volume_list E s) \<longleftrightarrow> (\<exists>n. volume_get E n s = Ok (Some v))"
proof
  assume "v \<in> set (volume_list E s)"
  then show "\<exists>n. volume_get E n s = Ok (Some v)"
    by (auto simp: volume_list_def listed_def split: volume_entry.splits sum.splits option.splits)
next
  assume "\<exists>n. volume_get E n s = Ok (Some v)"
  then obtain n m where n: "volume_get E n s = Ok (Some v)" "assoc_get s n = Some (Volume_Dir (Meta m))" by (auto simp: volume_get_Some)
  then have "(n, Volume_Dir (Meta m)) \<in> set s" by (simp add: assoc_get_Some_in)
  moreover have "v \<in> set (listed E s (n, Volume_Dir (Meta m)))" using n(1) by (simp add: listed_def)
  ultimately show "v \<in> set (volume_list E s)" by (force simp: volume_list_def)
qed

lemma distinct_listed_names:
  assumes "volumes_ok s"
  shows "distinct (map v_Name (volume_list E s))"
proof -
  have name: "v_Name v = fst p" if "v \<in> set (listed E s p)" for v p
    using that volume_name [OF assms, of E "fst p" v]
    by (cases p) (auto simp: listed_def split: volume_entry.splits sum.splits option.splits)
  have one: "length (listed E s p) \<le> 1" for p
    by (cases p) (auto simp: listed_def split: volume_entry.splits sum.splits option.splits)
  have "distinct (map v_Name (concat (map (listed E s) ps)))" if "distinct (map fst ps)" for ps
    using that
  proof (induction ps)
    case (Cons p ps)
    have "distinct (map v_Name (listed E s p))" using one [of p] by (cases "listed E s p") (auto simp: le_Suc_eq)
    have sub: "v_Name ` set (concat (map (listed E s) ps)) \<subseteq> fst ` set ps"
    proof
      fix x assume "x \<in> v_Name ` set (concat (map (listed E s) ps))"
      then obtain q w where "q \<in> set ps" "w \<in> set (listed E s q)" "x = v_Name w" by auto
      then show "x \<in> fst ` set ps" using name [of w q] by simp
    qed
    have one_name: "v_Name ` set (listed E s p) \<subseteq> {fst p}" using name [of _ p] by auto
    have new: "fst p \<notin> fst ` set ps" and dist: "distinct (map fst ps)" using Cons.prems by simp_all
    have "v_Name ` set (listed E s p) \<inter> v_Name ` set (concat (map (listed E s) ps)) = {}"
      using Int_mono [OF one_name sub] new by simp
    then show ?case using \<open>distinct (map v_Name (listed E s p))\<close> Cons.IH [OF dist]
      by (simp only: list.map concat.simps map_append distinct_append set_map simp_thms)
  qed simp
  moreover have "distinct (map fst s)" using assms by (simp add: volumes_ok_def assoc_wf_def)
  ultimately show ?thesis by (simp add: volume_list_def distinct_sort_by)
qed

lemma prune_loop_effect:
  assumes "prune_loop E protected until flt vs s = (removed, s')" "distinct (map v_Name vs)"
    and "\<forall>v \<in> set vs. validate_resource_name (v_Name v) = Ok () \<and> (\<exists>f. assoc_get s (v_Name v) = Some (Volume_Dir f))"
  shows "removed = map v_Name (filter (\<lambda>v. prunable E protected until flt v \<and> ve_remove E (v_Name v)) vs)
    \<and> (\<forall>n. assoc_get s' n = (if n \<in> set removed then None else assoc_get s n))"
  using assms
proof (induction vs arbitrary: s removed s')
  case Nil
  then show ?case by simp
next
  case (Cons v vs)
  have v: "validate_resource_name (v_Name v) = Ok ()" "\<exists>f. assoc_get s (v_Name v) = Some (Volume_Dir f)"
    and d: "distinct (map v_Name vs)" "v_Name v \<notin> v_Name ` set vs" using Cons.prems by auto
  show ?case
  proof (cases "prunable E protected until flt v \<and> ve_remove E (v_Name v)")
    case True
    have r: "volume_remove E (v_Name v) s = (Ok (), assoc_del s (v_Name v))"
      using v True by (auto simp: volume_remove_def volume_dir_def)
    obtain rs where rs: "prune_loop E protected until flt vs (assoc_del s (v_Name v)) = (rs, s')" "removed = v_Name v # rs"
      using Cons.prems(1) True r by (auto split: prod.splits)
    have "\<forall>w \<in> set vs. validate_resource_name (v_Name w) = Ok () \<and> (\<exists>f. assoc_get (assoc_del s (v_Name v)) (v_Name w) = Some (Volume_Dir f))"
      using Cons.prems(3) d(2) by (auto simp: image_iff)
    then show ?thesis using Cons.IH [OF rs(1) d(1)] rs(2) True by auto
  next
    case False
    have "prune_loop E protected until flt vs s = (removed, s')"
      using Cons.prems(1) False v by (auto simp: volume_remove_def volume_dir_def split: if_splits)
    then show ?thesis using Cons.IH [OF _ d(1)] Cons.prems(3) False by auto
  qed
qed

text \<open>A prune deletes exactly the volumes that are not protected, are not younger than the limit and
  carry the labels asked for, as far as their directories can be removed; it returns their names,
  and everything else in the directory stays.\<close>

lemma prune_effect:
  assumes "volumes_ok s" "volume_prune E protected until flt s = (removed, s')"
  shows "(n \<in> set removed \<longleftrightarrow>
            (\<exists>v. volume_get E n s = Ok (Some v) \<and> n \<notin> set protected \<and> prunable E [] until flt v \<and> ve_remove E n))
       \<and> assoc_get s' n = (if n \<in> set removed then None else assoc_get s n)"
proof -
  have wf: "assoc_wf s" using assms(1) by (simp add: volumes_ok_def)
  note name = volume_name [OF assms(1)]
  have "validate_resource_name (v_Name v) = Ok () \<and> (\<exists>f. assoc_get s (v_Name v) = Some (Volume_Dir f))"
    if "v \<in> set (volume_list E s)" for v
  proof -
    obtain k where k: "volume_get E k s = Ok (Some v)" using \<open>v \<in> set (volume_list E s)\<close> by (auto simp: listed_iff [OF wf])
    then show ?thesis using name [OF k] by (auto simp: volume_get_Some)
  qed
  then have "\<forall>v \<in> set (volume_list E s). validate_resource_name (v_Name v) = Ok () \<and> (\<exists>f. assoc_get s (v_Name v) = Some (Volume_Dir f))"
    by blast
  note f = prune_loop_effect [OF assms(2) [unfolded volume_prune_def] distinct_listed_names [OF assms(1)] this]
  have "n \<in> set removed \<longleftrightarrow> (\<exists>v. volume_get E n s = Ok (Some v) \<and> prunable E protected until flt v \<and> ve_remove E n)"
    using f name by (fastforce simp: listed_iff [OF wf] image_iff)
  moreover have "prunable E protected until flt v \<longleftrightarrow> n \<notin> set protected \<and> prunable E [] until flt v" if "volume_get E n s = Ok (Some v)" for v
    using name [OF that] by (simp add: prunable_def)
  ultimately show ?thesis using f by blast
qed

section \<open>A prune request\<close>

definition mounted :: "container_record list \<Rightarrow> string \<Rightarrow> bool" where
  "mounted recs n \<longleftrightarrow> (\<exists>r \<in> set recs. \<exists>m \<in> set (cr_mounts r). m_typ m = ''volume'' \<and> m_name m = n)"

lemma in_use_iff: "n \<in> set (in_use_volumes recs) \<longleftrightarrow> n \<noteq> [] \<and> mounted recs n"
  by (auto simp: in_use_volumes_def mounted_def split: if_splits)


section \<open>Samples\<close>

definition sample_volume_env :: volume_env where
  "sample_volume_env =
     \<lparr>ve_root = ''/var/lib/ingot/volumes'', ve_now_text = ''2024-05-01T00:00:00Z'', ve_now = 1714521600, ve_new_id = replicate 64 CHR ''a'',
      ve_mkdir = (\<lambda>_. True), ve_write = (\<lambda>_. True), ve_remove = (\<lambda>_. True),
      ve_rfc3339 = (\<lambda>t. if t = ''2024-05-01T00:00:00Z'' then Some 1714521600 else None),
      ve_json = (\<lambda>t. if t = ''q'' then Some (JObj [(''label'', JArr [JStr ''tmp=yes''])]) else None)\<rparr>"

definition sample_volumes :: volume_dirs where
  "sample_volumes =
     [(''db'', Volume_Dir (Meta (new_meta sample_volume_env ''db'' None [(''tmp'', ''yes'')] []))),
      (''old'', Volume_Dir (Meta (new_meta sample_volume_env ''old'' None [(''tmp'', ''yes'')] []))),
      (''keep'', Volume_Dir (Meta (new_meta sample_volume_env ''keep'' None [] [])))]"

lemma sample_volumes_ok: "volumes_ok sample_volumes"
proof -
  have "validate_resource_name ''db'' = Ok ()" "validate_resource_name ''old'' = Ok ()" "validate_resource_name ''keep'' = Ok ()"
    by code_simp+
  then show ?thesis by (auto simp: volumes_ok_def sample_volumes_def assoc_wf_def new_meta_def assoc_get_def split: if_splits)
qed

definition sample_volume_state :: volume_state where
  "sample_volume_state =
     \<lparr>vs_dirs = sample_volumes,
      vs_containers = [\<lparr>cr_id = ''c1'', cr_name = ''pg'', cr_created = [], cr_image_id = [], cr_image_name = [],
        cr_config = default_container_config, cr_hostconfig = default_host_config, cr_cmd_display = [],
        cr_endpoints = [], cr_wired_once = False,
        cr_mounts = [\<lparr>m_typ = ''volume'', m_name = ''db'', m_source = ''/var/lib/ingot/volumes/db'', m_destination = ''/data'',
                      m_read_only = False, m_is_anonymous = False\<rparr>]\<rparr>],
      vs_events = []\<rparr>"

theorem created_volume_reads_back_witness:
  "volume_get sample_volume_env ''new'' (snd (volume_create sample_volume_env (Some '' new '') None [(''a'', ''b'')] [] sample_volumes))
     = Ok (Some (to_volume (new_meta sample_volume_env ''new'' None [(''a'', ''b'')] []) ''/var/lib/ingot/volumes/new''))"
proof -
  have c: "fst (volume_create sample_volume_env (Some '' new '') None [(''a'', ''b'')] [] sample_volumes)
      = Ok (to_volume (new_meta sample_volume_env ''new'' None [(''a'', ''b'')] []) ''/var/lib/ingot/volumes/new'')"
    by code_simp
  have t: "trim '' new '' = ''new''" by code_simp
  have "trim '' new '' \<noteq> []" by (simp add: t)
  from created_volume_reads_back [OF prod_eqI [of _ "(Ok _, _)", simplified, OF c refl] this sample_volumes_ok]
  show ?thesis by (simp add: t)
qed


section \<open>What the metadata decides\<close>

text \<open>Creating a volume that exists succeeds and replaces its labels, options and age.\<close>

lemma recreation_replaces_metadata:
  "fst (volume_create sample_volume_env (Some ''db'') None [] [] sample_volumes)
     = Ok (to_volume (new_meta sample_volume_env ''db'' None [] []) ''/var/lib/ingot/volumes/db'')"
  "v_Labels (to_volume (new_meta sample_volume_env ''db'' None [] []) ''/var/lib/ingot/volumes/db'') = []"
  "volume_get sample_volume_env ''db'' sample_volumes
     = Ok (Some (to_volume (new_meta sample_volume_env ''db'' None [(''tmp'', ''yes'')] []) ''/var/lib/ingot/volumes/db''))"
  by code_simp+

text \<open>A volume that a container mounts can be deleted by name.\<close>

lemma mounted_volume_deleted:
  "fst (volume_remove_handler sample_volume_env ''db'' sample_volume_state) = Volume_Deleted"
  "assoc_get (vs_dirs (snd (volume_remove_handler sample_volume_env ''db'' sample_volume_state))) ''db'' = None"
  "in_use_volumes (vs_containers sample_volume_state) = [''db'']"
  by code_simp+

text \<open>The metadata lies in the directory that containers mount. A container that writes another
  volume's name and a label into its own metadata directs a filtered prune to that volume: it is
  deleted although it does not carry the label.\<close>

definition forged_volumes :: volume_dirs where
  "forged_volumes =
     [(''old'', Volume_Dir (Meta (new_meta sample_volume_env ''keep'' None [(''tmp'', ''yes'')] []))),
      (''keep'', Volume_Dir (Meta (new_meta sample_volume_env ''keep'' None [] [])))]"

lemma forged_metadata_prunes_other_volume:
  "volume_get sample_volume_env ''keep'' forged_volumes
     = Ok (Some (to_volume (new_meta sample_volume_env ''keep'' None [] []) ''/var/lib/ingot/volumes/keep''))"
  "fst (volume_prune sample_volume_env [] None [(''tmp'', ''yes'')] forged_volumes) = [''keep'']"
  "has_key (snd (volume_prune sample_volume_env [] None [(''tmp'', ''yes'')] forged_volumes)) ''keep'' = False"
  by code_simp+

end
