(* ===== verification/Spec2Isabelle.thy ===== *)
theory Spec2Isabelle
  imports Network_Boot Dns_Server Ipam Paths Privileges Cgroup Log_Driver Create_Validation Container_Files Container_Create Supervisor Compose_Up
    Image_Build Image_Fsck Volumes
begin

text \<open>
  A verification development for the container engine under \<open>src/\<close>. The engine is a daemon
  (\<open>crates/ingotd\<close>) that serves the Engine API (\<open>crates/server\<close>), runs containers
  (\<open>crates/runtime\<close>), connects them to networks (\<open>crates/network\<close>), stores images and volumes
  (\<open>crates/image\<close>, \<open>crates/volume\<close>, \<open>crates/store\<close>), and builds images (\<open>crates/builder\<close>); a command
  line client with compose support is in \<open>crates/ingot-cli\<close>.

  Theories and the code they model:

  \<^item> \<open>Ingot_Prelude\<close>: the operations of Rust's standard library that the sources call, on strings
    of ASCII characters, decimal numbers, sorting, hash maps as association lists and results as
    sums, with their laws.
  \<^item> \<open>Net_Addr\<close>: \<open>std::net\<close> address literals and the arithmetic of network masks.
  \<^item> \<open>Ipam\<close> (\<open>crates/network/src/ipam.rs\<close>): subnets and address leases of both families. The locale
    \<open>address_pool\<close> states what a pool of leases promises; it is interpreted for the IPv4 and the
    IPv6 operations, and the properties rest on its facts: allocation yields the lowest free usable
    address, fails exactly when none is left, never hands out an address twice, and the saved table
    recovers every lease after a restart. Words keep the wrap-around of a release build.
  \<^item> \<open>Paths\<close> (\<open>crates/util/src/path.rs\<close>): resource names, lexical cleaning of paths, and the
    resolution of paths inside a container's root over an abstract kernel, a record of system
    calls that the definitions take as a parameter; what resolution relies on is the predicate
    \<open>confines\<close>.
  \<^item> \<open>Api_Types\<close> (\<open>crates/api/src/container.rs\<close>, \<open>crates/runtime/src/record.rs\<close>): request bodies and the
    container record.
  \<^item> \<open>Privileges\<close> (\<open>crates/runtime/src/child.rs\<close>): capabilities, users and groups. The \<open>caps\<close> crate
    is a parameter with the hypothesis \<open>caps_crate\<close>.
  \<^item> \<open>Cgroup\<close> (\<open>crates/runtime/src/cgroup.rs\<close>): control-group limits over a map of interface files.
  \<^item> \<open>Log_Driver\<close> (\<open>crates/runtime/src/stdio.rs\<close>): log rotation over a map of files, stream frames.
  \<^item> \<open>Create_Validation\<close> (\<open>crates/runtime/src/error.rs\<close>): every check of a create request, in order.
  \<^item> \<open>Container_Files\<close>, \<open>Container_Create\<close> (\<open>crates/runtime/src/manager.rs\<close>): \<open>resolv.conf\<close> and \<open>hosts\<close>,
    mounts, the merge of image and request, endpoints, the record.
  \<^item> \<open>Supervisor\<close> (\<open>crates/runtime/src/manager.rs\<close>, \<open>crates/ingotd/src/main.rs\<close>): the life cycle of a
    container as a step relation over user requests, process exits and restart tasks, with
    invariants of every reachable state; health probes; reconciliation at boot.
  \<^item> \<open>Port_Publish\<close> (\<open>crates/network/src/lib.rs\<close>, \<open>proxy.rs\<close>, \<open>crates/runtime/src/manager.rs\<close>): the table of
    published ports, its conflict check, the firewall commands and proxies, ephemeral ports and the
    rollback of a start. The locale \<open>port_table\<close> is the contract of the table; the firewall refines
    it when the command \<open>iptables\<close>, a parameter, behaves as documented.
  \<^item> \<open>Ipv6_Text\<close>, \<open>Bridge_Rules\<close>, \<open>Network_Manager\<close>, \<open>Network_Boot\<close> (\<open>crates/network/src/lib.rs\<close>): address
    text, the rules of a bridge in both families, networks and endpoints with their leases, and the
    start of the daemon. Reachable states never give two endpoints one address; attaching and
    detaching are inverse; a boot gives back exactly the leases of endpoints that are gone.
  \<^item> \<open>Dns_Server\<close> (\<open>crates/network/src/dns.rs\<close>): queries as bytes, the choice of an answer and its bytes.
  \<^item> \<open>Image_Ref\<close> (\<open>crates/registry/src/reference.rs\<close>): image references and tag keys, with the round
    trip of printing and parsing.
  \<^item> \<open>Ignore_Patterns\<close> (\<open>crates/util/src/ignore.rs\<close> and the walk of \<open>build\<close> in
    \<open>crates/ingot-cli/src/commands.rs\<close>): glob patterns with a language for each of them, verdicts, and the
    entries of a build context.
  \<^item> \<open>Port_Spec\<close> (\<open>crates/ingot-cli/src/ports.rs\<close>): the port syntax of the client, and that what it
    produces passes the validation of the daemon.
  \<^item> \<open>Credentials\<close> (\<open>crates/ingot-cli/src/auth.rs\<close>, \<open>commands.rs\<close>): the credential file, the registry of an
    image, escaping and request paths. Base64 is a parameter.
  \<^item> \<open>Compose_Model\<close>, \<open>Service_Order\<close>, \<open>Compose_Extends\<close>, \<open>Resource_Limits\<close>
    (\<open>crates/ingot-cli/src/compose.rs\<close>): the compose file, the order of services, inheritance between
    services and files, and the limits of a deployment with decimal fractions as binary floating
    point numbers.
  \<^item> \<open>Compose_Up\<close> (\<open>compose.rs\<close>, functions \<open>up\<close> and \<open>down\<close>): both commands as programs over a daemon that
    is a parameter; they return the trace of requests, over which the theorems speak.

  \<^item> \<open>Dockerfile\<close> (\<open>crates/builder/src/parser.rs\<close>): logical lines, heredocs, flags, and the expansion of
    variables. A printed file parses to the instructions it was printed from; an accepted file has
    the shape the builder relies on; expansion replaces each reference by its value.
  \<^item> \<open>Image_Store\<close> (\<open>crates/image/src/store.rs\<close>, \<open>crates/util/src/digest.rs\<close>): image records, the index of tags,
    the cached list, the resolution of names and the removal of images with the layers nothing else
    needs. The locale \<open>tag_index\<close> is the contract of the index that the put of several tags relies on.
    SHA-256 is a parameter; whether a write succeeds is a parameter too.
  \<^item> \<open>Image_Fsck\<close> (\<open>crates/image/src/fsck.rs\<close>): the findings of the check, as the texts the code makes, and the
    repair that reads these texts: it removes exactly the blobs nothing needs and the tags that dangle.
  \<^item> \<open>Build_Config\<close>, \<open>Image_Build\<close> (\<open>crates/builder/src/build.rs\<close>): the builder. The first holds what it decides
    without files: the scope of variables, the configuration of an image, secret mounts, ownership,
    the confinement of sources, destinations and archive entries, and the keys of the cache, which
    are shown to separate the inputs of steps. The second holds the cache, the steps that add a
    layer, the loop over stages and the record of the image; \<open>ensures\<close> is the notion of invariant its
    lemmas use. A built image is stored with layers, blobs and history that agree, under every tag
    asked for, and the values of secrets reach it through executed steps only. Running a step,
    copying, archives, compression and the pull of a base image are fields of \<open>build_env\<close>;
    \<open>pull_keeps\<close> and \<open>steps_blind\<close> are what the theorems assume of them.
  \<^item> \<open>Volumes\<close> (\<open>crates/volume/src/lib.rs\<close>, \<open>crates/server/src/handlers/volumes.rs\<close>): the volumes as directories
    with metadata, their endpoints, and the prune with its filters.

  Components interact through the record of a container: validation admits a request, creation
  turns it into a record and mounts, the life cycle runs it, and the files, limits, capabilities
  and the log driver are computed from it. A start publishes its ports and attaches its endpoints,
  whose names the DNS server answers. The client sends requests only: compose turns a file into
  requests in dependency order. The theorems that span components are in the theory of the later
  component; those about validation and the record are below.

  Loops are structural recursions or folds where the code iterates over a collection. The others
  have termination proofs: \<open>openat_walk\<close> (bounded in the code by a count of followed links),
  \<open>probe_slots\<close>, \<open>read_labels\<close>, \<open>kahn\<close> (the sum of the degrees and the length of the queue),
  \<open>match_comp\<close>, \<open>match_parts\<close>, \<open>after_last\<close>, \<open>wait_healthy_from\<close> (the deadline), and the readers \<open>extract_heredoc_delims\<close>, \<open>split_flags_loop\<close> and
  \<open>expand_vars\<close> (the rest of the text) and \<open>key_values\<close> (the rest of the words). Fuel is used in
  \<open>resolve_service\<close> alone, whose recursion through files need not end; within one file the number of
  services is enough (\<open>extends_same_file_total\<close>), and a chain of files that never ends is exhibited.
  Integers that wrap in the code are words; the others are natural numbers or integers within their
  machine range.

  Not modelled: system calls and their effects on the host (mounts, namespaces, netlink, process
  creation), the HTTP layer outside the volume endpoints, the unpacking of layers, the transfers of
  the registry client and the formats of files, which are interaction with the outside.
\<close>

section \<open>Stop signals\<close>

text \<open>The signals whose names the stop path of a container knows.\<close>

definition known_stop_signals :: "nat list" where
  "known_stop_signals = [1, 2, 3, 9, 10, 12, 15]"

lemma stop_signal_names:
  "i < length signal_names \<Longrightarrow>
   stop_signal (r\<lparr>cr_config := (cr_config r)\<lparr>c_StopSignal := signal_names ! i\<rparr>\<rparr>) =
     (if Suc i \<in> set known_stop_signals then Suc i else 15)"
proof -
  define f where "f i = (let s = signal_names ! i in
     if s \<in> {''SIGINT'', ''INT''} then 2 else if s \<in> {''SIGKILL'', ''KILL''} then 9
     else if s \<in> {''SIGHUP'', ''HUP''} then 1 else if s \<in> {''SIGQUIT'', ''QUIT''} then 3
     else if s \<in> {''SIGUSR1'', ''USR1''} then 10 else if s \<in> {''SIGUSR2'', ''USR2''} then 12
     else (15 :: nat))" for i
  have "list_all (\<lambda>i. f i = (if Suc i \<in> set known_stop_signals then Suc i else 15)) [0..<31]"
    unfolding f_def by code_simp
  moreover have "length signal_names = 31" by code_simp
  ultimately have "i < length signal_names \<Longrightarrow> f i = (if Suc i \<in> set known_stop_signals then Suc i else 15)"
    by (simp add: list_all_iff)
  then show "i < length signal_names \<Longrightarrow> ?thesis" by (simp add: f_def stop_signal_def)
qed

text \<open>Every signal name passes the validation of \<open>StopSignal\<close>, but the stop path sends the
  named signal only for seven of them and \<open>SIGTERM\<close> for all others.\<close>

theorem accepted_stop_signal_replaced:
  assumes "i < length signal_names"
  shows "valid_signal (signal_names ! i) \<and> parse_signal (signal_names ! i) = Some (Suc i) \<and>
         stop_signal (r\<lparr>cr_config := (cr_config r)\<lparr>c_StopSignal := signal_names ! i\<rparr>\<rparr>) =
           (if Suc i \<in> {1, 2, 3, 9, 10, 12, 15} then Suc i else 15)"
  using signal_name_cases[OF assms] stop_signal_names[OF assms, of r]
  by (simp add: valid_signal_def known_stop_signals_def)

theorem accepted_stop_signal_replaced_witness:
  "\<forall>r. stop_signal (r\<lparr>cr_config := (cr_config r)\<lparr>c_StopSignal := signal_names ! 27\<rparr>\<rparr>) = 15"
proof
  fix r :: container_record
  have "27 < length signal_names" by code_simp
  from accepted_stop_signal_replaced[OF this, of r]
  show "stop_signal (r\<lparr>cr_config := (cr_config r)\<lparr>c_StopSignal := signal_names ! 27\<rparr>\<rparr>) = 15" by simp
qed

end
